(* ===== verification/Go_Prelude.thy ===== *)
theory Go_Prelude
  imports
    Main
    "HOL-Library.AList"
    "HOL-Library.Char_ord"
    "HOL-Library.List_Lexorder"
    "HOL-Library.Multiset"
    "HOL-Library.Sublist"
begin

text \<open>
  Shared vocabulary of the development: the parts of the Go language and of its standard
  library that the sources use, and the generic lemmas the component theories rest on.

  \<^item> A Go \<open>string\<close> is a sequence of bytes, so it is a \<^typ>\<open>string\<close> (a list of 8-bit
    characters); \<open>len\<close> counts bytes and \<open><\<close> compares byte-wise, which is the order of
    \<open>Char_ord\<close> lifted by \<open>List_Lexorder\<close>.
  \<^item> A Go \<open>map\<close> is an association list with distinct keys. The position in the list is the
    order in which one \<open>range\<close> loop visits the entries: Go leaves that order open, so a
    property of a ranging operation is stated for every list with the same content
    (\<open>gm_same\<close>).
  \<^item> A pointer that may be \<open>nil\<close>, and a map or slice whose \<open>nil\<close> the code distinguishes from
    the empty one, is an \<open>option\<close>; a returned \<open>error\<close> is an \<open>option\<close> of a datatype of errors,
    or the left half of a sum.
\<close>

named_theorems gomap_simps \<open>rewriting of lookups through updates and deletions of Go maps\<close>
named_theorems gostr_simps \<open>evaluation of the string functions of package strings\<close>

section \<open>Go maps\<close>

type_synonym ('k, 'v) gomap = "('k \<times> 'v) list"

definition gm_wf :: "('k, 'v) gomap \<Rightarrow> bool" where
  "gm_wf m = distinct (map fst m)"

definition gm_get :: "('k, 'v) gomap \<Rightarrow> 'k \<Rightarrow> 'v option" where
  "gm_get m k = map_of m k"

definition gm_put :: "'k \<Rightarrow> 'v \<Rightarrow> ('k, 'v) gomap \<Rightarrow> ('k, 'v) gomap" where
  "gm_put k v m = AList.update k v m"

definition gm_del :: "'k \<Rightarrow> ('k, 'v) gomap \<Rightarrow> ('k, 'v) gomap" where
  "gm_del k m = AList.delete k m"

definition gm_has :: "('k, 'v) gomap \<Rightarrow> 'k \<Rightarrow> bool" where
  "gm_has m k = (gm_get m k \<noteq> None)"

definition gm_keys :: "('k, 'v) gomap \<Rightarrow> 'k list" where
  "gm_keys m = map fst m"

definition gm_vals :: "('k, 'v) gomap \<Rightarrow> 'v list" where
  "gm_vals m = map snd m"

text \<open>The same map, visited in another order.\<close>

definition gm_same :: "('k, 'v) gomap \<Rightarrow> ('k, 'v) gomap \<Rightarrow> bool" where
  "gm_same m m' = (gm_wf m \<and> gm_wf m' \<and> mset m = mset m')"

lemma gm_wf_Nil [simp, intro]: "gm_wf []"
  by (simp add: gm_wf_def)

lemma gm_wf_put [simp, intro]: "gm_wf m \<Longrightarrow> gm_wf (gm_put k v m)"
  by (simp add: gm_wf_def gm_put_def distinct_update)

lemma gm_wf_del [simp, intro]: "gm_wf m \<Longrightarrow> gm_wf (gm_del k m)"
  by (simp add: gm_wf_def gm_del_def distinct_delete)

lemma gm_get_Nil [simp, gomap_simps]: "gm_get [] k = None"
  by (simp add: gm_get_def)

lemma gm_get_Cons [simp, gomap_simps]: "gm_get ((k', v) # m) k = (if k' = k then Some v else gm_get m k)"
  by (simp add: gm_get_def)

lemma gm_get_put [simp, gomap_simps]: "gm_get (gm_put k v m) k' = (if k' = k then Some v else gm_get m k')"
  by (simp add: gm_get_def gm_put_def update_conv')

lemma gm_get_del [simp, gomap_simps]: "gm_get (gm_del k m) k' = (if k' = k then None else gm_get m k')"
  by (simp add: gm_get_def gm_del_def delete_conv')

lemma gm_has_put [simp, gomap_simps]: "gm_has (gm_put k v m) k' = (k' = k \<or> gm_has m k')"
  by (simp add: gm_has_def)

lemma gm_has_del [simp, gomap_simps]: "gm_has (gm_del k m) k' = (k' \<noteq> k \<and> gm_has m k')"
  by (simp add: gm_has_def)

lemma gm_has_keys: "gm_has m k \<longleftrightarrow> k \<in> set (gm_keys m)"
  by (simp add: gm_has_def gm_get_def gm_keys_def map_of_eq_None_iff)

lemma gm_has_Nil [simp, gomap_simps]: "\<not> gm_has [] k"
  by (simp add: gm_has_def)

lemma gm_get_SomeI: "gm_wf m \<Longrightarrow> (k, v) \<in> set m \<Longrightarrow> gm_get m k = Some v"
  by (simp add: gm_wf_def gm_get_def)

lemma gm_get_SomeD: "gm_get m k = Some v \<Longrightarrow> (k, v) \<in> set m"
  by (auto simp: gm_get_def dest: map_of_SomeD)

lemma gm_get_Some_iff: "gm_wf m \<Longrightarrow> gm_get m k = Some v \<longleftrightarrow> (k, v) \<in> set m"
  by (auto intro: gm_get_SomeI dest: gm_get_SomeD)

lemma gm_get_None_iff: "gm_get m k = None \<longleftrightarrow> k \<notin> fst ` set m"
  by (simp add: gm_get_def map_of_eq_None_iff)

lemma gm_put_set:
  assumes "gm_wf m"
  shows "set (gm_put k v m) = {(k', v'). if k' = k then v' = v else (k', v') \<in> set m}"
proof -
  have "(k', v') \<in> set (gm_put k v m) \<longleftrightarrow> (if k' = k then v' = v else (k', v') \<in> set m)" for k' v'
    using assms by (auto simp: gm_get_Some_iff [symmetric] split: if_splits)
  then show ?thesis by auto
qed

lemma gm_del_set: "gm_wf m \<Longrightarrow> set (gm_del k m) = {(k', v'). k' \<noteq> k \<and> (k', v') \<in> set m}"
  by (auto simp: gm_del_def AList.delete_eq)

lemma gm_del_length: "gm_wf m \<Longrightarrow> gm_has m k \<Longrightarrow> Suc (length (gm_del k m)) = length m"
proof (induction m)
  case (Cons x m)
  show ?case
  proof (cases "fst x = k")
    case True
    with Cons.prems have "k \<notin> fst ` set m" by (auto simp: gm_wf_def)
    then have "gm_del k m = m" by (simp add: gm_del_def AList.delete_id)
    with True show ?thesis by (cases x) (simp add: gm_del_def AList.delete_eq)
  next
    case False
    with Cons show ?thesis
      by (cases x) (auto simp: gm_wf_def gm_del_def AList.delete_eq gm_has_def gm_get_def)
  qed
qed simp

lemma gm_put_new: "\<not> gm_has m k \<Longrightarrow> gm_put k v m = m @ [(k, v)]"
  by (induction m) (auto simp: gm_put_def gm_has_def split: if_splits)

lemma gm_put_new_length [simp]: "\<not> gm_has m k \<Longrightarrow> length (gm_put k v m) = Suc (length m)"
  by (simp add: gm_put_new)

lemma gm_same_refl: "gm_wf m \<Longrightarrow> gm_same m m"
  by (simp add: gm_same_def)

lemma gm_same_sym: "gm_same m m' \<Longrightarrow> gm_same m' m"
  by (simp add: gm_same_def)

lemma gm_same_set: "gm_same m m' \<Longrightarrow> set m = set m'"
  by (auto simp: gm_same_def dest: mset_eq_setD)

lemma gm_same_get:
  assumes "gm_same m m'"
  shows "gm_get m k = gm_get m' k"
proof -
  have "gm_get m k = Some v \<longleftrightarrow> gm_get m' k = Some v" for v
    using assms gm_same_set [OF assms] by (simp add: gm_same_def gm_get_Some_iff)
  then show ?thesis by (metis option.exhaust)
qed

lemma gm_same_length: "gm_same m m' \<Longrightarrow> length m = length m'"
  by (auto simp: gm_same_def dest: mset_eq_length)

lemma gm_same_vals: "gm_same m m' \<Longrightarrow> mset (gm_vals m) = mset (gm_vals m')"
  by (simp add: gm_same_def gm_vals_def mset_map)

end
