(* ===== verification/Go_Strings.thy ===== *)
theory Go_Strings
  imports Go_Prelude
begin

text \<open>
  The functions of package \<open>strings\<close> the sources call, the decimal printing of
  \<open>strconv.Itoa\<close> / \<open>%d\<close>, and their laws. All work on bytes, as Go's do.
\<close>

section \<open>Prefixes, suffixes and substrings\<close>

definition HasPrefix :: "string \<Rightarrow> string \<Rightarrow> bool" where
  "HasPrefix s p = (take (length p) s = p)"

definition HasSuffix :: "string \<Rightarrow> string \<Rightarrow> bool" where
  "HasSuffix s p = (length p \<le> length s \<and> drop (length s - length p) s = p)"

definition TrimPrefix :: "string \<Rightarrow> string \<Rightarrow> string" where
  "TrimPrefix s p = (if HasPrefix s p then drop (length p) s else s)"

definition TrimSuffix :: "string \<Rightarrow> string \<Rightarrow> string" where
  "TrimSuffix s p = (if HasSuffix s p then take (length s - length p) s else s)"

fun Contains :: "string \<Rightarrow> string \<Rightarrow> bool" where
  "Contains [] sub = (sub = [])"
| "Contains (c # s) sub = (HasPrefix (c # s) sub \<or> Contains s sub)"

lemma HasPrefix_iff: "HasPrefix s p \<longleftrightarrow> (\<exists>t. s = p @ t)"
  unfolding HasPrefix_def by (metis append_eq_conv_conj append_take_drop_id)

lemma HasPrefix_prefix: "HasPrefix s p \<longleftrightarrow> prefix p s"
  by (simp add: HasPrefix_iff prefix_def)

lemma HasPrefix_append [simp, gostr_simps]: "HasPrefix (p @ t) p"
  by (simp add: HasPrefix_def)

lemma HasSuffix_iff: "HasSuffix s p \<longleftrightarrow> (\<exists>t. s = t @ p)"
  unfolding HasSuffix_def
proof
  assume "length p \<le> length s \<and> drop (length s - length p) s = p"
  then show "\<exists>t. s = t @ p" by (metis append_take_drop_id)
qed auto

lemma HasSuffix_append [simp, gostr_simps]: "HasSuffix (t @ p) p"
  by (simp add: HasSuffix_def)

lemma TrimPrefix_append [simp, gostr_simps]: "TrimPrefix (p @ t) p = t"
  by (simp add: TrimPrefix_def)

lemma TrimSuffix_append [simp, gostr_simps]: "TrimSuffix (t @ p) p = t"
  by (simp add: TrimSuffix_def)

lemma Contains_iff: "Contains s sub \<longleftrightarrow> (\<exists>a b. s = a @ sub @ b)"
proof (induction s)
  case (Cons c s)
  have "(\<exists>a b. c # s = a @ sub @ b) \<longleftrightarrow> (\<exists>b. c # s = sub @ b) \<or> (\<exists>a b. s = a @ sub @ b)"
    by (metis append_Cons append_Nil list.inject neq_Nil_conv)
  with Cons show ?case by (simp add: HasPrefix_iff)
qed simp

lemma Contains_sublist: "Contains s sub \<longleftrightarrow> sublist sub s"
  by (simp add: Contains_iff sublist_def)

section \<open>Splitting at a separator byte, joining, replacing\<close>

fun Split :: "string \<Rightarrow> char \<Rightarrow> string list" where
  "Split [] d = [[]]"
| "Split (c # s) d =
     (if c = d then [] # Split s d
      else (case Split s d of [] \<Rightarrow> [[c]] | w # ws \<Rightarrow> (c # w) # ws))"

fun Join :: "string list \<Rightarrow> string \<Rightarrow> string" where
  "Join [] sep = []"
| "Join [w] sep = w"
| "Join (w # v # ws) sep = w @ sep @ Join (v # ws) sep"

fun ReplaceAll :: "string \<Rightarrow> char \<Rightarrow> string \<Rightarrow> string" where
  "ReplaceAll [] old new = []"
| "ReplaceAll (c # s) old new = (if c = old then new else [c]) @ ReplaceAll s old new"

text \<open>\<open>strings.ReplaceAll\<close> with a two-byte pattern.\<close>

fun ReplaceAll2 :: "string \<Rightarrow> char \<Rightarrow> char \<Rightarrow> string \<Rightarrow> string" where
  "ReplaceAll2 (a # b # s) x y new =
     (if a = x \<and> b = y then new @ ReplaceAll2 s x y new else a # ReplaceAll2 (b # s) x y new)"
| "ReplaceAll2 s x y new = s"

lemma Split_not_Nil [simp]: "Split s d \<noteq> []"
  by (cases s) (auto split: list.splits)

lemma Join_Cons: "ws \<noteq> [] \<Longrightarrow> Join (w # ws) sep = w @ sep @ Join ws sep"
  by (cases ws) auto

lemma Join_Split [simp]: "Join (Split s d) [d] = s"
proof (induction s)
  case (Cons c s)
  obtain w ws where eq: "Split s d = w # ws" by (meson Split_not_Nil list.exhaust)
  show ?case
  proof (cases ws)
    case Nil
    with Cons eq show ?thesis by simp
  next
    case (Cons w' ws')
    with Cons.IH eq show ?thesis by simp
  qed
qed simp

lemma Split_no_sep: "w \<in> set (Split s d) \<Longrightarrow> d \<notin> set w"
proof (induction s arbitrary: w)
  case (Cons c s)
  obtain v vs where "Split s d = v # vs" by (meson Split_not_Nil list.exhaust)
  with Cons show ?case by (auto split: if_splits)
qed simp

lemma Split_append_sep: "d \<notin> set a \<Longrightarrow> Split (a @ d # b) d = a # Split b d"
  by (induction a) auto

lemma Split_no_occurrence: "d \<notin> set a \<Longrightarrow> Split a d = [a]"
  by (induction a) auto

lemma Split_Join:
  assumes "ws \<noteq> []" and "\<forall>w \<in> set ws. d \<notin> set w"
  shows "Split (Join ws [d]) d = ws"
  using assms
proof (induction ws)
  case (Cons w ws)
  then show ?case
    by (cases ws) (simp_all add: Split_no_occurrence Split_append_sep)
qed simp

lemma ReplaceAll_id: "old \<notin> set s \<Longrightarrow> ReplaceAll s old new = s"
  by (induction s) auto

lemma ReplaceAll_set: "set (ReplaceAll s old new) \<subseteq> (set s - {old}) \<union> set new"
  by (induction s) auto

section \<open>White space\<close>

text \<open>
  \<open>unicode.IsSpace\<close> holds of six ASCII bytes and of the runes U+0085, U+00A0, U+1680,
  U+2000 to U+200A, U+2028, U+2029, U+202F, U+205F and U+3000; these are their UTF-8 encodings.
  \<open>strings.TrimSpace\<close> strips them from both ends.
\<close>

definition bytes :: "nat list \<Rightarrow> string" where
  "bytes ns = map char_of ns"

definition space_runes :: "string list" where
  "space_runes =
     map (\<lambda>n. bytes [n]) [9, 10, 11, 12, 13, 32] @
     [bytes [194, 133], bytes [194, 160], bytes [225, 154, 128]] @
     map (\<lambda>n. bytes [226, 128, n]) ([128..<139] @ [168, 169, 175]) @
     [bytes [226, 129, 159], bytes [227, 128, 128]]"

lemma space_runes_eq:
  "space_runes =
     [[CHR 0x09], [CHR 0x0A], [CHR 0x0B], [CHR 0x0C], [CHR 0x0D], [CHR 0x20], [CHR 0xC2, CHR 0x85], [CHR
     0xC2, CHR 0xA0], [CHR 0xE1, CHR 0x9A, CHR 0x80], [CHR 0xE2, CHR 0x80, CHR 0x80], [CHR 0xE2, CHR
     0x80, CHR 0x81], [CHR 0xE2, CHR 0x80, CHR 0x82], [CHR 0xE2, CHR 0x80, CHR 0x83], [CHR 0xE2, CHR
     0x80, CHR 0x84], [CHR 0xE2, CHR 0x80, CHR 0x85], [CHR 0xE2, CHR 0x80, CHR 0x86], [CHR 0xE2, CHR
     0x80, CHR 0x87], [CHR 0xE2, CHR 0x80, CHR 0x88], [CHR 0xE2, CHR 0x80, CHR 0x89], [CHR 0xE2, CHR
     0x80, CHR 0x8A], [CHR 0xE2, CHR 0x80, CHR 0xA8], [CHR 0xE2, CHR 0x80, CHR 0xA9], [CHR 0xE2, CHR
     0x80, CHR 0xAF], [CHR 0xE2, CHR 0x81, CHR 0x9F], [CHR 0xE3, CHR 0x80, CHR 0x80]]"
  by code_simp

lemma space_runes_hd: "r \<in> set space_runes \<Longrightarrow> r \<noteq> [] \<and> \<not> (33 \<le> (of_char (hd r) :: nat) \<and> (of_char (hd r) :: nat) < 128)"
  unfolding space_runes_eq by (simp only: list.set insert_iff empty_iff) (elim disjE, simp_all)

lemma space_runes_last: "r \<in> set space_runes \<Longrightarrow> \<not> (33 \<le> (of_char (last r) :: nat) \<and> (of_char (last r) :: nat) < 128)"
  unfolding space_runes_eq by (simp only: list.set insert_iff empty_iff) (elim disjE, simp_all)

definition strip_space_rune :: "string \<Rightarrow> string option" where
  "strip_space_rune s = map_option (\<lambda>r. drop (length r) s) (find (HasPrefix s) space_runes)"

definition strip_space_rune_end :: "string \<Rightarrow> string option" where
  "strip_space_rune_end s =
     map_option (\<lambda>r. take (length s - length r) s) (find (HasSuffix s) space_runes)"

lemma space_runes_not_Nil: "[] \<notin> set space_runes"
  by (auto simp: space_runes_def bytes_def)

lemma strip_space_rune_length: "strip_space_rune s = Some t \<Longrightarrow> length t < length s"
  using space_runes_not_Nil
  by (auto simp: strip_space_rune_def find_Some_iff HasPrefix_iff) (metis nth_mem)

lemma strip_space_rune_end_length: "strip_space_rune_end s = Some t \<Longrightarrow> length t < length s"
  using space_runes_not_Nil
  by (auto simp: strip_space_rune_end_def find_Some_iff HasSuffix_iff) (metis nth_mem)

function TrimLeftSpace :: "string \<Rightarrow> string" where
  "TrimLeftSpace s = (case strip_space_rune s of None \<Rightarrow> s | Some t \<Rightarrow> TrimLeftSpace t)"
  by pat_completeness auto
termination
  by (relation "measure length") (auto dest: strip_space_rune_length)

function TrimRightSpace :: "string \<Rightarrow> string" where
  "TrimRightSpace s = (case strip_space_rune_end s of None \<Rightarrow> s | Some t \<Rightarrow> TrimRightSpace t)"
  by pat_completeness auto
termination
  by (relation "measure length") (auto dest: strip_space_rune_end_length)

declare TrimLeftSpace.simps [simp del] TrimRightSpace.simps [simp del]

definition TrimSpace :: "string \<Rightarrow> string" where
  "TrimSpace s = TrimRightSpace (TrimLeftSpace s)"

lemma TrimLeftSpace_done: "strip_space_rune (TrimLeftSpace s) = None"
proof (induction s rule: TrimLeftSpace.induct)
  case (1 s)
  show ?case
    by (cases "strip_space_rune s") (simp_all add: TrimLeftSpace.simps [of s] 1)
qed

lemma TrimRightSpace_done: "strip_space_rune_end (TrimRightSpace s) = None"
proof (induction s rule: TrimRightSpace.induct)
  case (1 s)
  show ?case
    by (cases "strip_space_rune_end s") (simp_all add: TrimRightSpace.simps [of s] 1)
qed

lemma TrimLeftSpace_suffix: "\<exists>a. s = a @ TrimLeftSpace s"
proof (induction s rule: TrimLeftSpace.induct)
  case (1 s)
  show ?case
  proof (cases "strip_space_rune s")
    case (Some t)
    then obtain r where "s = r @ t"
      by (auto simp: strip_space_rune_def find_Some_iff HasPrefix_iff)
    with 1 [OF Some] Some show ?thesis
      by (metis TrimLeftSpace.simps append_assoc option.simps(5))
  qed (simp add: TrimLeftSpace.simps [of s])
qed

lemma TrimRightSpace_prefix: "\<exists>b. s = TrimRightSpace s @ b"
proof (induction s rule: TrimRightSpace.induct)
  case (1 s)
  show ?case
  proof (cases "strip_space_rune_end s")
    case (Some t)
    then obtain r where "s = t @ r"
      by (auto simp: strip_space_rune_end_def find_Some_iff HasSuffix_iff)
    with 1 [OF Some] Some show ?thesis
      by (metis TrimRightSpace.simps append_assoc option.simps(5))
  qed (simp add: TrimRightSpace.simps [of s])
qed

text \<open>A string that starts and ends with a visible ASCII character is not trimmed.\<close>

definition visible :: "char \<Rightarrow> bool" where
  "visible c = (33 \<le> (of_char c :: nat) \<and> (of_char c :: nat) < 128)"

lemma strip_visible: "visible c \<Longrightarrow> strip_space_rune (c # s) = None"
  using space_runes_hd
  by (fastforce simp: strip_space_rune_def find_None_iff HasPrefix_iff visible_def Cons_eq_append_conv)

lemma strip_visible_end: "visible c \<Longrightarrow> strip_space_rune_end (s @ [c]) = None"
proof -
  assume c: "visible c"
  have "\<not> HasSuffix (s @ [c]) r" if "r \<in> set space_runes" for r
  proof
    assume "HasSuffix (s @ [c]) r"
    then obtain t where "s @ [c] = t @ r" by (auto simp: HasSuffix_iff)
    moreover from space_runes_hd [OF that] have "r \<noteq> []" by simp
    ultimately have "last r = c" by (metis last_appendR last_snoc)
    with space_runes_last [OF that] c show False by (simp add: visible_def)
  qed
  then show ?thesis by (simp add: strip_space_rune_end_def find_None_iff)
qed

lemma TrimLeftSpace_visible: "visible c \<Longrightarrow> TrimLeftSpace (c # s) = c # s"
  by (subst TrimLeftSpace.simps) (simp add: strip_visible)

lemma TrimRightSpace_visible: "visible (last s) \<Longrightarrow> s \<noteq> [] \<Longrightarrow> TrimRightSpace s = s"
  by (subst TrimRightSpace.simps) (metis append_butlast_last_id option.simps(4) strip_visible_end)

lemma TrimSpace_visible: "s \<noteq> [] \<Longrightarrow> visible (hd s) \<Longrightarrow> visible (last s) \<Longrightarrow> TrimSpace s = s"
  using TrimRightSpace_visible [of s] by (cases s) (simp_all add: TrimSpace_def TrimLeftSpace_visible del: last.simps)

lemma TrimLeftSpace_Cons:
  assumes "c \<in> {CHR 0x09, CHR 0x0A, CHR 0x0B, CHR 0x0C, CHR 0x0D, CHR 0x20}"
  shows "TrimLeftSpace (c # s) = TrimLeftSpace s"
proof -
  have "strip_space_rune (c # s) = Some s"
    using assms by (elim insertE emptyE) (simp_all add: strip_space_rune_def space_runes_eq HasPrefix_def)
  then show ?thesis by (subst TrimLeftSpace.simps) simp
qed

lemma TrimSpace_Nil [simp]: "TrimSpace [] = []"
  by (simp add: TrimSpace_def TrimLeftSpace.simps TrimRightSpace.simps strip_space_rune_def
      strip_space_rune_end_def HasPrefix_def HasSuffix_def find_None_iff [THEN iffD2] space_runes_eq)

section \<open>Decimal numbers\<close>

definition digit :: "nat \<Rightarrow> char" where
  "digit d = char_of (48 + d)"

definition is_digit :: "char \<Rightarrow> bool" where
  "is_digit c = (48 \<le> (of_char c :: nat) \<and> (of_char c :: nat) \<le> 57)"

definition digit_val :: "char \<Rightarrow> nat" where
  "digit_val c = of_char c - 48"

fun show_nat :: "nat \<Rightarrow> string" where
  "show_nat n = (if n < 10 then [digit n] else show_nat (n div 10) @ [digit (n mod 10)])"

declare show_nat.simps [simp del]

definition show_int :: "int \<Rightarrow> string" where
  "show_int i = (if i < 0 then CHR ''-'' # show_nat (nat (- i)) else show_nat (nat i))"

definition read_digits :: "string \<Rightarrow> nat" where
  "read_digits s = foldl (\<lambda>n c. 10 * n + digit_val c) 0 s"

lemma is_digit_digit [simp]: "d < 10 \<Longrightarrow> is_digit (digit d)"
  by (simp add: is_digit_def digit_def)

lemma digit_val_digit [simp]: "d < 10 \<Longrightarrow> digit_val (digit d) = d"
  by (simp add: digit_val_def digit_def)

lemma show_nat_digits: "c \<in> set (show_nat n) \<Longrightarrow> is_digit c"
proof (induction n rule: show_nat.induct)
  case (1 n)
  then show ?case by (cases "n < 10") (auto simp: show_nat.simps [of n])
qed

lemma show_nat_not_Nil [simp]: "show_nat n \<noteq> []"
  by (subst show_nat.simps) simp

lemma read_digits_snoc: "read_digits (s @ [c]) = 10 * read_digits s + digit_val c"
  by (simp add: read_digits_def)

lemma read_show_nat [simp]: "read_digits (show_nat n) = n"
proof (induction n rule: show_nat.induct)
  case (1 n)
  then show ?case
    by (cases "n < 10") (simp_all add: show_nat.simps [of n] read_digits_snoc, simp_all add: read_digits_def)
qed

lemma show_nat_inject [simp]: "show_nat m = show_nat n \<longleftrightarrow> m = n"
  by (metis read_show_nat)

lemma show_nat_no_minus: "CHR ''-'' \<notin> set (show_nat n)"
  by (auto dest!: show_nat_digits simp: is_digit_def)

lemma show_nat_neq_minus: "show_nat n \<noteq> CHR ''-'' # s"
  using show_nat_no_minus [of n] by (metis list.set_intros(1))

lemma show_int_inject: "show_int i = show_int j \<longleftrightarrow> i = j"
  by (auto simp: show_int_def show_nat_neq_minus show_nat_neq_minus [symmetric])

end
