(* ===== verification/Go_Value.thy ===== *)
theory Go_Value
  imports
    Complex_Main
    "HOL-Library.Word"
    Go_Strings
begin

text \<open>
  Dynamic Go values: what an \<open>any\<close> (\<open>interface{}\<close>) holds in the sources, \<open>float64\<close> and
  \<open>int64\<close>, and the calls of \<open>encoding/json\<close>, \<open>fmt\<close>, \<open>regexp\<close> and \<open>strings\<close> that act on them.

  A \<open>float64\<close> is an exact rational, a negative zero, an infinity or NaN; comparisons are
  IEEE's. What depends on rounding or on shortest-digits printing (\<open>+ * /\<close>, the printed form
  of a float), on the Unicode case tables (\<open>strings.ToLower\<close>), on the regular expression engine
  and on the JSON reader is a field of the record \<open>stdlib\<close>: every definition that needs such a
  call takes that record, so each theorem holds for whatever these functions compute.
\<close>

section \<open>float64\<close>

datatype gofloat = FNaN | FNegInf | FPosInf | FNegZero | FFin rat

fun f_key :: "gofloat \<Rightarrow> (int \<times> rat) option" where
  "f_key FNaN = None"
| "f_key FNegInf = Some (-1, 0)"
| "f_key FPosInf = Some (1, 0)"
| "f_key FNegZero = Some (0, 0)"
| "f_key (FFin q) = Some (0, q)"

definition f_lt :: "gofloat \<Rightarrow> gofloat \<Rightarrow> bool" where
  "f_lt a b = (case (f_key a, f_key b) of
     (Some (i, p), Some (j, q)) \<Rightarrow> i < j \<or> (i = j \<and> p < q)
   | _ \<Rightarrow> False)"

definition f_eq :: "gofloat \<Rightarrow> gofloat \<Rightarrow> bool" where
  "f_eq a b = (f_key a \<noteq> None \<and> f_key a = f_key b)"

lemma f_lt_Fin [simp]: "f_lt (FFin p) (FFin q) \<longleftrightarrow> p < q"
  by (simp add: f_lt_def)

lemma f_eq_Fin [simp]: "f_eq (FFin p) (FFin q) \<longleftrightarrow> p = q"
  by (simp add: f_eq_def)

lemma f_lt_NaN [simp]: "\<not> f_lt FNaN b" "\<not> f_lt a FNaN"
  by (auto simp: f_lt_def split: option.splits)

text \<open>Truncation towards zero, as the conversion \<open>int64(f)\<close> does it inside the range of \<open>int64\<close>.\<close>

definition rat_trunc :: "rat \<Rightarrow> int" where
  "rat_trunc q = (if q < 0 then \<lceil>q\<rceil> else \<lfloor>q\<rfloor>)"

section \<open>Values of type any\<close>

datatype goval =
    GNil
  | GBool bool
  | GInt "64 word"
  | GFloat gofloat
  | GStr string
  | GList "goval list"
  | GMap "(string \<times> goval) list"

text \<open>The verb \<open>%T\<close>.\<close>

fun typeName :: "goval \<Rightarrow> string" where
  "typeName GNil = ''<nil>''"
| "typeName (GBool b) = ''bool''"
| "typeName (GInt w) = ''int64''"
| "typeName (GFloat f) = ''float64''"
| "typeName (GStr s) = ''string''"
| "typeName (GList vs) = ''[]interface {}''"
| "typeName (GMap m) = ''map[string]interface {}''"

text \<open>
  The library functions the model is parametric in. \<open>int64_oor\<close> is \<open>float64(int64(f))\<close> for a
  float outside the range of \<open>int64\<close>, which the Go specification leaves to the implementation;
  \<open>regexp_compile\<close> is \<open>regexp.Compile\<close> with the \<open>MatchString\<close> of the compiled expression.
\<close>

record stdlib =
  json_float :: "gofloat \<Rightarrow> string"
  fmt_float :: "gofloat \<Rightarrow> string"
  int64_oor :: "gofloat \<Rightarrow> gofloat"
  float_add :: "gofloat \<Rightarrow> gofloat \<Rightarrow> gofloat"
  float_mul :: "gofloat \<Rightarrow> gofloat \<Rightarrow> gofloat"
  float_div :: "gofloat \<Rightarrow> gofloat \<Rightarrow> gofloat"
  to_lower :: "string \<Rightarrow> string"
  regexp_compile :: "string \<Rightarrow> string + (string \<Rightarrow> bool)"
  json_unmarshal :: "string \<Rightarrow> string + goval"

definition float_of_int64 :: "stdlib \<Rightarrow> gofloat \<Rightarrow> gofloat" where
  "float_of_int64 L f = (case f of
     FFin q \<Rightarrow> if - (2 ^ 63) \<le> rat_trunc q \<and> rat_trunc q < 2 ^ 63 then FFin (of_int (rat_trunc q)) else int64_oor L f
   | FNegZero \<Rightarrow> FFin 0
   | _ \<Rightarrow> int64_oor L f)"

definition float_neg :: "gofloat \<Rightarrow> gofloat" where
  "float_neg f = (case f of
     FNaN \<Rightarrow> FNaN | FNegInf \<Rightarrow> FPosInf | FPosInf \<Rightarrow> FNegInf | FNegZero \<Rightarrow> FFin 0
   | FFin q \<Rightarrow> if q = 0 then FNegZero else FFin (- q))"

section \<open>encoding/json: Marshal\<close>

text \<open>
  The length of the well-formed UTF-8 sequence a byte string starts with, 0 when it starts
  with none (\<open>utf8.DecodeRune\<close> then reports a one-byte error rune).
\<close>

definition cont :: "nat \<Rightarrow> nat \<Rightarrow> string \<Rightarrow> nat \<Rightarrow> bool" where
  "cont lo hi s i = (i < length s \<and> lo \<le> (of_char (s ! i) :: nat) \<and> (of_char (s ! i) :: nat) \<le> hi)"

definition utf8_len :: "string \<Rightarrow> nat" where
  "utf8_len s = (case s of [] \<Rightarrow> 0 | c # _ \<Rightarrow>
     (let b = of_char c :: nat in
      if b < 128 then 1
      else if 194 \<le> b \<and> b \<le> 223 then (if cont 128 191 s 1 then 2 else 0)
      else if 224 \<le> b \<and> b \<le> 239 then
        (if cont (if b = 224 then 160 else 128) (if b = 237 then 159 else 191) s 1 \<and> cont 128 191 s 2
         then 3 else 0)
      else if 240 \<le> b \<and> b \<le> 244 then
        (if cont (if b = 240 then 144 else 128) (if b = 244 then 143 else 191) s 1 \<and> cont 128 191 s 2 \<and>
            cont 128 191 s 3
         then 4 else 0)
      else 0))"

definition hex :: "nat \<Rightarrow> char" where
  "hex d = (if d < 10 then digit d else char_of (87 + d))"

definition json_ascii :: "char \<Rightarrow> string" where
  "json_ascii c =
     (let b = of_char c :: nat; esc = CHR 0x5C in
      if b = 34 \<or> b = 92 then [esc, c]
      else if b = 8 then [esc, CHR ''b'']
      else if b = 12 then [esc, CHR ''f'']
      else if b = 10 then [esc, CHR ''n'']
      else if b = 13 then [esc, CHR ''r'']
      else if b = 9 then [esc, CHR ''t'']
      else if b < 32 \<or> b = 60 \<or> b = 62 \<or> b = 38
        then [esc, CHR ''u'', CHR ''0'', CHR ''0'', hex (b div 16), hex (b mod 16)]
      else [c])"

function json_chars :: "string \<Rightarrow> string" where
  "json_chars s = (case s of [] \<Rightarrow> [] | c # t \<Rightarrow>
     (if (of_char c :: nat) < 128 then json_ascii c @ json_chars t
      else if utf8_len s = 0 then CHR 0x5C # ''ufffd'' @ json_chars t
      else if take 3 s = bytes [226, 128, 168] then CHR 0x5C # ''u2028'' @ json_chars (drop 3 s)
      else if take 3 s = bytes [226, 128, 169] then CHR 0x5C # ''u2029'' @ json_chars (drop 3 s)
      else take (utf8_len s) s @ json_chars (drop (utf8_len s) s)))"
  by pat_completeness auto
termination
  by (relation "measure length") auto

declare json_chars.simps [simp del]

definition json_string :: "string \<Rightarrow> string" where
  "json_string s = CHR 0x22 # json_chars s @ [CHR 0x22]"

fun seq_opt :: "'a option list \<Rightarrow> 'a list option" where
  "seq_opt [] = Some []"
| "seq_opt (None # xs) = None"
| "seq_opt (Some x # xs) = map_option (Cons x) (seq_opt xs)"

definition json_object :: "(string \<times> string) list \<Rightarrow> string" where
  "json_object kvs =
     ''{'' @ Join (map (\<lambda>(k, s). json_string k @ '':'' @ s) (sort_key fst kvs)) '','' @ ''}''"

fun json_marshal :: "stdlib \<Rightarrow> goval \<Rightarrow> string option" where
  "json_marshal L GNil = Some ''null''"
| "json_marshal L (GBool b) = Some (if b then ''true'' else ''false'')"
| "json_marshal L (GInt w) = Some (show_int (sint w))"
| "json_marshal L (GFloat f) =
     (if f = FNaN \<or> f = FNegInf \<or> f = FPosInf then None else Some (json_float L f))"
| "json_marshal L (GStr s) = Some (json_string s)"
| "json_marshal L (GList vs) =
     map_option (\<lambda>ss. ''['' @ Join ss '','' @ '']'') (seq_opt (map (json_marshal L) vs))"
| "json_marshal L (GMap m) =
     map_option json_object (seq_opt (map (\<lambda>(k, v). map_option (Pair k) (json_marshal L v)) m))"

text \<open>The verb \<open>%v\<close>; maps print with their keys sorted.\<close>

fun fmt_v :: "stdlib \<Rightarrow> goval \<Rightarrow> string" where
  "fmt_v L GNil = ''<nil>''"
| "fmt_v L (GBool b) = (if b then ''true'' else ''false'')"
| "fmt_v L (GInt w) = show_int (sint w)"
| "fmt_v L (GFloat f) = fmt_float L f"
| "fmt_v L (GStr s) = s"
| "fmt_v L (GList vs) = ''['' @ Join (map (fmt_v L) vs) '' '' @ '']''"
| "fmt_v L (GMap m) =
     ''map['' @ Join (map (\<lambda>(k, s). k @ '':'' @ s) (sort_key fst (map (\<lambda>(k, v). (k, fmt_v L v)) m))) '' '' @ '']''"

section \<open>Laws\<close>

lemma seq_opt_eq_Some: "seq_opt xs = Some ys \<longleftrightarrow> xs = map Some ys"
proof (induction xs arbitrary: ys)
  case (Cons x xs)
  then show ?case by (cases x; cases ys) auto
qed auto

lemma seq_opt_None: "seq_opt xs = None \<longleftrightarrow> None \<in> set xs"
proof (induction xs)
  case (Cons x xs)
  then show ?case by (cases x) auto
qed simp

text \<open>Sorting by a key that is distinct forgets the order of the list.\<close>

lemma filter_single:
  assumes "distinct (map f xs)" and "k \<in> set xs"
  shows "filter (\<lambda>x. f k = f x) xs = [k]"
  using assms
proof (induction xs)
  case (Cons x xs)
  show ?case
  proof (cases "x = k")
    case True
    with Cons.prems(1) have "filter (\<lambda>y. f k = f y) xs = []"
      by (auto simp: filter_empty_conv)
    with True show ?thesis by simp
  next
    case False
    with Cons show ?thesis by (auto simp: image_iff)
  qed
qed simp

lemma sort_key_unique:
  assumes "mset xs = mset ys" and "distinct (map f xs)"
  shows "sort_key f xs = sort_key f ys"
proof (rule properties_for_sort_key)
  show "mset (sort_key f ys) = mset xs" using assms(1) by simp
next
  fix k
  assume "k \<in> set (sort_key f ys)"
  then have k: "k \<in> set xs" using assms(1) by (metis mset_eq_setD set_sort)
  have "mset (filter (\<lambda>x. f k = f x) (sort_key f ys)) = mset (filter (\<lambda>x. f k = f x) xs)"
    using assms(1) by (simp add: mset_filter)
  then show "filter (\<lambda>x. f k = f x) (sort_key f ys) = filter (\<lambda>x. f k = f x) xs"
    unfolding filter_single [OF assms(2) k] by (metis mset_single_iff mset.simps)
qed simp

lemma json_object_same:
  assumes "mset kvs = mset kvs'" and "distinct (map fst kvs)"
  shows "json_object kvs = json_object kvs'"
  by (simp add: json_object_def sort_key_unique [OF assms])

lemma mset_seq_opt: "mset xs = mset ys \<Longrightarrow> rel_option (\<lambda>as bs. mset as = mset bs) (seq_opt xs) (seq_opt ys)"
proof (cases "seq_opt xs")
  case None
  assume eq: "mset xs = mset ys"
  with None have "seq_opt ys = None" by (metis seq_opt_None mset_eq_setD)
  with None show ?thesis by simp
next
  case (Some as)
  assume eq: "mset xs = mset ys"
  from Some have xs: "xs = map Some as" by (simp add: seq_opt_eq_Some)
  with eq have "None \<notin> set ys" by (metis mset_eq_setD ex_map_conv option.distinct(1))
  then obtain bs where bs: "seq_opt ys = Some bs" by (cases "seq_opt ys") (auto simp: seq_opt_None)
  then have "ys = map Some bs" by (simp add: seq_opt_eq_Some)
  with xs eq have "image_mset the (image_mset Some (mset as)) = image_mset the (image_mset Some (mset bs))"
    by simp
  then have "mset as = mset bs" by (simp add: image_mset.compositionality comp_def)
  with Some bs show ?thesis by simp
qed

text \<open>Marshalling an object does not depend on the order in which its map is visited.\<close>

lemma json_marshal_same:
  assumes "gm_same m m'"
  shows "json_marshal L (GMap m) = json_marshal L (GMap m')"
proof -
  let ?g = "\<lambda>(k, v). map_option (Pair k) (json_marshal L v)"
  have eq: "mset (map ?g m) = mset (map ?g m')"
    using assms by (simp add: gm_same_def)
  have keys: "distinct (map fst kvs)" if "seq_opt (map ?g m) = Some kvs" for kvs
  proof -
    from that have "map ?g m = map Some kvs" by (simp add: seq_opt_eq_Some)
    then have "map fst m = map fst kvs"
      by (induction m arbitrary: kvs) (auto simp: Cons_eq_map_conv)
    with assms show ?thesis by (simp add: gm_same_def gm_wf_def)
  qed
  from mset_seq_opt [OF eq] show ?thesis
    by (cases "seq_opt (map ?g m)"; cases "seq_opt (map ?g m')")
      (auto simp del: mset_map dest!: json_object_same [OF _ keys])
qed

section \<open>A concrete library for evaluation\<close>

text \<open>
  One choice of the library functions, enough to run the model on examples: floats print as their
  integral part, arithmetic is exact, patterns are literal substrings and the JSON reader knows
  the empty object only. No theorem but the concrete examples uses it.
\<close>

definition float_int :: "gofloat \<Rightarrow> int" where
  "float_int f = (case f of FFin q \<Rightarrow> rat_trunc q | _ \<Rightarrow> 0)"

definition plain_lib :: stdlib where
  "plain_lib = \<lparr>json_float = \<lambda>f. show_int (float_int f), fmt_float = \<lambda>f. show_int (float_int f),
     int64_oor = \<lambda>f. FFin 0,
     float_add = \<lambda>a b. case (a, b) of (FFin p, FFin q) \<Rightarrow> FFin (p + q) | _ \<Rightarrow> FNaN,
     float_mul = \<lambda>a b. case (a, b) of (FFin p, FFin q) \<Rightarrow> FFin (p * q) | _ \<Rightarrow> FNaN,
     float_div = \<lambda>a b. case (a, b) of (FFin p, FFin q) \<Rightarrow> FFin (p / q) | _ \<Rightarrow> FNaN,
     to_lower = \<lambda>s. s, regexp_compile = \<lambda>r. Inr (\<lambda>s. Contains s r),
     json_unmarshal = \<lambda>s. if s = ''{}'' then Inr (GMap []) else Inl ''unexpected input''\<rparr>"

end
