(* ===== verification/AI_Types.thy ===== *)
theory AI_Types
  imports Go_Value
begin

text \<open>
  The shared data types of \<open>ai/types\<close>: JSON Schema, messages and their content blocks,
  requests and responses of a model call, and the operations of \<open>content.go\<close>.
\<close>

section \<open>JSON Schema (types.go)\<close>

text \<open>
  The Go struct \<open>JSONSchema\<close> is split in two: its non-recursive fields are the record
  \<open>schema_base\<close>, and the fields that hold schemas are arguments of the datatype. A \<open>*JSONSchema\<close>
  is an \<open>option\<close>, wherever it stands (a map value or a slice element may be \<open>nil\<close> too); a nil
  \<open>Properties\<close> map is \<open>None\<close>. A schema is a finite tree, as one read from JSON or YAML is.
\<close>

record schema_base =
  sType :: string
  sRequired :: "string list"
  sDescription :: string
  sTitle :: string
  sDefault :: goval
  sExamples :: "goval list"
  sMinLength :: "int option"
  sMaxLength :: "int option"
  sPattern :: string
  sMinimum :: "gofloat option"
  sMaximum :: "gofloat option"
  sEnum :: "goval list"
  sAdditionalProperties :: "bool option"
  sConst :: "goval option"
  sSchema :: string
  sRequiresEvidence :: "string list"

datatype JSONSchema = JSONSchema
  (base: schema_base)
  (Properties: "(string \<times> JSONSchema option) list option")
  (Items: "JSONSchema option")
  (AnyOf: "JSONSchema option list")
  (OneOf: "JSONSchema option list")
  (AllOf: "JSONSchema option list")
  (Defs: "(string \<times> JSONSchema option) list")
  (PrefixItems: "JSONSchema option list")
  (IfS: "JSONSchema option")
  (ThenS: "JSONSchema option")
  (ElseS: "JSONSchema option")

definition empty_base :: schema_base where
  "empty_base = \<lparr>sType = [], sRequired = [], sDescription = [], sTitle = [], sDefault = GNil,
     sExamples = [], sMinLength = None, sMaxLength = None, sPattern = [], sMinimum = None,
     sMaximum = None, sEnum = [], sAdditionalProperties = None, sConst = None, sSchema = [],
     sRequiresEvidence = []\<rparr>"

text \<open>A schema with scalar constraints only, and one with properties.\<close>

definition scalar_schema :: "schema_base \<Rightarrow> JSONSchema" where
  "scalar_schema b = JSONSchema b None None [] [] [] [] [] None None None"

definition object_schema :: "schema_base \<Rightarrow> (string \<times> JSONSchema option) list \<Rightarrow> JSONSchema" where
  "object_schema b ps = JSONSchema b (Some ps) None [] [] [] [] [] None None None"

definition props :: "JSONSchema \<Rightarrow> (string \<times> JSONSchema option) list" where
  "props s = (case Properties s of None \<Rightarrow> [] | Some ps \<Rightarrow> ps)"

text \<open>The schemas a validator may descend into.\<close>

definition subs :: "JSONSchema \<Rightarrow> JSONSchema option set" where
  "subs s = snd ` set (props s) \<union> {Items s, IfS s, ThenS s, ElseS s} \<union> set (AnyOf s) \<union>
     set (OneOf s) \<union> set (AllOf s) \<union> set (PrefixItems s)"

definition schema_depth :: "JSONSchema option \<Rightarrow> nat" where
  "schema_depth t = (case t of None \<Rightarrow> 0 | Some s \<Rightarrow> Suc (size s))"

lemma depth_option: "schema_depth t \<le> size_option size t"
  by (cases t) (simp_all add: schema_depth_def)

lemma depth_list: "t \<in> set ts \<Longrightarrow> schema_depth t \<le> size_list (size_option size) ts"
  using depth_option [of t] by (induction ts) auto

lemma depth_props:
  "(k, t) \<in> set ps \<Longrightarrow> schema_depth t \<le> size_list (size_prod (\<lambda>x. 0) (size_option size)) ps"
  using depth_option [of t] by (induction ps) auto

lemma subs_smaller:
  assumes "t \<in> subs s"
  shows "schema_depth t < schema_depth (Some s)"
proof (cases s)
  case (JSONSchema b ps it an on al ds pre i th el)
  from assms JSONSchema consider
    (keyed) k ps' where "ps = Some ps'" "(k, t) \<in> set ps'"
  | (one) "t = it \<or> t = i \<or> t = th \<or> t = el"
  | (many) "t \<in> set an \<or> t \<in> set on \<or> t \<in> set al \<or> t \<in> set pre"
    by (cases ps) (auto simp: subs_def props_def)
  then have "schema_depth t < Suc (size s)"
  proof cases
    case keyed
    with depth_props [OF keyed(2)] JSONSchema show ?thesis by simp
  next
    case one
    with depth_option [of t] JSONSchema show ?thesis by auto
  next
    case many
    with JSONSchema show ?thesis by (auto dest: depth_list)
  qed
  then show ?thesis by (simp add: schema_depth_def [of "Some s"])
qed

section \<open>Messages and content blocks (types.go, content.go)\<close>

record ContentBlock =
  cbType :: string
  cbText :: string
  cbImageURL :: string
  cbBase64 :: string
  cbMedia :: string

record Message =
  msgRole :: string
  msgContents :: "ContentBlock list"
  msgName :: string
  msgExecutionID :: string

definition NewTextBlock :: "string \<Rightarrow> ContentBlock" where
  "NewTextBlock text = \<lparr>cbType = ''text'', cbText = text, cbImageURL = [], cbBase64 = [], cbMedia = []\<rparr>"

definition NewImageBlock :: "string \<Rightarrow> ContentBlock" where
  "NewImageBlock imageURL =
     \<lparr>cbType = ''image'', cbText = [], cbImageURL = imageURL, cbBase64 = [], cbMedia = []\<rparr>"

definition NewImageBlockBase64 :: "string \<Rightarrow> string \<Rightarrow> ContentBlock" where
  "NewImageBlockBase64 mediaType base64Data =
     \<lparr>cbType = ''image'', cbText = [], cbImageURL = [], cbBase64 = base64Data, cbMedia = mediaType\<rparr>"

definition ImageRef :: "ContentBlock \<Rightarrow> string" where
  "ImageRef c =
     (if cbBase64 c \<noteq> [] then
        (let media = (if cbMedia c = [] then ''image/png'' else cbMedia c)
         in ''data:'' @ media @ '';base64,'' @ cbBase64 c)
      else cbImageURL c)"

definition NewTextMessage :: "string \<Rightarrow> string \<Rightarrow> Message" where
  "NewTextMessage role text =
     \<lparr>msgRole = role, msgContents = [NewTextBlock text], msgName = [], msgExecutionID = []\<rparr>"

definition flatten_block :: "ContentBlock \<Rightarrow> string" where
  "flatten_block c =
     (if cbType c = ''text'' then cbText c
      else if cbType c = ''image'' then
        (if cbImageURL c \<noteq> [] then ''[Image: '' @ cbImageURL c @ '']''
         else ''[Image: base64 '' @ cbMedia c @ '' ('' @ show_nat (length (cbBase64 c)) @ '' bytes)]'')
      else [])"

definition FlattenToText :: "ContentBlock list \<Rightarrow> string" where
  "FlattenToText contents = Join (map flatten_block contents) [CHR 0x0A]"

datatype content_error =
    ContentsEmpty
  | TextBlockEmpty nat
  | ImageBlockEmpty nat
  | UnknownBlockType nat string

definition block_error :: "nat \<Rightarrow> ContentBlock \<Rightarrow> content_error option" where
  "block_error i c =
     (if cbType c = ''text'' then
        (if TrimSpace (cbText c) = [] then Some (TextBlockEmpty i) else None)
      else if cbType c = ''image'' then
        (if TrimSpace (cbImageURL c) = [] \<and> TrimSpace (cbBase64 c) = [] then Some (ImageBlockEmpty i) else None)
      else Some (UnknownBlockType i (cbType c)))"

section \<open>Loops that stop at the first error\<close>

text \<open>
  \<open>for _, x := range xs { if err := f(x); err != nil { return err } }\<close> and the sequencing of
  two checks; used by every component.
\<close>

fun first_err :: "('a \<Rightarrow> 'e option) \<Rightarrow> 'a list \<Rightarrow> 'e option" where
  "first_err f [] = None"
| "first_err f (x # xs) = (case f x of None \<Rightarrow> first_err f xs | Some e \<Rightarrow> Some e)"

fun err_then :: "'e option \<Rightarrow> 'e option \<Rightarrow> 'e option" where
  "err_then None e = e"
| "err_then (Some x) e = Some x"

lemma first_err_None: "first_err f xs = None \<longleftrightarrow> (\<forall>x \<in> set xs. f x = None)"
  by (induction xs) (auto split: option.splits)

lemma first_err_SomeD: "first_err f xs = Some e \<Longrightarrow> \<exists>x \<in> set xs. f x = Some e"
  by (induction xs) (auto split: option.splits)

lemma first_err_cong [fundef_cong]:
  "xs = ys \<Longrightarrow> (\<And>x. x \<in> set ys \<Longrightarrow> f x = g x) \<Longrightarrow> first_err f xs = first_err g ys"
  by (induction xs arbitrary: ys) (auto split: option.splits)

lemma err_then_None [simp]: "err_then a b = None \<longleftrightarrow> a = None \<and> b = None"
  by (cases a) auto

lemma err_then_SomeD: "err_then a b = Some e \<Longrightarrow> a = Some e \<or> b = Some e"
  by (cases a) auto

definition ValidateContents :: "ContentBlock list \<Rightarrow> content_error option" where
  "ValidateContents contents =
     (if contents = [] then Some ContentsEmpty
      else first_err (\<lambda>(i, c). block_error i c) (enumerate 0 contents))"

lemma set_enumerateD: "(i, x) \<in> set (enumerate n xs) \<Longrightarrow> x \<in> set xs"
  by (metis map_snd_enumerate image_eqI list.set_map snd_conv)

lemma enumerate_all: "(\<forall>x \<in> set (enumerate n xs). P (snd x)) \<longleftrightarrow> (\<forall>y \<in> set xs. P y)"
  by (metis (no_types, lifting) map_snd_enumerate image_iff list.set_map)

lemma ball_enumerate: "(\<forall>x \<in> set (enumerate 0 xs). P x) \<longleftrightarrow> (\<forall>i < length xs. P (i, xs ! i))"
  by (simp add: all_set_conv_all_nth nth_enumerate_eq)

lemma ball_drop_enumerate:
  "(\<forall>x \<in> set (drop n (enumerate 0 xs)). P x) \<longleftrightarrow> (\<forall>i < length xs. n \<le> i \<longrightarrow> P (i, xs ! i))"
proof -
  have "(\<forall>x \<in> set (drop n (enumerate 0 xs)). P x) \<longleftrightarrow> (\<forall>i < length xs - n. P (n + i, xs ! (n + i)))"
    by (simp add: all_set_conv_all_nth nth_enumerate_eq)
  also have "\<dots> \<longleftrightarrow> (\<forall>i < length xs. n \<le> i \<longrightarrow> P (i, xs ! i))"
    by (metis (no_types, lifting) add_diff_cancel_left' le_add1 le_add_diff_inverse less_diff_conv2
        less_diff_conv add.commute)
  finally show ?thesis .
qed

definition block_ok :: "ContentBlock \<Rightarrow> bool" where
  "block_ok c = (cbType c = ''text'' \<and> TrimSpace (cbText c) \<noteq> [] \<or>
     cbType c = ''image'' \<and> (TrimSpace (cbImageURL c) \<noteq> [] \<or> TrimSpace (cbBase64 c) \<noteq> []))"

lemma block_error_None: "block_error i c = None \<longleftrightarrow> block_ok c"
  by (simp add: block_error_def block_ok_def)

lemma ValidateContents_None:
  "ValidateContents contents = None \<longleftrightarrow> contents \<noteq> [] \<and> (\<forall>c \<in> set contents. block_ok c)"
  by (simp add: ValidateContents_def first_err_None block_error_None case_prod_beta enumerate_all)

section \<open>Descriptors, requests and responses (types.go)\<close>

record SkillDescriptor =
  sdID :: string
  sdName :: string
  sdDescription :: string
  sdInputSchema :: "JSONSchema option"
  sdKind :: string
  sdSourceID :: string

record ToolDefinition =
  tdName :: string
  tdDescription :: string
  tdParameters :: "JSONSchema option"

record ToolCall =
  tcID :: string
  tcName :: string
  tcArguments :: string

record TokenUsage =
  tuPromptTokens :: int
  tuCompletionTokens :: int
  tuTotalTokens :: int

record ModelConstraints =
  mcMaxLatencyMs :: int
  mcPrivacy :: string
  mcPreferredProvider :: string

text \<open>The \<open>any\<close> in \<open>ToolChoice\<close>: nil, a mode, a specific tool, or something else.\<close>

datatype tool_choice = NoChoice | ChoiceMode string | ChoiceSpecific string | ChoiceOther

record GenerateRequest =
  grMessages :: "Message list"
  grTools :: "ToolDefinition list"
  grMaxTokens :: int
  grTemperature :: gofloat
  grJSONSchema :: "JSONSchema option"
  grToolChoice :: tool_choice
  grParallelToolCalls :: "bool option"

record GenerateResponse =
  gsContent :: string
  gsToolCalls :: "ToolCall list"
  gsUsage :: TokenUsage
  gsFinishReason :: string
  gsLatency :: int

record StreamChunk =
  scContent :: string
  scToolCalls :: "ToolCall list"
  scFinishReason :: string
  scUsage :: TokenUsage
  scError :: "string option"

end
