(* ===== verification/Schema_Validation.thy ===== *)
theory Schema_Validation
  imports AI_Types
begin

text \<open>
  \<open>validation/schema.go\<close>: validation of a decoded value against a JSON Schema, in the lenient and
  in the strict mode. Each Go function is one definition. The helpers take the validator they
  call back (\<open>validateValue\<close> or \<open>validateValueStrict\<close>), as the Go helpers select it from their
  \<open>strict\<close> flag; the two recursive entry points tie the knot. A nil error is \<open>None\<close>; the formatted
  message of a \<open>ValidationError\<close> is a constructor with the values it prints.
\<close>

section \<open>Errors (schema.go, ValidationError)\<close>

datatype vmsg =
    ExpectedType string string
  | UnsupportedType string
  | NotInEnum "goval list"
  | TooShort nat int
  | TooLong nat int
  | InvalidPattern string string
  | PatternMismatch string
  | BelowMinimum gofloat gofloat
  | AboveMaximum gofloat gofloat
  | RequiredMissing
  | UnknownProperty
  | NoAnyOfMatch
  | OneOfCount nat
  | AllOfFailed verror
  | MustBe goval
  | ThenFailed verror
  | ElseFailed verror
and verror = ValidationError (Field: string) (Msg: vmsg)

datatype input_error = InvalidJSON string | Invalid verror

type_synonym validator = "goval \<Rightarrow> JSONSchema option \<Rightarrow> string \<Rightarrow> verror option"

section \<open>Leaf checks\<close>

definition dotPath :: "string \<Rightarrow> string \<Rightarrow> string" where
  "dotPath parent child = (if parent = [] then child else parent @ ''.'' @ child)"

definition itemPath :: "string \<Rightarrow> nat \<Rightarrow> string" where
  "itemPath path i = path @ ''['' @ show_nat i @ '']''"

definition is_integral :: "stdlib \<Rightarrow> gofloat \<Rightarrow> bool" where
  "is_integral L f = f_eq f (float_of_int64 L f)"

definition validateType :: "stdlib \<Rightarrow> goval \<Rightarrow> string \<Rightarrow> string \<Rightarrow> verror option" where
  "validateType L data expected path =
     (let mismatch = Some (ValidationError path (ExpectedType expected (typeName data))) in
      if expected = ''object'' then (case data of GMap _ \<Rightarrow> None | _ \<Rightarrow> mismatch)
      else if expected = ''array'' then (case data of GList _ \<Rightarrow> None | _ \<Rightarrow> mismatch)
      else if expected = ''string'' then (case data of GStr _ \<Rightarrow> None | _ \<Rightarrow> mismatch)
      else if expected = ''number'' then (case data of GFloat _ \<Rightarrow> None | _ \<Rightarrow> mismatch)
      else if expected = ''boolean'' then (case data of GBool _ \<Rightarrow> None | _ \<Rightarrow> mismatch)
      else if expected = ''integer'' then
        (case data of GFloat f \<Rightarrow> (if is_integral L f then None else mismatch) | _ \<Rightarrow> mismatch)
      else Some (ValidationError path (UnsupportedType expected)))"

text \<open>\<open>json.Marshal\<close> returns a nil slice, the empty string, together with an error.\<close>

definition marshal_bytes :: "stdlib \<Rightarrow> goval \<Rightarrow> string" where
  "marshal_bytes L v = (case json_marshal L v of None \<Rightarrow> [] | Some s \<Rightarrow> s)"

definition jsonEqual :: "stdlib \<Rightarrow> goval \<Rightarrow> goval \<Rightarrow> bool" where
  "jsonEqual L a b = (marshal_bytes L a = marshal_bytes L b)"

definition validateEnum :: "stdlib \<Rightarrow> goval \<Rightarrow> goval list \<Rightarrow> string \<Rightarrow> verror option" where
  "validateEnum L data enum path =
     (if list_ex (jsonEqual L data) enum then None
      else Some (ValidationError path (NotInEnum enum)))"

definition validateConst :: "stdlib \<Rightarrow> goval \<Rightarrow> goval \<Rightarrow> string \<Rightarrow> verror option" where
  "validateConst L data constVal path =
     (if \<not> jsonEqual L data constVal then Some (ValidationError path (MustBe constVal)) else None)"

definition validateString :: "stdlib \<Rightarrow> goval \<Rightarrow> JSONSchema \<Rightarrow> string \<Rightarrow> verror option" where
  "validateString L data s path = (case data of GStr t \<Rightarrow>
     err_then
       (case sMinLength (base s) of None \<Rightarrow> None | Some n \<Rightarrow>
          if int (length t) < n then Some (ValidationError path (TooShort (length t) n)) else None)
     (err_then
       (case sMaxLength (base s) of None \<Rightarrow> None | Some n \<Rightarrow>
          if int (length t) > n then Some (ValidationError path (TooLong (length t) n)) else None)
       (if sPattern (base s) \<noteq> [] then
          (case regexp_compile L (sPattern (base s)) of
             Inl err \<Rightarrow> Some (ValidationError path (InvalidPattern (sPattern (base s)) err))
           | Inr re \<Rightarrow> if \<not> re t then Some (ValidationError path (PatternMismatch (sPattern (base s)))) else None)
        else None))
   | _ \<Rightarrow> None)"

definition validateNumber :: "goval \<Rightarrow> JSONSchema \<Rightarrow> string \<Rightarrow> verror option" where
  "validateNumber data s path = (case data of GFloat f \<Rightarrow>
     err_then
       (case sMinimum (base s) of None \<Rightarrow> None | Some m \<Rightarrow>
          if f_lt f m then Some (ValidationError path (BelowMinimum f m)) else None)
       (case sMaximum (base s) of None \<Rightarrow> None | Some m \<Rightarrow>
          if f_lt m f then Some (ValidationError path (AboveMaximum f m)) else None)
   | _ \<Rightarrow> None)"

section \<open>Composite checks\<close>

definition validatePrefixItems :: "validator \<Rightarrow> goval list \<Rightarrow> JSONSchema \<Rightarrow> string \<Rightarrow> verror option" where
  "validatePrefixItems validate arr s path =
     first_err (\<lambda>(i, x, t). validate x t (itemPath path i)) (enumerate 0 (zip arr (PrefixItems s)))"

definition validateArray :: "validator \<Rightarrow> goval \<Rightarrow> JSONSchema \<Rightarrow> string \<Rightarrow> verror option" where
  "validateArray validate data s path = (case data of GList arr \<Rightarrow>
     err_then
       (if length (PrefixItems s) > 0 then validatePrefixItems validate arr s path else None)
       (case Items s of None \<Rightarrow> None | Some it \<Rightarrow>
          (let startIdx = (if length (PrefixItems s) > 0 then length (PrefixItems s) else 0) in
           first_err (\<lambda>(i, x). validate x (Items s) (itemPath path i)) (drop startIdx (enumerate 0 arr))))
   | _ \<Rightarrow> None)"

definition validateArrayStrict :: "validator \<Rightarrow> goval \<Rightarrow> JSONSchema \<Rightarrow> string \<Rightarrow> verror option" where
  "validateArrayStrict validateStrict data s path = (case data of GList arr \<Rightarrow>
     err_then
       (if length (PrefixItems s) > 0 then validatePrefixItems validateStrict arr s path else None)
       (case Items s of None \<Rightarrow> None | Some it \<Rightarrow>
          (let startIdx = (if length (PrefixItems s) > 0 then length (PrefixItems s) else 0) in
           first_err (\<lambda>(i, x). validateStrict x (Items s) (itemPath path i)) (drop startIdx (enumerate 0 arr))))
   | _ \<Rightarrow> None)"

definition validateObject :: "validator \<Rightarrow> goval \<Rightarrow> JSONSchema \<Rightarrow> string \<Rightarrow> bool \<Rightarrow> verror option" where
  "validateObject validate data s path strict = (case data of GMap obj \<Rightarrow>
     err_then
       (first_err (\<lambda>req. if gm_has obj req then None
                         else Some (ValidationError (dotPath path req) RequiredMissing)) (sRequired (base s)))
     (err_then
       (first_err (\<lambda>(key, t). case gm_get obj key of None \<Rightarrow> None
                         | Some val \<Rightarrow> validate val t (dotPath path key)) (props s))
       (let rejectUnknown = (strict \<or> sAdditionalProperties (base s) = Some False) in
        if rejectUnknown \<and> length (props s) > 0 then
          first_err (\<lambda>key. if gm_has (props s) key then None
                            else Some (ValidationError (dotPath path key) UnknownProperty)) (gm_keys obj)
        else None))
   | _ \<Rightarrow> None)"

definition validateComposition :: "validator \<Rightarrow> goval \<Rightarrow> JSONSchema \<Rightarrow> string \<Rightarrow> verror option" where
  "validateComposition validate data s path =
     err_then
       (if length (AnyOf s) > 0 \<and> \<not> list_ex (\<lambda>t. validate data t path = None) (AnyOf s)
        then Some (ValidationError path NoAnyOfMatch) else None)
     (err_then
       (if length (OneOf s) > 0 then
          (let count = length (filter (\<lambda>t. validate data t path = None) (OneOf s)) in
           if count \<noteq> 1 then Some (ValidationError path (OneOfCount count)) else None)
        else None)
       (first_err (\<lambda>t. map_option (\<lambda>e. ValidationError path (AllOfFailed e)) (validate data t path)) (AllOf s)))"

definition validateConditional :: "validator \<Rightarrow> goval \<Rightarrow> JSONSchema \<Rightarrow> string \<Rightarrow> verror option" where
  "validateConditional validate data s path =
     (let ifMatches = (validate data (IfS s) path = None) in
      err_then
        (if ifMatches \<and> ThenS s \<noteq> None
         then map_option (\<lambda>e. ValidationError path (ThenFailed e)) (validate data (ThenS s) path) else None)
        (if \<not> ifMatches \<and> ElseS s \<noteq> None
         then map_option (\<lambda>e. ValidationError path (ElseFailed e)) (validate data (ElseS s) path) else None))"

text \<open>
  The recursive calls of a helper go to the sub-schemas only; these congruence rules tell the
  function package so.
\<close>

lemma validatePrefixItems_cong [fundef_cong]:
  assumes "arr = arr'" "s = s'" "path = path'"
    and "\<And>d t p. t \<in> subs s' \<Longrightarrow> v d t p = w d t p"
  shows "validatePrefixItems v arr s path = validatePrefixItems w arr' s' path'"
  unfolding validatePrefixItems_def assms(1-3)
  by (intro first_err_cong refl)
    (auto intro!: assms(4) simp: subs_def dest!: set_enumerateD set_zip_rightD)

lemma validateArray_cong [fundef_cong]:
  assumes "data = data'" "s = s'" "path = path'"
    and "\<And>d t p. t \<in> subs s' \<Longrightarrow> v d t p = w d t p"
  shows "validateArray v data s path = validateArray w data' s' path'"
proof -
  have pre: "validatePrefixItems v arr s' path' = validatePrefixItems w arr s' path'" for arr
    using assms(4) by (intro validatePrefixItems_cong) auto
  have it: "v x (Items s') p = w x (Items s') p" for x p
    using assms(4) by (simp add: subs_def)
  show ?thesis
    unfolding validateArray_def assms(1-3) pre it ..
qed

lemma validateArrayStrict_eq: "validateArrayStrict v = validateArray v"
  by (simp add: fun_eq_iff validateArrayStrict_def validateArray_def)

lemma validateArrayStrict_cong [fundef_cong]:
  assumes "data = data'" "s = s'" "path = path'"
    and "\<And>d t p. t \<in> subs s' \<Longrightarrow> v d t p = w d t p"
  shows "validateArrayStrict v data s path = validateArrayStrict w data' s' path'"
  unfolding validateArrayStrict_eq using assms by (rule validateArray_cong)

lemma validateObject_cong [fundef_cong]:
  assumes "data = data'" "s = s'" "path = path'" "strict = strict'"
    and "\<And>d t p. t \<in> subs s' \<Longrightarrow> v d t p = w d t p"
  shows "validateObject v data s path strict = validateObject w data' s' path' strict'"
proof -
  have eq: "first_err (\<lambda>(key, t). case gm_get obj key of None \<Rightarrow> None | Some val \<Rightarrow> v val t (dotPath path' key)) (props s')
      = first_err (\<lambda>(key, t). case gm_get obj key of None \<Rightarrow> None | Some val \<Rightarrow> w val t (dotPath path' key)) (props s')"
    for obj
    by (intro first_err_cong refl) (force simp: subs_def intro!: assms(5) split: option.split)
  show ?thesis unfolding validateObject_def assms(1-4) eq ..
qed

lemma validateComposition_cong [fundef_cong]:
  assumes "data = data'" "s = s'" "path = path'"
    and "\<And>d t p. t \<in> subs s' \<Longrightarrow> v d t p = w d t p"
  shows "validateComposition v data s path = validateComposition w data' s' path'"
proof -
  have "list_ex (\<lambda>t. v data' t path' = None) (AnyOf s') = list_ex (\<lambda>t. w data' t path' = None) (AnyOf s')"
    using assms(4) by (intro list_ex_cong) (auto simp: subs_def)
  moreover have "filter (\<lambda>t. v data' t path' = None) (OneOf s') = filter (\<lambda>t. w data' t path' = None) (OneOf s')"
    using assms(4) by (intro filter_cong) (auto simp: subs_def)
  moreover have "first_err (\<lambda>t. map_option (\<lambda>e. ValidationError path' (AllOfFailed e)) (v data' t path')) (AllOf s')
      = first_err (\<lambda>t. map_option (\<lambda>e. ValidationError path' (AllOfFailed e)) (w data' t path')) (AllOf s')"
    using assms(4) by (intro first_err_cong) (auto simp: subs_def)
  ultimately show ?thesis unfolding validateComposition_def assms(1-3) by simp
qed

lemma validateConditional_cong [fundef_cong]:
  assumes "data = data'" "s = s'" "path = path'"
    and "\<And>d t p. t \<in> subs s' \<Longrightarrow> v d t p = w d t p"
  shows "validateConditional v data s path = validateConditional w data' s' path'"
  using assms(4) unfolding validateConditional_def assms(1-3) by (simp add: subs_def)

section \<open>The two validators\<close>

text \<open>
  What \<open>validateValue\<close> and \<open>validateValueStrict\<close> share before and after the type-specific part:
  the type, enum and const checks.
\<close>

definition checkHead :: "stdlib \<Rightarrow> goval \<Rightarrow> JSONSchema \<Rightarrow> string \<Rightarrow> verror option" where
  "checkHead L data s path =
     err_then (if sType (base s) \<noteq> [] then validateType L data (sType (base s)) path else None)
     (err_then (if length (sEnum (base s)) > 0 then validateEnum L data (sEnum (base s)) path else None)
       (case sConst (base s) of None \<Rightarrow> None | Some c \<Rightarrow> validateConst L data c path))"

function validateValue :: "stdlib \<Rightarrow> goval \<Rightarrow> JSONSchema option \<Rightarrow> string \<Rightarrow> verror option" where
  "validateValue L data None path = None"
| "validateValue L data (Some s) path =
     err_then (checkHead L data s path)
     (err_then
       (if sType (base s) = ''string'' then validateString L data s path
        else if sType (base s) = ''number'' \<or> sType (base s) = ''integer'' then validateNumber data s path
        else if sType (base s) = ''array'' then validateArray (validateValue L) data s path
        else if sType (base s) = ''object'' \<or> (sType (base s) = [] \<and> Properties s \<noteq> None)
          then validateObject (validateValue L) data s path False
        else None)
     (err_then (validateComposition (validateValue L) data s path)
       (if IfS s \<noteq> None then validateConditional (validateValue L) data s path else None)))"
  by pat_completeness auto
termination
  by (relation "measure (\<lambda>(L, d, t, p). schema_depth t)") (auto dest: subs_smaller)

function validateValueStrict :: "stdlib \<Rightarrow> goval \<Rightarrow> JSONSchema option \<Rightarrow> string \<Rightarrow> verror option" where
  "validateValueStrict L data None path = None"
| "validateValueStrict L data (Some s) path =
     err_then (checkHead L data s path)
     (err_then
       (if sType (base s) = ''string'' then validateString L data s path
        else if sType (base s) = ''number'' \<or> sType (base s) = ''integer'' then validateNumber data s path
        else if sType (base s) = ''array'' then validateArrayStrict (validateValueStrict L) data s path
        else if sType (base s) = ''object'' \<or> (sType (base s) = [] \<and> Properties s \<noteq> None)
          then validateObject (validateValueStrict L) data s path True
        else None)
     (err_then (validateComposition (validateValueStrict L) data s path)
       (if IfS s \<noteq> None then validateConditional (validateValueStrict L) data s path else None)))"
  by pat_completeness auto
termination
  by (relation "measure (\<lambda>(L, d, t, p). schema_depth t)") (auto dest: subs_smaller)

declare validateValue.simps(2) [simp del] validateValueStrict.simps(2) [simp del]

definition ValidateInput :: "stdlib \<Rightarrow> string \<Rightarrow> JSONSchema option \<Rightarrow> input_error option" where
  "ValidateInput L input schema =
     (if schema = None then None
      else (case json_unmarshal L input of
        Inl err \<Rightarrow> Some (InvalidJSON err)
      | Inr data \<Rightarrow> map_option Invalid (validateValue L data schema [])))"

definition ValidateValue :: "stdlib \<Rightarrow> goval \<Rightarrow> JSONSchema option \<Rightarrow> verror option" where
  "ValidateValue L data schema = (if schema = None then None else validateValue L data schema [])"

definition ValidateInputStrict :: "stdlib \<Rightarrow> string \<Rightarrow> JSONSchema option \<Rightarrow> input_error option" where
  "ValidateInputStrict L input schema =
     (if schema = None then None
      else (case json_unmarshal L input of
        Inl err \<Rightarrow> Some (InvalidJSON err)
      | Inr data \<Rightarrow> map_option Invalid (validateValueStrict L data schema [])))"

end
