(* ===== verification/Schema_Semantics.thy ===== *)
theory Schema_Semantics
  imports Schema_Validation
begin

text \<open>
  What a JSON Schema means, stated keyword by keyword and independently of error paths, error
  messages and the order in which the validator looks at things (\<open>satisfies\<close>), and the theorems
  that tie the validators of \<open>Schema_Validation\<close> to it.
\<close>

section \<open>The meaning of the keywords\<close>

type_synonym judge = "goval \<Rightarrow> JSONSchema option \<Rightarrow> bool"

definition type_ok :: "stdlib \<Rightarrow> goval \<Rightarrow> string \<Rightarrow> bool" where
  "type_ok L d ty \<longleftrightarrow>
     ty = ''object'' \<and> (\<exists>m. d = GMap m) \<or> ty = ''array'' \<and> (\<exists>vs. d = GList vs) \<or>
     ty = ''string'' \<and> (\<exists>t. d = GStr t) \<or> ty = ''number'' \<and> (\<exists>f. d = GFloat f) \<or>
     ty = ''boolean'' \<and> (\<exists>b. d = GBool b) \<or> ty = ''integer'' \<and> (\<exists>f. d = GFloat f \<and> is_integral L f)"

definition string_ok :: "stdlib \<Rightarrow> string \<Rightarrow> schema_base \<Rightarrow> bool" where
  "string_ok L t b \<longleftrightarrow>
     (\<forall>n. sMinLength b = Some n \<longrightarrow> n \<le> int (length t)) \<and>
     (\<forall>n. sMaxLength b = Some n \<longrightarrow> int (length t) \<le> n) \<and>
     (sPattern b \<noteq> [] \<longrightarrow> (\<exists>re. regexp_compile L (sPattern b) = Inr re \<and> re t))"

definition number_ok :: "gofloat \<Rightarrow> schema_base \<Rightarrow> bool" where
  "number_ok f b \<longleftrightarrow>
     (\<forall>m. sMinimum b = Some m \<longrightarrow> \<not> f_lt f m) \<and> (\<forall>m. sMaximum b = Some m \<longrightarrow> \<not> f_lt m f)"

definition head_ok :: "stdlib \<Rightarrow> goval \<Rightarrow> schema_base \<Rightarrow> bool" where
  "head_ok L d b \<longleftrightarrow>
     (sType b \<noteq> [] \<longrightarrow> type_ok L d (sType b)) \<and>
     (sEnum b \<noteq> [] \<longrightarrow> (\<exists>v \<in> set (sEnum b). jsonEqual L d v)) \<and>
     (\<forall>c. sConst b = Some c \<longrightarrow> jsonEqual L d c) \<and>
     (\<forall>t. sType b = ''string'' \<longrightarrow> d = GStr t \<longrightarrow> string_ok L t b) \<and>
     (\<forall>f. sType b \<in> {''number'', ''integer''} \<longrightarrow> d = GFloat f \<longrightarrow> number_ok f b)"

text \<open>Item \<open>i\<close> is judged by the \<open>i\<close>-th prefix schema if there is one, by \<open>Items\<close> otherwise.\<close>

definition array_ok :: "judge \<Rightarrow> goval list \<Rightarrow> JSONSchema \<Rightarrow> bool" where
  "array_ok w arr s \<longleftrightarrow>
     (\<forall>i < length arr. w (arr ! i) (if i < length (PrefixItems s) then PrefixItems s ! i else Items s))"

definition object_ok :: "judge \<Rightarrow> bool \<Rightarrow> (string \<times> goval) list \<Rightarrow> JSONSchema \<Rightarrow> bool" where
  "object_ok w strict obj s \<longleftrightarrow>
     (\<forall>r \<in> set (sRequired (base s)). gm_has obj r) \<and>
     (\<forall>(k, t) \<in> set (props s). \<forall>v. gm_get obj k = Some v \<longrightarrow> w v t) \<and>
     ((strict \<or> sAdditionalProperties (base s) = Some False) \<and> props s \<noteq> [] \<longrightarrow>
        (\<forall>k \<in> set (gm_keys obj). gm_has (props s) k))"

definition body_ok :: "judge \<Rightarrow> bool \<Rightarrow> goval \<Rightarrow> JSONSchema \<Rightarrow> bool" where
  "body_ok w strict d s \<longleftrightarrow>
     (\<forall>arr. sType (base s) = ''array'' \<longrightarrow> d = GList arr \<longrightarrow> array_ok w arr s) \<and>
     (\<forall>obj. sType (base s) = ''object'' \<or> sType (base s) = [] \<and> Properties s \<noteq> None \<longrightarrow>
        d = GMap obj \<longrightarrow> object_ok w strict obj s)"

definition comp_ok :: "judge \<Rightarrow> goval \<Rightarrow> JSONSchema \<Rightarrow> bool" where
  "comp_ok w d s \<longleftrightarrow>
     (AnyOf s \<noteq> [] \<longrightarrow> (\<exists>t \<in> set (AnyOf s). w d t)) \<and>
     (OneOf s \<noteq> [] \<longrightarrow> (\<exists>!i. i < length (OneOf s) \<and> w d (OneOf s ! i))) \<and>
     (\<forall>t \<in> set (AllOf s). w d t) \<and>
     (IfS s \<noteq> None \<longrightarrow> (if w d (IfS s) then w d (ThenS s) else w d (ElseS s)))"

lemma body_ok_cong [fundef_cong]:
  assumes "strict = strict'" "d = d'" "s = s'" and "\<And>e t. t \<in> subs s' \<Longrightarrow> v e t = w e t"
  shows "body_ok v strict d s = body_ok w strict' d' s'"
proof -
  have "array_ok v arr s' = array_ok w arr s'" for arr
    unfolding array_ok_def using assms(4) by (auto simp: subs_def)
  moreover have "object_ok v strict' obj s' = object_ok w strict' obj s'" for obj
  proof -
    have "v x t = w x t" if "(k, t) \<in> set (props s')" for k t x
      using that by (intro assms(4)) (force simp: subs_def)
    then show ?thesis unfolding object_ok_def by (intro conj_cong refl ball_cong) auto
  qed
  ultimately show ?thesis unfolding body_ok_def assms(1-3) by simp
qed

lemma comp_ok_cong [fundef_cong]:
  assumes "d = d'" "s = s'" and "\<And>e t. t \<in> subs s' \<Longrightarrow> v e t = w e t"
  shows "comp_ok v d s = comp_ok w d' s'"
proof -
  have "(i < length (OneOf s') \<and> v d' (OneOf s' ! i)) = (i < length (OneOf s') \<and> w d' (OneOf s' ! i))" for i
    using assms(3) by (auto simp: subs_def)
  with assms(3) show ?thesis unfolding comp_ok_def assms(1-2) by (simp add: subs_def)
qed

function satisfies :: "stdlib \<Rightarrow> bool \<Rightarrow> goval \<Rightarrow> JSONSchema option \<Rightarrow> bool" where
  "satisfies L strict d None = True"
| "satisfies L strict d (Some s) =
     (head_ok L d (base s) \<and> body_ok (satisfies L strict) strict d s \<and> comp_ok (satisfies L strict) d s)"
  by pat_completeness auto
termination
  by (relation "measure (\<lambda>(L, b, d, t). schema_depth t)") (auto dest: subs_smaller)

declare satisfies.simps(2) [simp del]

section \<open>The leaf checks decide their keywords\<close>

lemma validateType_None: "validateType L d ty p = None \<longleftrightarrow> type_ok L d ty"
  by (cases d) (auto simp: validateType_def type_ok_def Let_def)

lemma validateEnum_None: "validateEnum L d enum p = None \<longleftrightarrow> (\<exists>v \<in> set enum. jsonEqual L d v)"
  by (simp add: validateEnum_def list_ex_iff)

lemma validateConst_None: "validateConst L d c p = None \<longleftrightarrow> jsonEqual L d c"
  by (simp add: validateConst_def)

lemma validateString_None:
  "validateString L d s p = None \<longleftrightarrow> (\<forall>t. d = GStr t \<longrightarrow> string_ok L t (base s))"
  by (cases d; cases "sMinLength (base s)"; cases "sMaxLength (base s)")
    (auto simp: validateString_def string_ok_def split: sum.splits)

lemma validateNumber_None:
  "validateNumber d s p = None \<longleftrightarrow> (\<forall>f. d = GFloat f \<longrightarrow> number_ok f (base s))"
  by (cases d; cases "sMinimum (base s)"; cases "sMaximum (base s)")
    (auto simp: validateNumber_def number_ok_def)

lemma checkHead_None:
  "checkHead L d s p = None \<longleftrightarrow>
     (sType (base s) \<noteq> [] \<longrightarrow> type_ok L d (sType (base s))) \<and>
     (sEnum (base s) \<noteq> [] \<longrightarrow> (\<exists>v \<in> set (sEnum (base s)). jsonEqual L d v)) \<and>
     (\<forall>c. sConst (base s) = Some c \<longrightarrow> jsonEqual L d c)"
  by (cases "sConst (base s)")
    (auto simp: checkHead_def validateType_None validateEnum_None validateConst_None)

lemmas leaf_None = validateType_None validateEnum_None validateConst_None validateString_None
  validateNumber_None checkHead_None

lemma length_filter_one: "length (filter P xs) = 1 \<longleftrightarrow> (\<exists>!i. i < length xs \<and> P (xs ! i))"
proof -
  have "(\<exists>x. A = {x}) \<longleftrightarrow> (\<exists>!x. x \<in> A)" for A :: "nat set" by blast
  then show ?thesis by (simp add: length_filter_conv_card card_1_singleton_iff)
qed

section \<open>The composite checks decide theirs, given a validator that decides the sub-schemas\<close>

text \<open>
  The interface between the helpers and the validator they call back: on the sub-schemas of \<open>s\<close>
  the validator \<open>v\<close> returns nil exactly where the judgement \<open>w\<close> holds.
\<close>

locale decides =
  fixes v :: validator and w :: judge and s :: JSONSchema
  assumes agree: "t \<in> subs s \<Longrightarrow> v d t p = None \<longleftrightarrow> w d t"
    and nil_ok: "w d None"
begin

lemma prefix_None:
  "validatePrefixItems v arr s p = None \<longleftrightarrow>
     (\<forall>i < length arr. i < length (PrefixItems s) \<longrightarrow> w (arr ! i) (PrefixItems s ! i))"
proof -
  have "v (arr ! i) (PrefixItems s ! i) q = None \<longleftrightarrow> w (arr ! i) (PrefixItems s ! i)"
    if "i < length (PrefixItems s)" for i q
    using that by (intro agree) (simp add: subs_def)
  then show ?thesis
    by (auto simp: validatePrefixItems_def first_err_None ball_enumerate)
qed

lemma items_None:
  assumes "Items s \<noteq> None"
  shows "first_err (\<lambda>(i, x). v x (Items s) (itemPath p i)) (drop n (enumerate 0 arr)) = None \<longleftrightarrow>
     (\<forall>i < length arr. n \<le> i \<longrightarrow> w (arr ! i) (Items s))"
proof -
  have "v x (Items s) q = None \<longleftrightarrow> w x (Items s)" for x q
    by (intro agree) (simp add: subs_def)
  then show ?thesis by (simp add: first_err_None ball_drop_enumerate)
qed

lemma array_None:
  "validateArray v d s p = None \<longleftrightarrow> (\<forall>arr. d = GList arr \<longrightarrow> array_ok w arr s)"
proof (cases d)
  case (GList arr)
  have "validateArray v d s p = None \<longleftrightarrow>
      validatePrefixItems v arr s p = None \<and>
      (Items s \<noteq> None \<longrightarrow>
        first_err (\<lambda>(i, x). v x (Items s) (itemPath p i)) (drop (length (PrefixItems s)) (enumerate 0 arr)) = None)"
    using GList by (cases "PrefixItems s") (auto simp: validateArray_def validatePrefixItems_def split: option.splits)
  also have "\<dots> \<longleftrightarrow> array_ok w arr s"
  proof (cases "Items s = None")
    case True
    with nil_ok show ?thesis by (auto simp: prefix_None array_ok_def)
  next
    case False
    then show ?thesis
      unfolding prefix_None items_None [OF False] array_ok_def by (auto simp: not_less)
  qed
  finally show ?thesis using GList by simp
qed (simp_all add: validateArray_def)

lemma object_None:
  "validateObject v d s p strict = None \<longleftrightarrow> (\<forall>obj. d = GMap obj \<longrightarrow> object_ok w strict obj s)"
proof (cases d)
  case (GMap obj)
  have "v x t q = None \<longleftrightarrow> w x t" if "(k, t) \<in> set (props s)" for k t x q
    using that by (intro agree) (force simp: subs_def)
  then have "(\<forall>kt \<in> set (props s). (case kt of (k, t) \<Rightarrow>
        case gm_get obj k of None \<Rightarrow> None | Some x \<Rightarrow> v x t (dotPath p k)) = None) \<longleftrightarrow>
      (\<forall>(k, t) \<in> set (props s). \<forall>x. gm_get obj k = Some x \<longrightarrow> w x t)"
    by (fastforce split: option.splits)
  with GMap show ?thesis
    by (simp add: validateObject_def first_err_None object_ok_def Let_def)
qed (simp_all add: validateObject_def)

lemma composition_None:
  "validateComposition v d s p = None \<and> (IfS s \<noteq> None \<longrightarrow> validateConditional v d s p = None) \<longleftrightarrow> comp_ok w d s"
proof -
  have ag: "v d t p = None \<longleftrightarrow> w d t"
    if "t \<in> set (AnyOf s) \<or> t \<in> set (OneOf s) \<or> t \<in> set (AllOf s) \<or> t = IfS s \<or> t = ThenS s \<or> t = ElseS s" for t
    using that by (intro agree) (auto simp: subs_def)
  have "filter (\<lambda>t. v d t p = None) (OneOf s) = filter (w d) (OneOf s)"
    using ag by (intro filter_cong) auto
  then have one: "length (filter (\<lambda>t. v d t p = None) (OneOf s)) = 1 \<longleftrightarrow> (\<exists>!i. i < length (OneOf s) \<and> w d (OneOf s ! i))"
    by (simp only: length_filter_one)
  have "validateComposition v d s p = None \<longleftrightarrow>
      (AnyOf s \<noteq> [] \<longrightarrow> (\<exists>t \<in> set (AnyOf s). w d t)) \<and>
      (OneOf s \<noteq> [] \<longrightarrow> (\<exists>!i. i < length (OneOf s) \<and> w d (OneOf s ! i))) \<and>
      (\<forall>t \<in> set (AllOf s). w d t)"
    unfolding validateComposition_def using ag one by (auto simp: first_err_None list_ex_iff Let_def)
  moreover have "validateConditional v d s p = None \<longleftrightarrow> (if w d (IfS s) then w d (ThenS s) else w d (ElseS s))"
    unfolding validateConditional_def Let_def using ag nil_ok by (cases "ThenS s"; cases "ElseS s") auto
  ultimately show ?thesis unfolding comp_ok_def by blast
qed

lemma dispatch_None:
  "(if sType (base s) = ''string'' then validateString L d s p
    else if sType (base s) = ''number'' \<or> sType (base s) = ''integer'' then validateNumber d s p
    else if sType (base s) = ''array'' then validateArray v d s p
    else if sType (base s) = ''object'' \<or> (sType (base s) = [] \<and> Properties s \<noteq> None)
      then validateObject v d s p strict
    else None) = None \<longleftrightarrow>
   (\<forall>t. sType (base s) = ''string'' \<longrightarrow> d = GStr t \<longrightarrow> string_ok L t (base s)) \<and>
   (\<forall>f. sType (base s) \<in> {''number'', ''integer''} \<longrightarrow> d = GFloat f \<longrightarrow> number_ok f (base s)) \<and>
   body_ok w strict d s"
  unfolding body_ok_def by (auto simp: array_None object_None validateString_None validateNumber_None)

end

section \<open>The validators decide the meaning\<close>

lemma decides_lenient:
  assumes "\<And>d t p. t \<in> subs s \<Longrightarrow> validateValue L d t p = None \<longleftrightarrow> satisfies L False d t"
  shows "decides (validateValue L) (satisfies L False) s"
  using assms by unfold_locales auto

lemma decides_strict:
  assumes "\<And>d t p. t \<in> subs s \<Longrightarrow> validateValueStrict L d t p = None \<longleftrightarrow> satisfies L True d t"
  shows "decides (validateValueStrict L) (satisfies L True) s"
  using assms by unfold_locales auto

lemma validateValue_None: "validateValue L d t p = None \<longleftrightarrow> satisfies L False d t"
proof (induction "schema_depth t" arbitrary: d t p rule: less_induct)
  case less
  show ?case
  proof (cases t)
    case (Some s)
    have D: "decides (validateValue L) (satisfies L False) s"
      using less subs_smaller Some by (intro decides_lenient) blast
    show ?thesis
      unfolding Some validateValue.simps(2) satisfies.simps(2) err_then_None decides.dispatch_None [OF D]
        checkHead_None head_ok_def decides.composition_None [OF D, of d p, symmetric] by (cases "IfS s") simp_all
  qed simp
qed

lemma validateValueStrict_None: "validateValueStrict L d t p = None \<longleftrightarrow> satisfies L True d t"
proof (induction "schema_depth t" arbitrary: d t p rule: less_induct)
  case less
  show ?case
  proof (cases t)
    case (Some s)
    have D: "decides (validateValueStrict L) (satisfies L True) s"
      using less subs_smaller Some by (intro decides_strict) blast
    show ?thesis
      unfolding Some validateValueStrict.simps(2) validateArrayStrict_eq satisfies.simps(2) err_then_None decides.dispatch_None [OF D]
        checkHead_None head_ok_def decides.composition_None [OF D, of d p, symmetric] by (cases "IfS s") simp_all
  qed simp
qed

interpretation lenient: decides "validateValue L" "satisfies L False" s for L s
  by (rule decides_lenient) (rule validateValue_None)

interpretation strict: decides "validateValueStrict L" "satisfies L True" s for L s
  by (rule decides_strict) (rule validateValueStrict_None)

end
