(* ===== verification/Schema_Properties.thy ===== *)
theory Schema_Properties
  imports Schema_Semantics
begin

text \<open>
  The properties of the schema validators: they decide the meaning of the schema, they do not
  depend on the order in which Go ranges over a map, their errors point into the value they were
  given, and how the strict mode relates to the lenient one.
\<close>

section \<open>Decision\<close>

text \<open>C1. The two validators decide the meaning of a schema: at every path, \<open>validateValue\<close> returns nil
  exactly when the value satisfies the schema, and \<open>validateValueStrict\<close> exactly when it satisfies
  the schema read strictly (no property outside \<open>Properties\<close>).\<close>

theorem validators_decide:
  "(validateValue L d t p = None \<longleftrightarrow> satisfies L False d t) \<and>
   (validateValueStrict L d t p = None \<longleftrightarrow> satisfies L True d t)"
  by (simp add: validateValue_None validateValueStrict_None)

section \<open>Independence of the map order\<close>

lemma jsonEqual_same: "gm_same m m' \<Longrightarrow> jsonEqual L (GMap m) v = jsonEqual L (GMap m') v"
  unfolding jsonEqual_def marshal_bytes_def by (simp only: json_marshal_same [of m m'])

lemma gm_same_keys: "gm_same m m' \<Longrightarrow> set (gm_keys m) = set (gm_keys m')"
  by (simp add: gm_keys_def gm_same_set)

lemma object_ok_same: "gm_same m m' \<Longrightarrow> object_ok w st m s = object_ok w st m' s"
  by (simp add: object_ok_def gm_has_def gm_same_get gm_same_keys)

lemma head_ok_same: "gm_same m m' \<Longrightarrow> head_ok L (GMap m) b = head_ok L (GMap m') b"
  by (simp add: head_ok_def type_ok_def jsonEqual_same [of m m'])

lemma satisfies_same:
  assumes "gm_same m m'"
  shows "satisfies L st (GMap m) t = satisfies L st (GMap m') t"
proof (induction "schema_depth t" arbitrary: t rule: less_induct)
  case less
  show ?case
  proof (cases t)
    case (Some s)
    have IH: "satisfies L st (GMap m) u = satisfies L st (GMap m') u" if "u \<in> subs s" for u
      using that less subs_smaller Some by blast
    have "(\<exists>!i. i < length (OneOf s) \<and> satisfies L st (GMap m) (OneOf s ! i)) =
          (\<exists>!i. i < length (OneOf s) \<and> satisfies L st (GMap m') (OneOf s ! i))"
      by (rule arg_cong [where f = Ex1]) (auto simp: fun_eq_iff subs_def IH)
    then have "comp_ok (satisfies L st) (GMap m) s = comp_ok (satisfies L st) (GMap m') s"
      unfolding comp_ok_def using IH by (simp add: subs_def)
    moreover have "body_ok (satisfies L st) st (GMap m) s = body_ok (satisfies L st) st (GMap m') s"
      unfolding body_ok_def goval.inject using object_ok_same [OF assms] by fastforce
    ultimately show ?thesis
      unfolding Some satisfies.simps(2) by (simp add: head_ok_same [OF assms])
  qed simp
qed

text \<open>Whether an object is accepted does not depend on the order in which Go ranges over its
  keys, in the lenient and in the strict mode, although which of several errors is reported may.\<close>

theorem acceptance_order_independent:
  assumes "gm_same m m'"
  shows "(validateValue L (GMap m) t p = None \<longleftrightarrow> validateValue L (GMap m') t p = None) \<and>
         (validateValueStrict L (GMap m) t p = None \<longleftrightarrow> validateValueStrict L (GMap m') t p = None)"
  by (simp add: validateValue_None validateValueStrict_None satisfies_same [OF assms])

theorem acceptance_order_independent_witness:
  "(validateValue plain_lib (GMap [(''a'', GNil), (''b'', GNil)]) None [] = None \<longleftrightarrow>
    validateValue plain_lib (GMap [(''b'', GNil), (''a'', GNil)]) None [] = None) \<and>
   (validateValueStrict plain_lib (GMap [(''a'', GNil), (''b'', GNil)]) None [] = None \<longleftrightarrow>
    validateValueStrict plain_lib (GMap [(''b'', GNil), (''a'', GNil)]) None [] = None)"
  by (rule acceptance_order_independent) (simp add: gm_same_def gm_wf_def)

section \<open>Where errors point\<close>

definition points_under :: "string \<Rightarrow> verror option \<Rightarrow> bool" where
  "points_under p e = (case e of None \<Rightarrow> True | Some x \<Rightarrow> prefix p (Field x))"

lemma points_under_None [simp]: "points_under p None"
  by (simp add: points_under_def)

lemma points_under_Some [simp]: "points_under p (Some (ValidationError f m)) \<longleftrightarrow> prefix p f"
  by (simp add: points_under_def)

lemma prefix_dotPath [simp]: "prefix p (dotPath p k)"
  by (simp add: dotPath_def)

lemma prefix_itemPath [simp]: "prefix p (itemPath p i)"
  by (simp add: itemPath_def)

lemma points_under_err_then [intro!]:
  "points_under p a \<Longrightarrow> points_under p b \<Longrightarrow> points_under p (err_then a b)"
  by (cases a) auto

lemma points_under_first_err [intro!]:
  "(\<And>x. x \<in> set xs \<Longrightarrow> points_under p (f x)) \<Longrightarrow> points_under p (first_err f xs)"
proof (induction xs)
  case (Cons x xs)
  from Cons.prems [of x] Cons.IH Cons.prems show ?case by (cases "f x") auto
qed simp

lemma points_under_longer: "prefix p q \<Longrightarrow> points_under q e \<Longrightarrow> points_under p e"
  by (cases e) (auto simp: points_under_def intro: prefix_order.trans)

lemma points_under_wrap [intro!]: "points_under p (map_option (\<lambda>e. ValidationError p (f e)) x)"
  by (cases x) auto

lemma points_under_head: "points_under p (checkHead L d s p)"
  by (cases "sConst (base s)"; cases d)
    (auto simp: checkHead_def validateType_def validateEnum_def validateConst_def Let_def)

lemma points_under_string: "points_under p (validateString L d s p)"
  by (cases d) (auto simp: validateString_def split: option.split sum.split)

lemma points_under_number: "points_under p (validateNumber d s p)"
  by (cases d) (auto simp: validateNumber_def split: option.split)

locale points_back =
  fixes v :: validator and s :: JSONSchema
  assumes points: "t \<in> subs s \<Longrightarrow> points_under p (v d t p)"
begin

lemma points_array: "points_under p (validateArray v d s p)"
proof (cases d)
  case (GList arr)
  have "points_under p (v x t (itemPath p i))" if "t \<in> subs s" for x t i
    using points [OF that] by (rule points_under_longer [OF prefix_itemPath])
  then have "points_under p (validatePrefixItems v arr s p)"
      and "points_under p (first_err (\<lambda>(i, x). v x (Items s) (itemPath p i)) xs)" for xs
    by (auto simp: validatePrefixItems_def subs_def dest!: set_enumerateD set_zip_rightD)
  then show ?thesis
    unfolding GList validateArray_def Let_def goval.case
    by (cases "Items s") (simp_all add: points_under_err_then)
qed (auto simp: validateArray_def)

lemma points_object: "points_under p (validateObject v d s p st)"
proof (cases d)
  case (GMap obj)
  have "points_under p (v x t (dotPath p k))" if "(k, t) \<in> set (props s)" for x t k
  proof -
    from that have "t \<in> subs s" by (force simp: subs_def)
    from points [OF this] show ?thesis by (rule points_under_longer [OF prefix_dotPath])
  qed
  then have pr: "points_under p (first_err (\<lambda>(key, t). case gm_get obj key of None \<Rightarrow> None
      | Some val \<Rightarrow> v val t (dotPath p key)) (props s))"
    by (intro points_under_first_err) (auto split: option.split)
  show ?thesis
    unfolding GMap validateObject_def Let_def goval.case
    by (intro points_under_err_then pr) (simp_all add: points_under_first_err)
qed (simp_all add: validateObject_def)

lemma points_composition: "points_under p (validateComposition v d s p)"
  by (auto simp: validateComposition_def Let_def)

lemma points_conditional: "points_under p (validateConditional v d s p)"
  by (auto simp: validateConditional_def Let_def)

end

lemmas points_leaf = points_under_head points_under_string points_under_number

lemma points_lenient: "points_under p (validateValue L d t p)"
proof (induction "schema_depth t" arbitrary: d t p rule: less_induct)
  case less
  show ?case
  proof (cases t)
    case (Some s)
    have P: "points_back (validateValue L) s"
      using less subs_smaller Some by unfold_locales blast
    show ?thesis unfolding Some validateValue.simps(2)
      by (auto intro!: points_leaf points_back.points_array [OF P] points_back.points_object [OF P]
          points_back.points_composition [OF P] points_back.points_conditional [OF P])
  qed simp
qed

lemma points_strict: "points_under p (validateValueStrict L d t p)"
proof (induction "schema_depth t" arbitrary: d t p rule: less_induct)
  case less
  show ?case
  proof (cases t)
    case (Some s)
    have P: "points_back (validateValueStrict L) s"
      using less subs_smaller Some by unfold_locales blast
    show ?thesis unfolding Some validateValueStrict.simps(2) validateArrayStrict_eq
      by (auto intro!: points_leaf points_back.points_array [OF P] points_back.points_object [OF P]
          points_back.points_composition [OF P] points_back.points_conditional [OF P])
  qed simp
qed

interpretation lenient_points: points_back "validateValue L" s for L s
  by unfold_locales (rule points_lenient)

interpretation strict_points: points_back "validateValueStrict L" s for L s
  by unfold_locales (rule points_strict)

text \<open>Every error of the two validators points at the value under validation or inside it: its
  \<open>Field\<close> extends the path the validator was called with.\<close>

theorem errors_point_into_value:
  assumes "validateValue L d t p = Some e \<or> validateValueStrict L d t p = Some e"
  shows "prefix p (Field e)"
  using points_lenient [of p L d t] points_strict [of p L d t] assms by (auto simp: points_under_def)

theorem errors_point_into_value_witness:
  "prefix ''x'' (Field (ValidationError ''x'' (ExpectedType ''string'' ''<nil>'')))"
  by (rule errors_point_into_value
      [of plain_lib GNil "Some (scalar_schema (empty_base\<lparr>sType := ''string''\<rparr>))" "''x''"])
    (simp add: validateValue.simps(2) scalar_schema_def empty_base_def checkHead_def validateType_def)

section \<open>Strict and lenient\<close>

text \<open>No \<open>oneOf\<close> and no \<open>if\<close>, at any depth.\<close>

function no_choice :: "JSONSchema option \<Rightarrow> bool" where
  "no_choice None = True"
| "no_choice (Some s) = (OneOf s = [] \<and> IfS s = None \<and> (\<forall>t \<in> subs s. no_choice t))"
  by pat_completeness auto
termination
  by (relation "measure schema_depth") (auto dest: subs_smaller)

declare no_choice.simps(2) [simp del]

lemma array_ok_mono:
  "(\<And>e t. t \<in> subs s \<Longrightarrow> v e t \<Longrightarrow> w e t) \<Longrightarrow> array_ok v arr s \<Longrightarrow> array_ok w arr s"
  unfolding array_ok_def by (auto simp: subs_def)

lemma object_ok_mono:
  assumes "\<And>e t. t \<in> subs s \<Longrightarrow> v e t \<Longrightarrow> w e t" and "object_ok v True obj s"
  shows "object_ok w False obj s"
proof -
  have "w x t" if "(k, t) \<in> set (props s)" "gm_get obj k = Some x" for k t x
  proof (rule assms(1))
    show "t \<in> subs s" using that(1) by (force simp: subs_def)
    show "v x t" using assms(2) that by (auto simp: object_ok_def)
  qed
  with assms(2) show ?thesis by (auto simp: object_ok_def)
qed

lemma strict_implies_lenient:
  assumes "no_choice t" and "satisfies L True d t"
  shows "satisfies L False d t"
  using assms
proof (induction "schema_depth t" arbitrary: d t rule: less_induct)
  case less
  show ?case
  proof (cases t)
    case (Some s)
    have nc: "OneOf s = []" "IfS s = None" "\<forall>t \<in> subs s. no_choice t"
      using less.prems(1) by (simp_all add: Some no_choice.simps(2))
    have IH: "satisfies L False e u" if "u \<in> subs s" "satisfies L True e u" for e u
      using that nc(3) less.hyps subs_smaller Some by blast
    from less.prems(2) have st: "head_ok L d (base s)" "body_ok (satisfies L True) True d s"
      "comp_ok (satisfies L True) d s" by (simp_all add: Some satisfies.simps(2))
    have "body_ok (satisfies L False) False d s"
      using st(2) array_ok_mono [of s "satisfies L True" "satisfies L False"]
        object_ok_mono [of s "satisfies L True" "satisfies L False"] IH
      unfolding body_ok_def by simp
    moreover have "comp_ok (satisfies L False) d s"
      using st(3) nc(1,2) IH unfolding comp_ok_def by (auto simp: subs_def)
    ultimately show ?thesis using st(1) by (simp add: Some satisfies.simps(2))
  qed simp
qed

text \<open>C33. On a schema without \<open>oneOf\<close> and \<open>if\<close> the strict mode only refuses more: a value that
  \<open>validateValueStrict\<close> accepts is accepted by \<open>validateValue\<close>.\<close>

theorem strict_refines_lenient:
  assumes "no_choice t" and "validateValueStrict L d t p = None"
  shows "validateValue L d t p = None"
  using strict_implies_lenient [OF assms(1)] assms(2)
  by (simp add: validateValue_None validateValueStrict_None)

definition person :: JSONSchema where
  "person = object_schema (empty_base\<lparr>sType := ''object'', sRequired := [''name'']\<rparr>)
     [(''name'', Some (scalar_schema (empty_base\<lparr>sType := ''string''\<rparr>)))]"

lemmas schema_eval = validateValue.simps(2) validateValueStrict.simps(2) scalar_schema_def object_schema_def
  empty_base_def checkHead_def validateType_def validateObject_def validateComposition_def props_def
  validateString_def validateArray_def validateArrayStrict_def validateConditional_def validateNumber_def
  validateEnum_def validateConst_def subs_def gm_keys_def Let_def

theorem strict_refines_lenient_witness:
  "validateValue plain_lib (GMap [(''name'', GStr ''ada'')]) (Some person) [] = None"
  by (rule strict_refines_lenient) (simp_all add: person_def no_choice.simps(2) schema_eval gm_has_def)

definition either :: JSONSchema where
  "either = JSONSchema empty_base None None []
     [Some (object_schema (empty_base\<lparr>sType := ''object''\<rparr>) [(''name'', None)]),
      Some (scalar_schema (empty_base\<lparr>sType := ''object''\<rparr>))] [] [] [] None None None"

text \<open>With \<open>oneOf\<close> the strict mode can accept what the lenient mode refuses: of the alternatives
  "any object with properties drawn from name" and "any object", an object with an unknown key
  matches one when read strictly and both when read leniently.
\<close>

theorem strict_not_below_lenient_oneOf:
  "validateValueStrict L (GMap [(''age'', GNil)]) (Some either) [] = None \<and>
   validateValue L (GMap [(''age'', GNil)]) (Some either) [] = Some (ValidationError [] (OneOfCount 2))"
  by (simp add: either_def schema_eval gm_has_def)

section \<open>Native integers and closed objects\<close>

text \<open>A Go integer fails every schema that names a type, whatever the type: only a \<open>float64\<close>
  counts as a number. \<open>ValidateValue\<close> is documented to validate the native value "directly"
  because that "preserves native numeric types".
\<close>

theorem native_int_never_typed:
  assumes "sType (base s) \<noteq> []"
  shows "\<exists>m. ValidateValue L (GInt w) (Some s) = Some (ValidationError [] m)"
  using assms by (simp add: ValidateValue_def validateValue.simps(2) checkHead_def validateType_def Let_def)

theorem native_int_never_typed_witness:
  "\<exists>m. ValidateValue plain_lib (GInt 5) (Some (scalar_schema (empty_base\<lparr>sType := ''integer''\<rparr>)))
     = Some (ValidationError [] m)"
  by (rule native_int_never_typed) (simp add: scalar_schema_def empty_base_def)

text \<open>Unknown keys are refused exactly when the schema lists properties: with at least one listed
  property, strict mode or \<open>additionalProperties: false\<close> refuses an object with any other key;
  with none listed, the same flags let every object through.
\<close>

theorem unknown_keys_refused_iff_listed:
  assumes "strict \<or> sAdditionalProperties (base s) = Some False" and "sRequired (base s) = []"
    and "\<forall>(k, t) \<in> set (props s). t = None"
  shows "validateObject (if strict then validateValueStrict L else validateValue L) (GMap obj) s p strict = None
    \<longleftrightarrow> props s = [] \<or> set (gm_keys obj) \<subseteq> set (gm_keys (props s))"
proof -
  let ?w = "satisfies L strict"
  have "validateObject (if strict then validateValueStrict L else validateValue L) (GMap obj) s p strict = None
    \<longleftrightarrow> object_ok ?w strict obj s"
    using strict.object_None [of L "GMap obj" s p strict] lenient.object_None [of L "GMap obj" s p strict]
    by (cases strict) auto
  moreover have "\<forall>(k, t) \<in> set (props s). \<forall>v. gm_get obj k = Some v \<longrightarrow> ?w v t"
    using assms(3) by auto
  ultimately show ?thesis
    using assms(1,2) by (auto simp: object_ok_def gm_has_keys)
qed

theorem unknown_keys_refused_iff_listed_witness:
  "validateObject (if True then validateValueStrict plain_lib else validateValue plain_lib)
     (GMap [(''age'', GNil)]) (scalar_schema empty_base) [] True = None \<longleftrightarrow>
   props (scalar_schema empty_base) = [] \<or>
   set (gm_keys [(''age'', GNil)]) \<subseteq> set (gm_keys (props (scalar_schema empty_base)))"
  by (rule unknown_keys_refused_iff_listed) (simp_all add: scalar_schema_def empty_base_def props_def)

end
