(* ===== verification/Map_Store.thy ===== *)
theory Map_Store
  imports Go_Prelude
begin

text \<open>
  \<open>registry/skills/base.go\<close>: the generic key-value store \<open>MapStore\<close> the registries are built on, and
  the interface it offers them. A method that takes the lock runs as one atomic step, so each is a
  function from the old contents to the new ones and the result.
\<close>

section \<open>MapStore (base.go)\<close>

record 'v MapStore =
  store_data :: "(string, 'v) gomap"

definition NewMapStore :: "'v MapStore" where
  "NewMapStore = \<lparr>store_data = []\<rparr>"

definition Put :: "string \<Rightarrow> 'v \<Rightarrow> 'v MapStore \<Rightarrow> 'v MapStore" where
  "Put key v s = s\<lparr>store_data := gm_put key v (store_data s)\<rparr>"

definition PutIfAbsent :: "string \<Rightarrow> 'v \<Rightarrow> 'v MapStore \<Rightarrow> 'v MapStore \<times> bool" where
  "PutIfAbsent key v s =
     (if gm_has (store_data s) key then (s, False)
      else (s\<lparr>store_data := gm_put key v (store_data s)\<rparr>, True))"

definition Get :: "'v MapStore \<Rightarrow> string \<Rightarrow> 'v option" where
  "Get s key = gm_get (store_data s) key"

definition Delete :: "string \<Rightarrow> 'v MapStore \<Rightarrow> 'v MapStore" where
  "Delete key s = s\<lparr>store_data := gm_del key (store_data s)\<rparr>"

definition DeleteIfExists :: "string \<Rightarrow> 'v MapStore \<Rightarrow> 'v MapStore \<times> bool" where
  "DeleteIfExists key s =
     (if \<not> gm_has (store_data s) key then (s, False)
      else (s\<lparr>store_data := gm_del key (store_data s)\<rparr>, True))"

definition Len :: "'v MapStore \<Rightarrow> nat" where
  "Len s = length (store_data s)"

text \<open>\<open>ForEach\<close> hands each entry to a callback that accumulates into \<open>acc\<close>.\<close>

definition ForEach :: "(string \<Rightarrow> 'v \<Rightarrow> 'a \<Rightarrow> 'a) \<Rightarrow> 'v MapStore \<Rightarrow> 'a \<Rightarrow> 'a" where
  "ForEach fn s acc = fold (\<lambda>(k, v). fn k v) (store_data s) acc"

definition Snapshot :: "'v MapStore \<Rightarrow> (string, 'v) gomap" where
  "Snapshot s = fold (\<lambda>(k, v) cp. gm_put k v cp) (store_data s) []"

definition store_inv :: "'v MapStore \<Rightarrow> bool" where
  "store_inv s = gm_wf (store_data s)"

lemma ForEach_collect:
  "ForEach (\<lambda>k v acc. if P k v then acc @ [f k v] else acc) s acc =
     acc @ map (\<lambda>(k, v). f k v) (filter (\<lambda>(k, v). P k v) (store_data s))"
proof -
  have "fold (\<lambda>(k, v) acc. if P k v then acc @ [f k v] else acc) xs acc =
      acc @ map (\<lambda>(k, v). f k v) (filter (\<lambda>(k, v). P k v) xs)" for xs acc
    by (induction xs arbitrary: acc) auto
  then show ?thesis by (simp add: ForEach_def)
qed

lemma ForEach_map: "ForEach (\<lambda>k v acc. acc @ [f k v]) s acc = acc @ map (\<lambda>(k, v). f k v) (store_data s)"
  using ForEach_collect [of "\<lambda>k v. True" f s acc] by (simp add: case_prod_beta)

lemma Snapshot_eq:
  assumes "store_inv s"
  shows "Snapshot s = store_data s"
proof -
  have "fold (\<lambda>(k, v) cp. gm_put k v cp) xs ys = ys @ xs"
    if "distinct (map fst (ys @ xs))" for xs ys :: "(string, 'a) gomap"
    using that
  proof (induction xs arbitrary: ys)
    case (Cons x xs)
    have "\<not> gm_has ys (fst x)" using Cons.prems by (auto simp: gm_has_keys gm_keys_def)
    then have "gm_put (fst x) (snd x) ys = ys @ [x]" by (simp add: gm_put_new)
    with Cons show ?case by (simp add: case_prod_beta)
  qed simp
  from this [of "[]" "store_data s"] assms show ?thesis by (simp add: Snapshot_def store_inv_def gm_wf_def)
qed

section \<open>The interface of a keyed store\<close>

text \<open>
  What a client relies on: the invariant is kept, and a lookup after an insertion or a removal sees
  exactly that change.
\<close>

datatype ('k, 'v) store_op = Ins 'k 'v | Rem 'k

text \<open>The specification of a sequence of operations: the last one on a key decides.\<close>

fun last_write :: "('k, 'v) store_op list \<Rightarrow> 'k \<Rightarrow> 'v option \<Rightarrow> 'v option" where
  "last_write [] k old = old"
| "last_write (Ins k' v # ops) k old = last_write ops k (if k = k' then Some v else old)"
| "last_write (Rem k' # ops) k old = last_write ops k (if k = k' then None else old)"

fun run_ops :: "('k \<Rightarrow> 'v \<Rightarrow> 's \<Rightarrow> 's) \<Rightarrow> ('k \<Rightarrow> 's \<Rightarrow> 's) \<Rightarrow> ('k, 'v) store_op list \<Rightarrow> 's \<Rightarrow> 's" where
  "run_ops ins rem [] s = s"
| "run_ops ins rem (Ins k v # ops) s = run_ops ins rem ops (ins k v s)"
| "run_ops ins rem (Rem k # ops) s = run_ops ins rem ops (rem k s)"

locale keyed_store =
  fixes inv :: "'s \<Rightarrow> bool"
    and look :: "'s \<Rightarrow> 'k \<Rightarrow> 'v option"
    and ins :: "'k \<Rightarrow> 'v \<Rightarrow> 's \<Rightarrow> 's"
    and rem :: "'k \<Rightarrow> 's \<Rightarrow> 's"
  assumes inv_ins: "inv s \<Longrightarrow> inv (ins k v s)"
    and inv_rem: "inv s \<Longrightarrow> inv (rem k s)"
    and look_ins: "inv s \<Longrightarrow> look (ins k v s) k' = (if k' = k then Some v else look s k')"
    and look_rem: "inv s \<Longrightarrow> look (rem k s) k' = (if k' = k then None else look s k')"
begin

lemma run_inv: "inv s \<Longrightarrow> inv (run_ops ins rem ops s)"
proof (induction ops arbitrary: s)
  case (Cons o' ops)
  then show ?case by (cases o') (simp_all add: inv_ins inv_rem)
qed simp

lemma run_look: "inv s \<Longrightarrow> look (run_ops ins rem ops s) k = last_write ops k (look s k)"
proof (induction ops arbitrary: s)
  case (Cons o' ops)
  then show ?case
    by (cases o') (simp_all add: inv_ins inv_rem look_ins look_rem)
qed simp

lemma ins_rem: "inv s \<Longrightarrow> look s k = None \<Longrightarrow> look (rem k (ins k v s)) = look s"
  by (rule ext) (simp add: look_rem look_ins inv_ins)

end

text \<open>The guarded operations: insert only a new key, remove only an existing one, and say which.\<close>

locale guarded_store = keyed_store +
  fixes put_new :: "'b \<Rightarrow> 'c \<Rightarrow> 'a \<Rightarrow> 'a \<times> bool"
    and del_old :: "'b \<Rightarrow> 'a \<Rightarrow> 'a \<times> bool"
  assumes put_new: "inv s \<Longrightarrow> put_new k v s = (if look s k = None then (ins k v s, True) else (s, False))"
    and del_old: "inv s \<Longrightarrow> del_old k s = (if look s k = None then (s, False) else (rem k s, True))"
begin

lemma put_new_twice: "inv s \<Longrightarrow> put_new k w (fst (put_new k v s)) = (fst (put_new k v s), False)"
  by (simp add: put_new inv_ins look_ins)

lemma put_new_keeps: "inv s \<Longrightarrow> look s k' = Some w \<Longrightarrow> look (fst (put_new k v s)) k' = Some w"
  by (auto simp: put_new look_ins)

lemma put_del: "inv s \<Longrightarrow> look s k = None \<Longrightarrow> look (fst (del_old k (fst (put_new k v s)))) = look s"
  by (simp add: put_new del_old inv_ins look_ins ins_rem)

end

interpretation ms: guarded_store store_inv Get Put Delete PutIfAbsent DeleteIfExists
  by unfold_locales
    (auto simp: store_inv_def Get_def Put_def Delete_def PutIfAbsent_def DeleteIfExists_def gm_has_def)

end
