(* ===== verification/Policy_Enforcer.thy ===== *)
theory Policy_Enforcer
  imports Go_Strings Map_Store
begin

text \<open>
  \<open>control/policy/policy.go\<close>: the rule-based policy enforcer. Its state is the map from tenant to the
  map from rule id to rule; \<open>Evaluate\<close> ranges over a tenant's rules, sorts them by priority and lets
  the first matching rule with a known effect decide. \<open>sort.Slice\<close> is not stable and the map order
  is open: a stable sort of the list in its visiting order, for every visiting order of the same
  map, covers every result the two can produce.
\<close>

section \<open>State and rules\<close>

record PolicyRule =
  rID :: string
  rTenantID :: string
  rEffect :: string
  rAction :: string
  rResource :: string
  rConditions :: "(string, string) gomap"
  rPriority :: int

record Enforcer =
  rules :: "(string, (string, PolicyRule) gomap) gomap"

datatype policy_error =
    ContextRequired
  | TenantRequired
  | ActionRequired
  | DeniedBy string
  | RuleIDRequired
  | RuleExists string
  | RuleNotFound string

definition NewEnforcer :: Enforcer where
  "NewEnforcer = \<lparr>rules = []\<rparr>"

section \<open>Matching\<close>

definition matchAction :: "string \<Rightarrow> string \<Rightarrow> bool" where
  "matchAction pat action = (if pat = ''*'' then True else pat = action)"

definition matchResource :: "string \<Rightarrow> string \<Rightarrow> bool" where
  "matchResource pat resource =
     (if pat = ''*'' then True
      else if HasSuffix pat ''/*'' then
        (let pre = TrimSuffix pat ''/*'' in HasPrefix resource (pre @ ''/'') \<or> resource = pre)
      else pat = resource)"

definition matchTimeWindow :: "string \<Rightarrow> string \<Rightarrow> string \<Rightarrow> bool" where
  "matchTimeWindow after before currentTime =
     (if after > before then currentTime \<ge> after \<or> currentTime < before
      else currentTime \<ge> after \<and> currentTime < before)"

definition matchConditions :: "(string, string) gomap \<Rightarrow> (string, string) gomap \<Rightarrow> bool" where
  "matchConditions conditions attributes =
     (if length conditions = 0 then True
      else case (gm_get conditions ''time_after'', gm_get conditions ''time_before'') of
        (Some after, Some before) \<Rightarrow>
          (case gm_get attributes ''current_time'' of
             None \<Rightarrow> False
           | Some currentTime \<Rightarrow> matchTimeWindow after before currentTime)
      | _ \<Rightarrow> list_all (\<lambda>(key, val).
               key = ''time_after'' \<or> key = ''time_before'' \<or> gm_get attributes key = Some val) conditions)"

section \<open>The operations\<close>

fun decide :: "string \<Rightarrow> string \<Rightarrow> (string, string) gomap \<Rightarrow> PolicyRule list \<Rightarrow> policy_error option" where
  "decide action resource attributes [] = None"
| "decide action resource attributes (rule # rs) =
     (if \<not> matchAction (rAction rule) action then decide action resource attributes rs
      else if \<not> matchResource (rResource rule) resource then decide action resource attributes rs
      else if \<not> matchConditions (rConditions rule) attributes then decide action resource attributes rs
      else if rEffect rule = ''deny'' then Some (DeniedBy (rID rule))
      else if rEffect rule = ''allow'' then None
      else decide action resource attributes rs)"

definition tenantRules :: "Enforcer \<Rightarrow> string \<Rightarrow> (string, PolicyRule) gomap" where
  "tenantRules e tid = (case gm_get (rules e) tid of None \<Rightarrow> [] | Some rs \<Rightarrow> rs)"

text \<open>The first argument says whether a context was passed (\<open>ctx != nil\<close>).\<close>

definition Evaluate :: "bool \<Rightarrow> Enforcer \<Rightarrow> string \<Rightarrow> string \<Rightarrow> string \<Rightarrow> (string, string) gomap \<Rightarrow> policy_error option" where
  "Evaluate ctx e tenantID action resource attributes =
     (if \<not> ctx then Some ContextRequired
      else if tenantID = [] then Some TenantRequired
      else if action = [] then Some ActionRequired
      else if length (tenantRules e tenantID) = 0 then None
      else decide action resource attributes
             (sort_key (\<lambda>r. - rPriority r) (gm_vals (tenantRules e tenantID))))"

definition AddRule :: "PolicyRule \<Rightarrow> Enforcer \<Rightarrow> Enforcer \<times> policy_error option" where
  "AddRule rule e =
     (if rID rule = [] then (e, Some RuleIDRequired)
      else
        (let e1 = (if gm_has (rules e) (rTenantID rule) then e
                   else e\<lparr>rules := gm_put (rTenantID rule) [] (rules e)\<rparr>) in
         if gm_has (tenantRules e1 (rTenantID rule)) (rID rule) then (e1, Some (RuleExists (rID rule)))
         else (e1\<lparr>rules := gm_put (rTenantID rule)
                    (gm_put (rID rule) rule (tenantRules e1 (rTenantID rule))) (rules e1)\<rparr>, None)))"

definition RemoveRule :: "string \<Rightarrow> Enforcer \<Rightarrow> Enforcer \<times> policy_error option" where
  "RemoveRule ruleID e =
     (case find (\<lambda>(tid, rs). gm_has rs ruleID) (rules e) of
        None \<Rightarrow> (e, Some (RuleNotFound ruleID))
      | Some (tid, rs) \<Rightarrow> (e\<lparr>rules := gm_put tid (gm_del ruleID (tenantRules e tid)) (rules e)\<rparr>, None))"

definition ListRules :: "Enforcer \<Rightarrow> string \<Rightarrow> PolicyRule list" where
  "ListRules e tenantID =
     (if length (tenantRules e tenantID) = 0 then [] else gm_vals (tenantRules e tenantID))"

section \<open>Reachable states\<close>

inductive enforcer_step :: "Enforcer \<Rightarrow> Enforcer \<Rightarrow> bool" where
  add: "AddRule r e = (e', res) \<Longrightarrow> enforcer_step e e'"
| remove: "RemoveRule i e = (e', res) \<Longrightarrow> enforcer_step e e'"

inductive enforcer_reachable :: "Enforcer \<Rightarrow> bool" where
  start: "enforcer_reachable NewEnforcer"
| step: "enforcer_reachable e \<Longrightarrow> enforcer_step e e' \<Longrightarrow> enforcer_reachable e'"

inductive_cases enforcer_stepE: "enforcer_step e e'"

definition rules_ok :: "string \<Rightarrow> (string, PolicyRule) gomap \<Rightarrow> bool" where
  "rules_ok tid rs = (gm_wf rs \<and> (\<forall>(i, r) \<in> set rs. i \<noteq> [] \<and> rID r = i \<and> rTenantID r = tid))"

definition enforcer_inv :: "Enforcer \<Rightarrow> bool" where
  "enforcer_inv e = (gm_wf (rules e) \<and> (\<forall>(tid, rs) \<in> set (rules e). rules_ok tid rs))"

definition rule_at :: "Enforcer \<Rightarrow> string \<times> string \<Rightarrow> PolicyRule option" where
  "rule_at e k = gm_get (tenantRules e (fst k)) (snd k)"

section \<open>Evaluate follows the highest priority\<close>

definition applies :: "string \<Rightarrow> string \<Rightarrow> (string, string) gomap \<Rightarrow> PolicyRule \<Rightarrow> bool" where
  "applies action resource attributes r =
     (matchAction (rAction r) action \<and> matchResource (rResource r) resource \<and>
      matchConditions (rConditions r) attributes \<and> (rEffect r = ''deny'' \<or> rEffect r = ''allow''))"

lemma find_Some_setD: "find P xs = Some x \<Longrightarrow> x \<in> set xs \<and> P x"
  by (auto simp: find_Some_iff)

lemma find_sorted_least:
  assumes "find P (sort_key f xs) = Some x" and "y \<in> set xs" and "P y"
  shows "f x \<le> f y"
proof -
  have "f x \<le> f y" if "sorted (map f zs)" "find P zs = Some x" "y \<in> set zs" for zs
    using that \<open>P y\<close> by (induction zs) (auto split: if_splits)
  from this [of "sort_key f xs"] assms show ?thesis by simp
qed

lemma decide_find:
  "decide action resource attributes rs =
     (case find (applies action resource attributes) rs of
        None \<Rightarrow> None
      | Some r \<Rightarrow> if rEffect r = ''deny'' then Some (DeniedBy (rID r)) else None)"
  by (induction rs) (auto simp: applies_def)

definition candidates :: "Enforcer \<Rightarrow> string \<Rightarrow> string \<Rightarrow> string \<Rightarrow> (string, string) gomap \<Rightarrow> PolicyRule set" where
  "candidates e tid action resource attributes =
     {r \<in> set (ListRules e tid). applies action resource attributes r}"

definition tops :: "PolicyRule set \<Rightarrow> PolicyRule set" where
  "tops R = {r \<in> R. \<forall>r' \<in> R. rPriority r' \<le> rPriority r}"

lemma set_ListRules: "set (ListRules e tid) = set (gm_vals (tenantRules e tid))"
  by (simp add: ListRules_def gm_vals_def)

lemma Evaluate_find:
  assumes "ctx" "tid \<noteq> []" "action \<noteq> []"
  shows "Evaluate ctx e tid action resource attributes =
    (case find (applies action resource attributes)
            (sort_key (\<lambda>r. - rPriority r) (gm_vals (tenantRules e tid))) of
        None \<Rightarrow> None
      | Some r \<Rightarrow> if rEffect r = ''deny'' then Some (DeniedBy (rID r)) else None)"
  using assms by (simp add: Evaluate_def decide_find gm_vals_def)

lemma Evaluate_cases:
  fixes e resource attributes
  assumes "ctx" "tid \<noteq> []" "action \<noteq> []"
  defines "R \<equiv> candidates e tid action resource attributes"
  shows "R = {} \<and> Evaluate ctx e tid action resource attributes = None \<or>
    (\<exists>r \<in> tops R. Evaluate ctx e tid action resource attributes =
       (if rEffect r = ''deny'' then Some (DeniedBy (rID r)) else None))"
proof (cases "find (applies action resource attributes)
    (sort_key (\<lambda>r. - rPriority r) (gm_vals (tenantRules e tid)))")
  case None
  then have "R = {}" by (auto simp: R_def candidates_def set_ListRules find_None_iff)
  with None show ?thesis by (simp add: Evaluate_find [OF assms(1-3)])
next
  case (Some r)
  have "r \<in> R" using find_Some_setD [OF Some] by (simp add: R_def candidates_def set_ListRules)
  moreover have "rPriority r' \<le> rPriority r" if "r' \<in> R" for r'
    using find_sorted_least [OF Some, of r'] that by (simp add: R_def candidates_def set_ListRules)
  ultimately have "r \<in> tops R" by (simp add: tops_def)
  with Some show ?thesis by (auto simp: Evaluate_find [OF assms(1-3)])
qed

text \<open>C3. Given a context, a tenant and an action, \<open>Evaluate\<close> allows the request when no rule of
  the tenant applies to it, and otherwise answers with the effect of a rule of the highest priority
  among those that apply: the denial names a \<open>deny\<close> rule of that priority, and an allowance means
  an \<open>allow\<close> rule has it. (A rule applies when its action, resource and conditions match and its
  effect is \<open>deny\<close> or \<open>allow\<close>.)\<close>

theorem evaluate_highest_priority:
  assumes "tid \<noteq> []" "action \<noteq> []"
  shows "case Evaluate True e tid action resource attributes of
      None \<Rightarrow> candidates e tid action resource attributes = {} \<or>
        (\<exists>r \<in> tops (candidates e tid action resource attributes). rEffect r = ''allow'')
    | Some err \<Rightarrow> (\<exists>r \<in> tops (candidates e tid action resource attributes).
        rEffect r = ''deny'' \<and> err = DeniedBy (rID r))"
proof -
  have "rEffect r = ''deny'' \<or> rEffect r = ''allow''"
    if "r \<in> tops (candidates e tid action resource attributes)" for r
    using that by (simp add: tops_def candidates_def applies_def)
  then show ?thesis
    using Evaluate_cases [of True tid action e resource attributes] assms by (force split: option.splits)
qed

definition deny_all :: "string \<Rightarrow> PolicyRule" where
  "deny_all i = \<lparr>rID = i, rTenantID = ''t'', rEffect = ''deny'', rAction = ''*'', rResource = ''*'',
     rConditions = [], rPriority = 1\<rparr>"

definition one_rule :: Enforcer where
  "one_rule = \<lparr>rules = [(''t'', [(''d'', deny_all ''d'')])]\<rparr>"

lemmas policy_eval = Evaluate_def tenantRules_def one_rule_def deny_all_def gm_vals_def matchAction_def
  matchResource_def matchConditions_def

theorem evaluate_highest_priority_witness:
  "Evaluate True one_rule ''t'' ''skill.execute'' ''x'' [] = Some (DeniedBy ''d'') \<and>
   (case Evaluate True one_rule ''t'' ''skill.execute'' ''x'' [] of
      None \<Rightarrow> candidates one_rule ''t'' ''skill.execute'' ''x'' [] = {} \<or>
        (\<exists>r \<in> tops (candidates one_rule ''t'' ''skill.execute'' ''x'' []). rEffect r = ''allow'')
    | Some err \<Rightarrow> (\<exists>r \<in> tops (candidates one_rule ''t'' ''skill.execute'' ''x'' []).
        rEffect r = ''deny'' \<and> err = DeniedBy (rID r)))"
proof
  show "Evaluate True one_rule ''t'' ''skill.execute'' ''x'' [] = Some (DeniedBy ''d'')"
    by (simp add: policy_eval)
qed (rule evaluate_highest_priority; simp)

section \<open>Determinism\<close>

definition same_rules :: "Enforcer \<Rightarrow> Enforcer \<Rightarrow> string \<Rightarrow> bool" where
  "same_rules e e' tid = gm_same (tenantRules e tid) (tenantRules e' tid)"

lemma candidates_same:
  "same_rules e e' tid \<Longrightarrow>
     candidates e' tid action resource attributes = candidates e tid action resource attributes"
  by (auto simp: candidates_def set_ListRules same_rules_def dest: gm_same_vals mset_eq_setD)

text \<open>When no two applicable rules share a priority, the decision does not depend on the order
  in which Go ranges over the tenant's rules (nor on how the unstable sort breaks ties).\<close>

theorem evaluate_order_independent:
  assumes "same_rules e e' tid"
    and "inj_on rPriority (candidates e tid action resource attributes)"
  shows "Evaluate ctx e tid action resource attributes = Evaluate ctx e' tid action resource attributes"
proof (cases "ctx \<and> tid \<noteq> [] \<and> action \<noteq> []")
  case True
  let ?R = "candidates e tid action resource attributes"
  have one: "r = r'" if "r \<in> tops (candidates e tid action resource attributes)"
    "r' \<in> tops (candidates e tid action resource attributes)" for r r'
  proof (rule inj_onD [OF assms(2)])
    show "rPriority r = rPriority r'" using that by (intro order_antisym) (simp_all add: tops_def)
  qed (use that in \<open>simp_all add: tops_def\<close>)
  note ev = Evaluate_cases [of ctx tid action e resource attributes]
    Evaluate_cases [of ctx tid action e' resource attributes, unfolded candidates_same [OF assms(1)]]
  show ?thesis
  proof (cases "?R = {}")
    case False
    with ev True obtain r r' where r: "r \<in> tops ?R" "r' \<in> tops ?R"
      and eq: "Evaluate ctx e tid action resource attributes =
          (if rEffect r = ''deny'' then Some (DeniedBy (rID r)) else None)"
        "Evaluate ctx e' tid action resource attributes =
          (if rEffect r' = ''deny'' then Some (DeniedBy (rID r')) else None)"
      by blast
    show ?thesis unfolding eq one [OF r] ..
  qed (use ev True in \<open>simp add: tops_def\<close>)
qed (auto simp: Evaluate_def)

definition tied :: "int \<Rightarrow> bool \<Rightarrow> Enforcer" where
  "tied n b = (let d = (''d'', (deny_all ''d'')\<lparr>rPriority := n\<rparr>);
       a = (''a'', (deny_all ''a'')\<lparr>rEffect := ''allow''\<rparr>) in
     \<lparr>rules = [(''t'', if b then [d, a] else [a, d])]\<rparr>)"

theorem evaluate_order_independent_witness:
  "Evaluate True (tied 2 True) ''t'' ''a'' ''x'' [] = Evaluate True (tied 2 False) ''t'' ''a'' ''x'' []"
  by (rule evaluate_order_independent)
    (auto simp: same_rules_def gm_same_def gm_wf_def tenantRules_def tied_def Let_def candidates_def
      set_ListRules gm_vals_def inj_on_def deny_all_def)

text \<open>With a tie the outcome is open: an \<open>allow\<close> and a \<open>deny\<close> rule of equal priority, both
  matching, give a denial under one visiting order of the same rule map and an allowance under
  another.\<close>

theorem evaluate_tie_open:
  "same_rules (tied 1 True) (tied 1 False) ''t'' \<and>
   Evaluate True (tied 1 True) ''t'' ''a'' ''x'' [] = Some (DeniedBy ''d'') \<and>
   Evaluate True (tied 1 False) ''t'' ''a'' ''x'' [] = None"
  by (simp add: tied_def Let_def policy_eval same_rules_def gm_same_def gm_wf_def)

section \<open>The rule table as a keyed store\<close>

definition put_rule :: "string \<times> string \<Rightarrow> PolicyRule \<Rightarrow> Enforcer \<Rightarrow> Enforcer" where
  "put_rule k r e = e\<lparr>rules := gm_put (fst k) (gm_put (snd k) r (tenantRules e (fst k))) (rules e)\<rparr>"

definition del_rule :: "string \<times> string \<Rightarrow> Enforcer \<Rightarrow> Enforcer" where
  "del_rule k e = e\<lparr>rules := gm_put (fst k) (gm_del (snd k) (tenantRules e (fst k))) (rules e)\<rparr>"

lemma tenantRules_put [simp]:
  "tenantRules (e\<lparr>rules := gm_put t rs (rules e)\<rparr>) t' = (if t' = t then rs else tenantRules e t')"
  by (simp add: tenantRules_def)

interpretation rt: keyed_store "\<lambda>e. True" rule_at put_rule del_rule
  by unfold_locales (auto simp: rule_at_def put_rule_def del_rule_def prod_eq_iff)

lemma AddRule_cases:
  "AddRule r e =
     (if rID r = [] then (e, Some RuleIDRequired)
      else if rule_at e (rTenantID r, rID r) \<noteq> None then (e, Some (RuleExists (rID r)))
      else (put_rule (rTenantID r, rID r) r (if gm_has (rules e) (rTenantID r) then e
              else e\<lparr>rules := gm_put (rTenantID r) [] (rules e)\<rparr>), None))"
proof -
  have "tenantRules e (rTenantID r) = []" if "\<not> gm_has (rules e) (rTenantID r)"
    using that by (simp add: gm_has_def tenantRules_def)
  then show ?thesis
    by (auto simp: AddRule_def Let_def rule_at_def put_rule_def gm_has_def)
qed

lemma rule_at_fresh_tenant:
  "\<not> gm_has (rules e) t \<Longrightarrow> rule_at (e\<lparr>rules := gm_put t [] (rules e)\<rparr>) k = rule_at e k"
  by (simp add: rule_at_def gm_has_def) (simp add: tenantRules_def)

lemma RemoveRule_cases:
  obtains (absent) "RemoveRule i e = (e, Some (RuleNotFound i))" and "\<forall>(t, rs) \<in> set (rules e). \<not> gm_has rs i"
  | (found) t rs where "(t, rs) \<in> set (rules e)" "gm_has rs i" "RemoveRule i e = (del_rule (t, i) e, None)"
proof (cases "find (\<lambda>(tid, rs). gm_has rs i) (rules e)")
  case None
  then have "\<forall>(t, rs) \<in> set (rules e). \<not> gm_has rs i" by (auto simp: find_None_iff)
  with None show ?thesis by (intro absent) (simp_all add: RemoveRule_def)
next
  case (Some x)
  then show ?thesis
    using find_Some_setD [OF Some] by (cases x) (auto simp: RemoveRule_def del_rule_def intro: found)
qed

lemma tenantRules_ok: "enforcer_inv e \<Longrightarrow> rules_ok t (tenantRules e t)"
  by (auto simp: enforcer_inv_def tenantRules_def rules_ok_def [of _ "[]"] split: option.split dest!: gm_get_SomeD)

lemma enforcer_inv_put:
  "enforcer_inv e \<Longrightarrow> rules_ok t rs \<Longrightarrow> enforcer_inv (e\<lparr>rules := gm_put t rs (rules e)\<rparr>)"
  by (auto simp: enforcer_inv_def gm_put_set split: if_splits)

lemma rules_ok_put: "rules_ok t rs \<Longrightarrow> rTenantID r = t \<Longrightarrow> rID r \<noteq> [] \<Longrightarrow> rules_ok t (gm_put (rID r) r rs)"
  by (auto simp: rules_ok_def gm_put_set split: if_splits)

lemma rules_ok_del: "rules_ok t rs \<Longrightarrow> rules_ok t (gm_del i rs)"
  by (auto simp: rules_ok_def gm_del_set)

lemma AddRule_inv:
  assumes "enforcer_inv e"
  shows "enforcer_inv (fst (AddRule r e))"
proof (cases "rID r = [] \<or> rule_at e (rTenantID r, rID r) \<noteq> None")
  case False
  define e1 where "e1 = (if gm_has (rules e) (rTenantID r) then e
    else e\<lparr>rules := gm_put (rTenantID r) [] (rules e)\<rparr>)"
  have "enforcer_inv e1"
    using enforcer_inv_put [OF assms, of "rTenantID r" "[]"] assms by (simp add: e1_def rules_ok_def)
  then have "enforcer_inv (put_rule (rTenantID r, rID r) r e1)"
    unfolding put_rule_def fst_conv snd_conv
    using False by (intro enforcer_inv_put rules_ok_put tenantRules_ok) auto
  with False show ?thesis by (simp add: AddRule_cases e1_def)
qed (use assms in \<open>auto simp: AddRule_cases\<close>)

lemma RemoveRule_inv: "enforcer_inv e \<Longrightarrow> enforcer_inv (fst (RemoveRule i e))"
  by (cases rule: RemoveRule_cases [of i e])
    (auto simp: del_rule_def intro!: enforcer_inv_put rules_ok_del tenantRules_ok)

text \<open>In every state reachable from \<open>NewEnforcer\<close> by \<open>AddRule\<close> and \<open>RemoveRule\<close> the table is
  keyed by the rules' own identity: the map keys are distinct, every rule is stored under its
  \<open>TenantID\<close> and its non-empty \<open>ID\<close>.\<close>

theorem enforcer_invariant:
  assumes "enforcer_reachable e"
  shows "enforcer_inv e"
  using assms
proof (induction rule: enforcer_reachable.induct)
  case start
  then show ?case by (simp add: enforcer_inv_def NewEnforcer_def)
next
  case (step e e')
  from step(2,3) show ?case by (cases rule: enforcer_step.cases) (metis AddRule_inv RemoveRule_inv fst_conv)+
qed

theorem enforcer_invariant_witness: "enforcer_inv (fst (AddRule (deny_all ''d'') NewEnforcer))"
  by (rule enforcer_invariant, rule enforcer_reachable.step [OF enforcer_reachable.start],
      rule enforcer_step.add, rule prod.collapse [symmetric])

text \<open>\<open>AddRule\<close> stores exactly the new rule: it fails, changing no rule, when the id is empty or
  taken within the rule's own tenant, and otherwise afterwards the rule is found under its tenant
  and id while every other tenant and id finds what it found before. In particular adding a rule
  never changes a decision for another tenant.\<close>

theorem AddRule_exact:
  "(snd (AddRule r e) = None \<longleftrightarrow> rID r \<noteq> [] \<and> rule_at e (rTenantID r, rID r) = None) \<and>
   rule_at (fst (AddRule r e)) k =
     (if snd (AddRule r e) = None \<and> k = (rTenantID r, rID r) then Some r else rule_at e k) \<and>
   (tid = rTenantID r \<or>
    Evaluate ctx (fst (AddRule r e)) tid action resource attributes = Evaluate ctx e tid action resource attributes)"
proof (intro conjI)
  show "rule_at (fst (AddRule r e)) k =
     (if snd (AddRule r e) = None \<and> k = (rTenantID r, rID r) then Some r else rule_at e k)"
    by (auto simp: AddRule_cases rt.look_ins rule_at_fresh_tenant)
  have "tenantRules (fst (AddRule r e)) tid = tenantRules e tid" if "tid \<noteq> rTenantID r"
    using that by (simp add: AddRule_cases put_rule_def)
  then show "tid = rTenantID r \<or>
    Evaluate ctx (fst (AddRule r e)) tid action resource attributes = Evaluate ctx e tid action resource attributes"
    by (cases "tid = rTenantID r") (simp_all add: Evaluate_def)
qed (auto simp: AddRule_cases)

text \<open>\<open>RemoveRule\<close> removes one rule with the given id, of whichever tenant the map yields first,
  and fails exactly when no tenant has one; every other rule stays.\<close>

theorem RemoveRule_exact:
  assumes "enforcer_inv e"
  shows "(snd (RemoveRule i e) = None \<longleftrightarrow> (\<exists>t. rule_at e (t, i) \<noteq> None)) \<and>
    (snd (RemoveRule i e) = None \<longrightarrow>
      (\<exists>t. rule_at e (t, i) \<noteq> None \<and>
        (\<forall>k. rule_at (fst (RemoveRule i e)) k = (if k = (t, i) then None else rule_at e k))))"
proof (cases rule: RemoveRule_cases [of i e])
  case absent
  then have "rule_at e (t, i) = None" for t
    by (auto simp: rule_at_def tenantRules_def gm_has_def split: option.split dest!: gm_get_SomeD)
  with absent(1) show ?thesis by simp
next
  case (found t rs)
  from found(1) assms have "tenantRules e t = rs"
    by (simp add: enforcer_inv_def tenantRules_def gm_get_SomeI)
  with found(2) have "rule_at e (t, i) \<noteq> None" by (simp add: rule_at_def gm_has_def)
  with found(3) show ?thesis by (auto simp: rt.look_rem)
qed

definition shared_id :: "bool \<Rightarrow> Enforcer" where
  "shared_id b = (let t = (''t'', [(''d'', deny_all ''d'')]);
                      u = (''u'', [(''d'', (deny_all ''d'')\<lparr>rTenantID := ''u''\<rparr>)]) in
     \<lparr>rules = (if b then [t, u] else [u, t])\<rparr>)"

theorem RemoveRule_exact_witness:
  "snd (RemoveRule ''d'' (shared_id True)) = None \<and>
   (\<exists>t. rule_at (shared_id True) (t, ''d'') \<noteq> None \<and>
     (\<forall>k. rule_at (fst (RemoveRule ''d'' (shared_id True))) k =
       (if k = (t, ''d'') then None else rule_at (shared_id True) k)))"
proof -
  have "enforcer_inv (shared_id True)"
    by (simp add: enforcer_inv_def shared_id_def Let_def gm_wf_def rules_ok_def deny_all_def)
  moreover have "snd (RemoveRule ''d'' (shared_id True)) = None"
    by (simp add: shared_id_def Let_def RemoveRule_def gm_has_def)
  ultimately show ?thesis using RemoveRule_exact [of "shared_id True" "''d''"] by blast
qed

text \<open>Rule ids are scoped to a tenant when rules are added but not when they are removed: two
  tenants may hold a rule with the same id, and \<open>RemoveRule\<close> with that id lifts the denial of one
  tenant or of the other, depending on the visiting order of the same table.\<close>

theorem RemoveRule_crosses_tenants:
  "gm_same (rules (shared_id True)) (rules (shared_id False)) \<and>
   Evaluate True (fst (RemoveRule ''d'' (shared_id True))) ''t'' ''a'' ''x'' [] = None \<and>
   Evaluate True (fst (RemoveRule ''d'' (shared_id False))) ''t'' ''a'' ''x'' [] = Some (DeniedBy ''d'')"
  by (simp add: shared_id_def Let_def RemoveRule_def policy_eval gm_same_def gm_wf_def gm_has_def
      gm_del_def)

section \<open>Conditions\<close>

text \<open>The time windows from \<open>a\<close> to \<open>b\<close> and from \<open>b\<close> to \<open>a\<close>, for different bounds, split the
  day: every time is in exactly one of them, so an overnight window is the complement of the
  daytime one.\<close>

theorem time_window_complement:
  assumes "a \<noteq> b"
  shows "matchTimeWindow a b t \<longleftrightarrow> \<not> matchTimeWindow b a t"
  using assms by (auto simp: matchTimeWindow_def not_le not_less dest: order_antisym)

theorem time_window_complement_witness:
  "matchTimeWindow ''18:00'' ''09:00'' ''23:15'' \<longleftrightarrow> \<not> matchTimeWindow ''09:00'' ''18:00'' ''23:15''"
  by (rule time_window_complement) simp

text \<open>A rule with both time bounds checks nothing else: whatever its other conditions demand,
  it matches as soon as the current time is in the window. The function is documented to check
  that "all rule conditions match".\<close>

theorem time_window_masks_conditions:
  assumes "gm_get conditions ''time_after'' = Some a" "gm_get conditions ''time_before'' = Some b"
  shows "matchConditions conditions attributes \<longleftrightarrow>
    (\<exists>t. gm_get attributes ''current_time'' = Some t \<and> matchTimeWindow a b t)"
  using assms by (auto simp: matchConditions_def split: option.splits)

theorem time_window_masks_conditions_witness:
  "matchConditions [(''time_after'', ''09:00''), (''time_before'', ''17:00''), (''role'', ''admin'')]
     [(''role'', ''guest''), (''current_time'', ''12:00'')] \<longleftrightarrow>
   (\<exists>t. gm_get [(''role'', ''guest''), (''current_time'', ''12:00'')] ''current_time'' = Some t \<and>
      matchTimeWindow ''09:00'' ''17:00'' t)"
  by (rule time_window_masks_conditions) simp_all

end
