(* ===== verification/Template_Engine.thy ===== *)
theory Template_Engine
  imports Go_Value
begin

text \<open>
  \<open>execution/template/engine.go\<close>: resolution of \<open>{{step}}\<close> and \<open>{{step.field}}\<close> references against
  the results of earlier steps, and the coercion of numeric strings in tool arguments.
\<close>

section \<open>Finding references (templateRe)\<close>

text \<open>
  The expression is two braces, a word character, word characters, dots and dashes, two braces.
  Braces are not among the inner characters, so the inner run is the longest one and there is at
  most one match at a position; \<open>scan\<close> cuts a string into the leftmost non-overlapping matches and
  the bytes between them.
\<close>

definition word_char :: "char \<Rightarrow> bool" where
  "word_char c = (let b = of_char c :: nat in
     48 \<le> b \<and> b \<le> 57 \<or> 65 \<le> b \<and> b \<le> 90 \<or> 97 \<le> b \<and> b \<le> 122 \<or> b = 95)"

definition inner_char :: "char \<Rightarrow> bool" where
  "inner_char c = (word_char c \<or> c = CHR ''.'' \<or> c = CHR ''-'')"

datatype piece = Lit char | Ref string

definition match_ref :: "string \<Rightarrow> (string \<times> string) option" where
  "match_ref s =
     (if HasPrefix s ''{{'' then
        (let body = drop 2 s; content = takeWhile inner_char body; rest = dropWhile inner_char body in
         if content \<noteq> [] \<and> word_char (hd content) \<and> HasPrefix rest ''}}'' then Some (content, drop 2 rest)
         else None)
      else None)"

lemma match_ref_split: "match_ref s = Some (content, rest) \<Longrightarrow> s = ''{{'' @ content @ ''}}'' @ rest"
  by (auto simp: match_ref_def Let_def HasPrefix_iff split: if_splits)
    (metis append_Cons append_Nil takeWhile_dropWhile_id append_assoc)

lemma match_ref_length: "match_ref s = Some (content, rest) \<Longrightarrow> length rest < length s"
  by (drule match_ref_split) simp

function scan :: "string \<Rightarrow> piece list" where
  "scan s = (case s of [] \<Rightarrow> [] | c # t \<Rightarrow>
     (case match_ref s of Some (content, rest) \<Rightarrow> Ref content # scan rest | None \<Rightarrow> Lit c # scan t))"
  by pat_completeness auto
termination
  by (relation "measure length") (auto dest: match_ref_length)

declare scan.simps [simp del]

fun ref_of :: "piece \<Rightarrow> string option" where
  "ref_of (Lit c) = None"
| "ref_of (Ref content) = Some content"

definition refs :: "string \<Rightarrow> string list" where
  "refs s = List.map_filter ref_of (scan s)"

fun source_of :: "piece \<Rightarrow> string" where
  "source_of (Lit c) = [c]"
| "source_of (Ref content) = ''{{'' @ content @ ''}}''"

section \<open>Step names and fields\<close>

text \<open>\<open>strings.LastIndex\<close> of the dot, with the two halves it separates.\<close>

fun split_last_dot :: "string \<Rightarrow> (string \<times> string) option" where
  "split_last_dot [] = None"
| "split_last_dot (c # s) = (case split_last_dot s of
     Some (a, b) \<Rightarrow> Some (c # a, b)
   | None \<Rightarrow> if c = CHR ''.'' then Some ([], s) else None)"

lemma split_last_dot_Some: "split_last_dot s = Some (a, b) \<Longrightarrow> s = a @ CHR ''.'' # b \<and> CHR ''.'' \<notin> set b"
proof (induction s arbitrary: a b)
  case (Cons c s)
  have "CHR ''.'' \<notin> set s" if "split_last_dot s = None" for s
    using that by (induction s) (auto split: option.splits if_splits)
  with Cons show ?case by (auto split: option.splits if_splits)
qed simp

lemma split_last_dot_None: "split_last_dot s = None \<longleftrightarrow> CHR ''.'' \<notin> set s"
  by (induction s) (auto split: option.splits)

function shorter_prefix :: "(string, 'v) gomap \<Rightarrow> string \<Rightarrow> string \<Rightarrow> (string \<times> string) option" where
  "shorter_prefix results candidate candidateField =
     (case split_last_dot candidate of
        None \<Rightarrow> None
      | Some (shorter, seg) \<Rightarrow>
          (let candidateField' = seg @ ''.'' @ candidateField in
           if gm_has results shorter then Some (shorter, candidateField')
           else shorter_prefix results shorter candidateField'))"
  by pat_completeness auto
termination
  by (relation "measure (\<lambda>(r, c, f). length c)") (auto dest!: split_last_dot_Some)

declare shorter_prefix.simps [simp del]

definition resolveTemplateContent :: "string \<Rightarrow> (string, 'v) gomap \<Rightarrow> string \<times> string" where
  "resolveTemplateContent content results =
     (if gm_has results content then (content, [])
      else case split_last_dot content of
        None \<Rightarrow> (content, [])
      | Some (candidate, candidateField) \<Rightarrow>
          if gm_has results candidate then (candidate, candidateField)
          else (case shorter_prefix results candidate candidateField of
                  Some r \<Rightarrow> r
                | None \<Rightarrow> (content, [])))"

definition sorted_keys :: "(string, 'v) gomap \<Rightarrow> string list" where
  "sorted_keys m = sort (gm_keys m)"

datatype field_error =
    CannotIndex string string string
  | FieldNotFound string "string list"

fun walk_field :: "string \<Rightarrow> string list \<Rightarrow> string list \<Rightarrow> goval \<Rightarrow> field_error + goval" where
  "walk_field field seen [] current = Inr current"
| "walk_field field seen (f # fs) current = (case current of
     GMap m \<Rightarrow> (case gm_get m f of
        None \<Rightarrow> Inl (FieldNotFound f (sorted_keys m))
      | Some v \<Rightarrow> walk_field field (seen @ [f]) fs v)
   | _ \<Rightarrow> Inl (CannotIndex field (typeName current) (Join seen ''.'')))"

definition extractField :: "goval \<Rightarrow> string \<Rightarrow> field_error + goval" where
  "extractField res field = walk_field field [] (Split field (CHR ''.'')) res"

section \<open>Resolve\<close>

definition stringifyValue :: "stdlib \<Rightarrow> goval \<Rightarrow> string" where
  "stringifyValue L v = (case v of
     GStr s \<Rightarrow> s
   | GMap _ \<Rightarrow> (case json_marshal L v of None \<Rightarrow> fmt_v L v | Some b \<Rightarrow> b)
   | GList _ \<Rightarrow> (case json_marshal L v of None \<Rightarrow> fmt_v L v | Some b \<Rightarrow> b)
   | _ \<Rightarrow> fmt_v L v)"

definition stringifyComplex :: "stdlib \<Rightarrow> goval \<Rightarrow> goval" where
  "stringifyComplex L v = (case v of
     GStr s \<Rightarrow> GStr s
   | GMap _ \<Rightarrow> (case json_marshal L v of None \<Rightarrow> GStr (fmt_v L v) | Some b \<Rightarrow> GStr b)
   | GList _ \<Rightarrow> (case json_marshal L v of None \<Rightarrow> GStr (fmt_v L v) | Some b \<Rightarrow> GStr b)
   | _ \<Rightarrow> GStr (fmt_v L v))"

datatype ref_error = StepNotFound string | BadField field_error

datatype template_error =
    StepMissing string "string list"
  | FieldFailed string field_error
  | Unresolved string "ref_error list"

text \<open>The value a reference stands for; shared by the two branches of \<open>Resolve\<close>.\<close>

definition lookup_ref :: "(string, goval) gomap \<Rightarrow> string \<Rightarrow> ref_error + goval" where
  "lookup_ref results content =
     (let (stepName, field) = resolveTemplateContent content results in
      case gm_get results stepName of
        None \<Rightarrow> Inl (StepNotFound stepName)
      | Some res \<Rightarrow>
          if field \<noteq> [] then
            (case extractField res field of Inl e \<Rightarrow> Inl (BadField e) | Inr v \<Rightarrow> Inr v)
          else Inr res)"

fun replace_pieces :: "stdlib \<Rightarrow> (string, goval) gomap \<Rightarrow> piece list \<Rightarrow> ref_error list \<times> string" where
  "replace_pieces L results [] = ([], [])"
| "replace_pieces L results (Lit c # ps) =
     (let (errs, out) = replace_pieces L results ps in (errs, c # out))"
| "replace_pieces L results (Ref content # ps) =
     (let (errs, out) = replace_pieces L results ps in
      case lookup_ref results content of
        Inl e \<Rightarrow> (e # errs, source_of (Ref content) @ out)
      | Inr v \<Rightarrow> (errs, stringifyValue L v @ out))"

definition Resolve :: "stdlib \<Rightarrow> string \<Rightarrow> (string, goval) gomap \<Rightarrow> template_error + goval" where
  "Resolve L s results =
     (if \<not> Contains s ''{{'' \<or> length results = 0 then Inr (GStr s)
      else if refs s = [] then Inr (GStr s)
      else case scan s of
        [Ref content] \<Rightarrow>
          (case lookup_ref results content of
             Inl (StepNotFound stepName) \<Rightarrow> Inl (StepMissing stepName (sorted_keys results))
           | Inl (BadField e) \<Rightarrow> Inl (FieldFailed s e)
           | Inr v \<Rightarrow> Inr (stringifyComplex L v))
      | ps \<Rightarrow>
          (let (errs, out) = replace_pieces L results ps in
           if length errs > 0 then Inl (Unresolved s errs) else Inr (GStr out)))"

text \<open>The results map built from the known names binds every one of them, whatever its flag.\<close>

fun collect_steps :: "(string, bool) gomap \<Rightarrow> string list \<Rightarrow> string list \<Rightarrow> string list \<Rightarrow> string list" where
  "collect_steps known seen out [] = out"
| "collect_steps known seen out (content # cs) =
     (let stepName = fst (resolveTemplateContent content known) in
      if stepName = [] \<or> gm_get known stepName \<noteq> Some True \<or> stepName \<in> set seen
      then collect_steps known seen out cs
      else collect_steps known (stepName # seen) (out @ [stepName]) cs)"

definition ExtractReferencedSteps :: "string \<Rightarrow> (string, bool) gomap \<Rightarrow> string list" where
  "ExtractReferencedSteps s known =
     (if \<not> Contains s ''{{'' \<or> length known = 0 then []
      else if refs s = [] then []
      else collect_steps known [] [] (refs s))"

section \<open>Coercion of strings to numbers\<close>

definition digit_tail :: "string \<Rightarrow> string" where
  "digit_tail s = (case s of c # t \<Rightarrow> if c = CHR ''-'' then t else s | [] \<Rightarrow> [])"

text \<open>\<open>int64\<close> arithmetic wraps; a leading minus sign alone passes the digit check.\<close>

definition tryParseInt :: "string \<Rightarrow> 64 word option" where
  "tryParseInt s =
     (if length s = 0 then None
      else if \<not> list_all is_digit (digit_tail s) then None
      else (let n = foldl (\<lambda>n c. if c = CHR ''-'' then n else n * 10 + of_nat (digit_val c)) (0 :: 64 word) s in
            Some (if hd s = CHR ''-'' then - n else n)))"

definition one_dot_digits :: "string \<Rightarrow> bool" where
  "one_dot_digits s = (list_all (\<lambda>c. is_digit c \<or> c = CHR ''.'') (digit_tail s) \<and>
     length (filter (\<lambda>c. c = CHR ''.'') (digit_tail s)) = 1)"

definition tryParseFloat :: "stdlib \<Rightarrow> string \<Rightarrow> gofloat option" where
  "tryParseFloat L s =
     (if length s = 0 then None
      else if \<not> one_dot_digits s then None
      else
        (let neg = (hd s = CHR ''-'');
             body = (if neg then tl s else s);
             whole = takeWhile (\<lambda>c. c \<noteq> CHR ''.'') body;
             decimals = drop 1 (dropWhile (\<lambda>c. c \<noteq> CHR ''.'') body);
             val = foldl (\<lambda>v c. float_add L (float_mul L v (FFin 10)) (FFin (of_nat (digit_val c)))) (FFin 0) whole;
             frac = fst (foldl (\<lambda>(fr, dv) c. (float_add L fr (float_div L (FFin (of_nat (digit_val c))) dv),
                        float_mul L dv (FFin 10))) (FFin 0, FFin 10) decimals);
             total = float_add L val frac
         in Some (if neg then float_neg total else total)))"

definition tryParseBool :: "string \<Rightarrow> bool option" where
  "tryParseBool s = (if s = ''true'' then Some True else if s = ''false'' then Some False else None)"

definition coerce_value :: "stdlib \<Rightarrow> goval \<Rightarrow> goval \<times> nat" where
  "coerce_value L val = (case val of
     GStr s \<Rightarrow>
       (case tryParseInt s of Some v \<Rightarrow> (GInt v, 1)
        | None \<Rightarrow> (case tryParseFloat L s of Some v \<Rightarrow> (GFloat v, 1)
        | None \<Rightarrow> (case tryParseBool s of Some v \<Rightarrow> (GBool v, 1)
        | None \<Rightarrow> (val, 0))))
   | _ \<Rightarrow> (val, 0))"

text \<open>The arguments are updated in place; the result is the new map and the count.\<close>

definition CoerceStringNumbers :: "stdlib \<Rightarrow> (string, goval) gomap \<Rightarrow> (string, goval) gomap \<times> nat" where
  "CoerceStringNumbers L args =
     (map (\<lambda>(k, v). (k, fst (coerce_value L v))) args,
      sum_list (map (\<lambda>(k, v). snd (coerce_value L v)) args))"

end
