(* ===== verification/Template_Properties.thy ===== *)
theory Template_Properties
  imports Template_Engine
begin

text \<open>
  The properties of the template engine: which step a reference names, when \<open>Resolve\<close> succeeds and
  with what, which steps \<open>ExtractReferencedSteps\<close> reports, and what coercion does to numbers.
\<close>

section \<open>The scanner\<close>

lemma scan_Nil [simp]: "scan [] = []"
  by (simp add: scan.simps)

lemma scan_Cons:
  "scan (c # t) = (case match_ref (c # t) of Some (content, rest) \<Rightarrow> Ref content # scan rest | None \<Rightarrow> Lit c # scan t)"
  by (subst scan.simps) simp

lemma scan_induct [case_names Nil Lit Ref]:
  assumes "P []"
    and "\<And>c t. match_ref (c # t) = None \<Longrightarrow> P t \<Longrightarrow> P (c # t)"
    and "\<And>s content rest. match_ref s = Some (content, rest) \<Longrightarrow> P rest \<Longrightarrow> P s"
  shows "P s"
proof (induction s rule: length_induct)
  case (1 s)
  show ?case
  proof (cases "match_ref s")
    case None
    with 1 assms(1,2) show ?thesis by (cases s) auto
  next
    case (Some cr)
    with 1 assms(3) match_ref_length show ?thesis by (cases cr) blast
  qed
qed

lemma scan_Ref: "match_ref s = Some (content, rest) \<Longrightarrow> scan s = Ref content # scan rest"
  by (cases s) (auto simp: scan_Cons match_ref_def HasPrefix_def)

lemma scan_Lit: "match_ref (c # t) = None \<Longrightarrow> scan (c # t) = Lit c # scan t"
  by (simp add: scan_Cons)

lemma scan_source: "concat (map source_of (scan s)) = s"
proof (induction s rule: scan_induct)
  case (Ref s content rest)
  then show ?case by (simp add: scan_Ref match_ref_split [OF Ref(1)])
qed (simp_all add: scan_Lit)

lemma match_ref_word: "match_ref s = Some (content, rest) \<Longrightarrow> content \<noteq> [] \<and> word_char (hd content)"
  by (auto simp: match_ref_def Let_def split: if_splits)

lemma scan_ref_word: "Ref content \<in> set (scan s) \<Longrightarrow> content \<noteq> [] \<and> word_char (hd content)"
proof (induction s rule: scan_induct)
  case (Ref s content' rest)
  then show ?case using match_ref_word [OF Ref(1)] by (auto simp: scan_Ref)
qed (simp_all add: scan_Lit)

lemma set_refs: "set (refs s) = {c. Ref c \<in> set (scan s)}"
proof -
  have "set (List.map_filter ref_of ps) = {c. Ref c \<in> set ps}" for ps
  proof (induction ps)
    case (Cons p ps)
    then show ?case by (cases p) (auto simp: List.map_filter_def)
  qed (simp add: List.map_filter_def)
  then show ?thesis by (simp add: refs_def)
qed

lemma refs_Nil_iff: "refs s = [] \<longleftrightarrow> (\<forall>c. Ref c \<notin> set (scan s))"
  using set_refs [of s] by (metis empty_Collect_eq set_empty)

lemma refs_need_braces: "refs s \<noteq> [] \<Longrightarrow> Contains s ''{{''"
proof -
  assume "refs s \<noteq> []"
  then obtain c where "Ref c \<in> set (scan s)" by (auto simp: refs_Nil_iff)
  then obtain xs ys where "scan s = xs @ Ref c # ys" by (meson split_list)
  then have "s = concat (map source_of xs) @ ''{{'' @ c @ ''}}'' @ concat (map source_of ys)"
    using scan_source [of s] by simp
  then show ?thesis unfolding Contains_iff by (metis append_assoc)
qed

section \<open>The step a reference names\<close>

definition dotted_prefixes :: "string \<Rightarrow> string set" where
  "dotted_prefixes s = {n. n = s \<or> (\<exists>f. s = n @ CHR ''.'' # f)}"

lemma last_dot_prefix:
  assumes "split_last_dot s = Some (a, b)" and "s = n @ CHR ''.'' # f"
  shows "(n = a \<and> f = b) \<or> (\<exists>g. a = n @ CHR ''.'' # g)"
proof -
  from split_last_dot_Some [OF assms(1)] have s: "s = a @ CHR ''.'' # b" and nb: "CHR ''.'' \<notin> set b" by auto
  from s assms(2) consider us where "a = n @ us" "us @ CHR ''.'' # b = CHR ''.'' # f"
    | us where "a @ us = n" "CHR ''.'' # b = us @ CHR ''.'' # f"
    by (auto simp: append_eq_append_conv2)
  then show ?thesis
  proof cases
    case (1 us)
    then show ?thesis by (cases us) auto
  next
    case (2 us)
    with nb show ?thesis by (cases us) auto
  qed
qed

lemma dotted_prefixes_dot:
  assumes "split_last_dot s = Some (a, b)"
  shows "dotted_prefixes s = insert s (dotted_prefixes a)"
  using last_dot_prefix [OF assms] split_last_dot_Some [OF assms]
  by (auto simp: dotted_prefixes_def)

lemma dotted_prefixes_no_dot: "split_last_dot s = None \<Longrightarrow> dotted_prefixes s = {s}"
  by (auto simp: dotted_prefixes_def split_last_dot_None)

lemma dotted_prefixes_length: "n \<in> dotted_prefixes s \<Longrightarrow> length n \<le> length s"
  by (auto simp: dotted_prefixes_def)

lemma shorter_prefix_None:
  "shorter_prefix results cand fld = None \<longleftrightarrow> (\<forall>n \<in> dotted_prefixes cand - {cand}. \<not> gm_has results n)"
proof (induction results cand fld rule: shorter_prefix.induct)
  case (1 results cand fld)
  show ?case
  proof (cases "split_last_dot cand")
    case None
    then show ?thesis by (simp add: shorter_prefix.simps dotted_prefixes_no_dot)
  next
    case (Some ab)
    then obtain a b where ab: "split_last_dot cand = Some (a, b)" by (cases ab) auto
    from split_last_dot_Some [OF ab] have neq: "cand \<notin> dotted_prefixes a"
      using dotted_prefixes_length by fastforce
    have a: "a \<in> dotted_prefixes a" by (simp add: dotted_prefixes_def)
    show ?thesis
    proof (cases "gm_has results a")
      case True
      with a ab neq show ?thesis
        by (auto simp: shorter_prefix.simps [of results cand] dotted_prefixes_dot [OF ab] Let_def)
    next
      case False
      from 1 [OF ab refl refl False] False ab neq show ?thesis
        by (auto simp: shorter_prefix.simps [of results cand] dotted_prefixes_dot [OF ab] Let_def)
    qed
  qed
qed

lemma shorter_prefix_Some:
  "shorter_prefix results cand fld = Some (n, f) \<Longrightarrow>
     gm_has results n \<and> cand @ CHR ''.'' # fld = n @ CHR ''.'' # f \<and> n \<in> dotted_prefixes cand \<and>
     (\<forall>m \<in> dotted_prefixes cand - {cand}. gm_has results m \<longrightarrow> length m \<le> length n)"
proof (induction results cand fld rule: shorter_prefix.induct)
  case (1 results cand fld)
  from 1(2) obtain a b where ab: "split_last_dot cand = Some (a, b)"
    by (cases "split_last_dot cand") (auto simp: shorter_prefix.simps [of results cand])
  note cand = split_last_dot_Some [OF ab]
  show ?case
  proof (cases "gm_has results a")
    case True
    with 1(2) ab have nf: "n = a" "f = b @ ''.'' @ fld" by (auto simp: shorter_prefix.simps [of results cand])
    have "a \<in> dotted_prefixes cand" using cand by (simp add: dotted_prefixes_def)
    moreover have "length m \<le> length a" if "m \<in> dotted_prefixes cand - {cand}" for m
      using that dotted_prefixes_length [of m a] by (simp add: dotted_prefixes_dot [OF ab])
    ultimately show ?thesis using nf True cand by simp
  next
    case False
    with 1(2) ab have "shorter_prefix results a (b @ ''.'' @ fld) = Some (n, f)"
      by (simp add: shorter_prefix.simps [of results cand])
    note IH = 1(1) [OF ab refl refl False this]
    have "length m \<le> length n" if "m \<in> dotted_prefixes cand - {cand}" "gm_has results m" for m
      using that IH False by (cases "m = a") (auto simp: dotted_prefixes_dot [OF ab])
    moreover have "n \<in> dotted_prefixes cand" using IH by (simp add: dotted_prefixes_dot [OF ab])
    ultimately show ?thesis using IH cand by simp
  qed
qed

lemma named_step_longest:
  assumes "resolveTemplateContent content results = (n, f)"
  shows "if \<exists>m \<in> dotted_prefixes content. gm_has results m
    then gm_has results n \<and> (content = n \<and> f = [] \<or> content = n @ CHR ''.'' # f) \<and>
      (\<forall>m \<in> dotted_prefixes content. gm_has results m \<longrightarrow> length m \<le> length n)
    else n = content \<and> f = []"
proof (cases "gm_has results content")
  case True
  with assms show ?thesis
    by (auto simp: resolveTemplateContent_def intro: dotted_prefixes_length)
next
  case False
  show ?thesis
  proof (cases "split_last_dot content")
    case None
    with False assms show ?thesis by (simp add: resolveTemplateContent_def dotted_prefixes_no_dot)
  next
    case (Some ab)
    then obtain a b where ab: "split_last_dot content = Some (a, b)" by (cases ab) auto
    have a: "a \<in> dotted_prefixes a" by (simp add: dotted_prefixes_def)
    note dp = dotted_prefixes_dot [OF ab] and split = split_last_dot_Some [OF ab]
    show ?thesis
    proof (cases "gm_has results a")
      case True
      with False ab assms have "n = a" "f = b" by (simp_all add: resolveTemplateContent_def)
      with True False a dp split show ?thesis by (auto intro: dotted_prefixes_length)
    next
      case na: False
      show ?thesis
      proof (cases "shorter_prefix results a b")
        case None
        with na False ab assms have "n = content" "f = []" by (simp_all add: resolveTemplateContent_def)
        with None na False dp show ?thesis by (auto simp: shorter_prefix_None)
      next
        case (Some nf)
        with na False ab assms have nf: "shorter_prefix results a b = Some (n, f)"
          by (simp add: resolveTemplateContent_def)
        from shorter_prefix_Some [OF nf] na False dp split show ?thesis by auto
      qed
    qed
  qed
qed

text \<open>A reference names the longest dotted prefix of its content that is a known step, and the
  rest after the dot is the field; without any known prefix the whole content is taken as a step
  name. So \<open>{{mcp.his.query}}\<close> finds the step \<open>mcp.his.query\<close> before the field \<open>query\<close> of the step
  \<open>mcp.his\<close>.\<close>

theorem resolveTemplateContent_longest:
  assumes "resolveTemplateContent content results = (n, f)"
  shows "if \<exists>m \<in> dotted_prefixes content. gm_has results m
    then gm_has results n \<and> (content = n \<and> f = [] \<or> content = n @ CHR ''.'' # f) \<and>
      (\<forall>m \<in> dotted_prefixes content. gm_has results m \<longrightarrow> length m \<le> length n)
    else n = content \<and> f = []"
  using assms by (rule named_step_longest)

theorem resolveTemplateContent_longest_witness:
  "if \<exists>m \<in> dotted_prefixes ''a.b.c''. gm_has [(''a'', GNil), (''a.b'', GNil)] m
    then gm_has [(''a'', GNil), (''a.b'', GNil)] ''a.b'' \<and>
      (''a.b.c'' = ''a.b'' \<and> ''c'' = [] \<or> ''a.b.c'' = ''a.b'' @ CHR ''.'' # ''c'') \<and>
      (\<forall>m \<in> dotted_prefixes ''a.b.c''. gm_has [(''a'', GNil), (''a.b'', GNil)] m \<longrightarrow> length m \<le> length ''a.b'')
    else ''a.b'' = ''a.b.c'' \<and> ''c'' = []"
  by (rule resolveTemplateContent_longest) (simp add: resolveTemplateContent_def gm_has_def)

section \<open>What Resolve returns\<close>

lemmas template_eval = Resolve_def refs_def scan_Cons match_ref_def HasPrefix_def inner_char_def word_char_def
  lookup_ref_def resolveTemplateContent_def stringifyComplex_def stringifyValue_def gm_has_def
  List.map_filter_def Let_def

definition resolvable :: "(string, goval) gomap \<Rightarrow> string \<Rightarrow> bool" where
  "resolvable results c = (\<exists>v. lookup_ref results c = Inr v)"

fun render :: "stdlib \<Rightarrow> (string, goval) gomap \<Rightarrow> piece \<Rightarrow> string" where
  "render L results (Lit c) = [c]"
| "render L results (Ref c) = (case lookup_ref results c of Inr v \<Rightarrow> stringifyValue L v | Inl e \<Rightarrow> source_of (Ref c))"

lemma stringifyComplex_string: "stringifyComplex L v = GStr (stringifyValue L v)"
  by (cases v) (simp_all add: stringifyComplex_def stringifyValue_def split: option.split)

lemma replace_pieces_out: "snd (replace_pieces L results ps) = concat (map (render L results) ps)"
  by (induction ps rule: replace_pieces.induct [of "\<lambda>_ _ ps. Q ps" for Q])
    (auto simp: Let_def case_prod_beta split: sum.split)

lemma replace_pieces_errs: "fst (replace_pieces L results ps) = [] \<longleftrightarrow> (\<forall>c. Ref c \<in> set ps \<longrightarrow> resolvable results c)"
proof (induction ps)
  case (Cons p ps)
  show ?case
  proof (cases p)
    case (Ref c)
    with Cons show ?thesis
      by (cases "lookup_ref results c") (auto simp: resolvable_def case_prod_beta Let_def)
  qed (use Cons in \<open>simp add: case_prod_beta Let_def\<close>)
qed simp

lemma render_no_refs: "refs s = [] \<Longrightarrow> concat (map (render L results) (scan s)) = s"
proof -
  assume "refs s = []"
  then have "render L results p = source_of p" if "p \<in> set (scan s)" for p
    using that by (cases p) (auto simp: refs_Nil_iff)
  then have "map (render L results) (scan s) = map source_of (scan s)" by simp
  then show ?thesis by (simp add: scan_source del: map_eq_conv)
qed

lemma Resolve_eq:
  assumes "results \<noteq> []"
  shows "(\<forall>c \<in> set (refs s). resolvable results c) \<and>
      Resolve L s results = Inr (GStr (concat (map (render L results) (scan s)))) \<or>
    (\<exists>c \<in> set (refs s). \<not> resolvable results c) \<and> (\<exists>e. Resolve L s results = Inl e)"
proof (cases "refs s = []")
  case True
  then show ?thesis by (auto simp: Resolve_def render_no_refs)
next
  case False
  then have unguard: "Contains s ''{{''" by (rule refs_need_braces)
  show ?thesis
  proof (cases "\<exists>c. scan s = [Ref c]")
    case True
    then obtain c where c: "scan s = [Ref c]" by blast
    then have "set (refs s) = {c}" by (auto simp: set_refs)
    with c False unguard assms show ?thesis
      by (cases "lookup_ref results c")
        (auto simp: Resolve_def resolvable_def stringifyComplex_string split: ref_error.splits)
  next
    case nsingle: False
    have "Resolve L s results = (let (errs, out) = replace_pieces L results (scan s) in
        if length errs > 0 then Inl (Unresolved s errs) else Inr (GStr out))"
      using False unguard assms nsingle
      by (auto simp: Resolve_def split: list.split piece.split)
    with replace_pieces_out [of L results "scan s"] replace_pieces_errs [of L results "scan s"]
    show ?thesis by (auto simp: case_prod_beta set_refs Let_def)
  qed
qed

text \<open>C4. What \<open>Resolve\<close> returns, on every input. With no results at all nothing is checked: every string,
  with whatever references, passes unchanged and without an error. With at least one result
  \<open>Resolve\<close> fails when some reference of the string names no known step or no field the step has,
  and otherwise returns a string, the input with each reference replaced by its printed value:
  the path for a string that is one whole reference and the path for embedded references agree,
  so a whole-string reference to a number, a boolean or an object gives its text. The comment
  on \<open>Resolve\<close> promises that a whole-string template "preserves the original type" and "no silent
  fallback"; the code does neither.\<close>

theorem Resolve_all_or_error:
  "if results = [] then Resolve L s results = Inr (GStr s)
   else if \<exists>c \<in> set (refs s). \<not> resolvable results c then \<exists>e. Resolve L s results = Inl e
   else Resolve L s results = Inr (GStr (concat (map (render L results) (scan s))))"
proof (cases "results = []")
  case True
  then show ?thesis by (simp add: Resolve_def)
next
  case False
  from Resolve_eq [OF this, of s L] False show ?thesis by auto
qed

theorem Resolve_all_or_error_witness:
  "Resolve plain_lib ''{{b}}'' [] = Inr (GStr ''{{b}}'') \<and>
   (\<exists>e. Resolve plain_lib ''{{b}}'' [(''a'', GBool True)] = Inl e) \<and>
   Resolve plain_lib ''is {{a}}'' [(''a'', GBool True)] = Inr (GStr ''is true'')"
  using Resolve_all_or_error [of "[]" plain_lib "''{{b}}''"]
    Resolve_all_or_error [of "[(''a'', GBool True)]" plain_lib "''{{b}}''"]
    Resolve_all_or_error [of "[(''a'', GBool True)]" plain_lib "''is {{a}}''"]
  by (simp add: template_eval resolvable_def)

text \<open>Whatever \<open>Resolve\<close> returns is a string: a number, a boolean or an object that a whole-string
  reference stands for is printed. The comment on \<open>Resolve\<close> says that a single template spanning the
  entire string "preserves the original type".\<close>

theorem Resolve_returns_strings:
  assumes "Resolve L s results = Inr v"
  shows "\<exists>t. v = GStr t"
proof (cases "results = []")
  case True
  with assms show ?thesis by (auto simp: Resolve_def)
next
  case False
  from Resolve_eq [OF this, of s L] assms show ?thesis by auto
qed

theorem Resolve_returns_strings_witness: "\<exists>t. GStr ''true'' = GStr t"
  by (rule Resolve_returns_strings [of plain_lib "''{{a}}''" "[(''a'', GBool True)]"])
    (simp add: template_eval)

text \<open>Without results nothing is checked: every string, with whatever references, is returned
  as it is and without an error. The comment promises an error for a reference that cannot be
  resolved and "no silent fallback".\<close>

theorem Resolve_no_results: "Resolve L s [] = Inr (GStr s)"
  by (simp add: Resolve_def)

section \<open>The steps a string refers to\<close>

lemma collect_steps_spec:
  assumes "set seen = set out" and "distinct out"
  shows "distinct (collect_steps known seen out cs) \<and>
    set (collect_steps known seen out cs) = set out \<union>
      {n \<in> (\<lambda>c. fst (resolveTemplateContent c known)) ` set cs. n \<noteq> [] \<and> gm_get known n = Some True}"
  using assms
proof (induction cs arbitrary: seen out)
  case (Cons c cs)
  let ?n = "fst (resolveTemplateContent c known)"
  show ?case
  proof (cases "?n = [] \<or> gm_get known ?n \<noteq> Some True \<or> ?n \<in> set seen")
    case True
    with Cons show ?thesis by (auto simp: Let_def)
  next
    case False
    with Cons.IH [of "?n # seen" "out @ [?n]"] Cons.prems show ?thesis by (auto simp: Let_def)
  qed
qed simp

lemma resolveTemplateContent_keys:
  assumes "\<And>k. gm_has m k = gm_has m' k"
  shows "resolveTemplateContent content m = resolveTemplateContent content m'"
proof -
  have "shorter_prefix m c f = shorter_prefix m' c f" for c f
    using assms by (induction m' c f rule: shorter_prefix.induct)
      (subst (1 2) shorter_prefix.simps, auto simp: Let_def split: option.split)
  with assms show ?thesis by (simp add: resolveTemplateContent_def split: option.split)
qed

lemma ExtractReferencedSteps_set:
  "distinct (ExtractReferencedSteps s known) \<and>
   set (ExtractReferencedSteps s known) =
     {n \<in> (\<lambda>c. fst (resolveTemplateContent c known)) ` set (refs s). n \<noteq> [] \<and> gm_get known n = Some True}"
proof (cases "refs s = [] \<or> known = []")
  case True
  then show ?thesis by (auto simp: ExtractReferencedSteps_def)
next
  case False
  with refs_need_braces [of s] collect_steps_spec [of "[]" "[]" known "refs s"]
  show ?thesis by (simp add: ExtractReferencedSteps_def)
qed

text \<open>\<open>ExtractReferencedSteps\<close> reports what \<open>Resolve\<close> uses: when a string resolves against a set of
  results, the steps it reports for the same step names are exactly the steps the references were
  resolved to, each once.\<close>

theorem extracted_steps_are_resolved_steps:
  assumes "Resolve L s results = Inr v" and "results \<noteq> []"
    and "\<And>k. gm_get known k = (if gm_has results k then Some True else None)"
  shows "distinct (ExtractReferencedSteps s known) \<and>
    set (ExtractReferencedSteps s known) = (\<lambda>c. fst (resolveTemplateContent c results)) ` set (refs s)"
proof -
  have same: "resolveTemplateContent c known = resolveTemplateContent c results" for c
    using assms(3) by (intro resolveTemplateContent_keys) (auto simp: gm_has_def)
  have "n \<noteq> [] \<and> gm_has results n" if "c \<in> set (refs s)" "n = fst (resolveTemplateContent c results)" for c n
  proof
    from Resolve_eq [OF assms(2), of s L] assms(1) that(1) have "resolvable results c" by auto
    with that(2) show "gm_has results n"
      by (auto simp: resolvable_def lookup_ref_def gm_has_def case_prod_beta split: option.splits)
    from that(1) have c: "c \<noteq> []" "word_char (hd c)" using scan_ref_word by (auto simp: set_refs)
    have "c \<noteq> n @ CHR ''.'' # f \<or> n \<noteq> []" for f
      using c(2) by (auto simp: word_char_def)
    with c(1) that(2) show "n \<noteq> []"
      using named_step_longest [of c results n "snd (resolveTemplateContent c results)"]
      by (auto split: if_splits)
  qed
  then show ?thesis
    using ExtractReferencedSteps_set [of s known] unfolding same by (auto simp: assms(3))
qed

theorem extracted_steps_are_resolved_steps_witness:
  "distinct (ExtractReferencedSteps ''{{a}}'' [(''a'', True)]) \<and>
    set (ExtractReferencedSteps ''{{a}}'' [(''a'', True)]) =
      (\<lambda>c. fst (resolveTemplateContent c [(''a'', GBool True)])) ` set (refs ''{{a}}'')"
  by (rule extracted_steps_are_resolved_steps [of plain_lib _ _ "GStr ''true''"])
    (simp_all add: template_eval)

section \<open>Coercion\<close>

lemma is_digit_not_minus: "is_digit c \<Longrightarrow> c \<noteq> CHR ''-''"
  by (auto simp: is_digit_def)

lemma foldl_digits:
  assumes "list_all is_digit s"
  shows "foldl (\<lambda>n c. if c = CHR ''-'' then n else n * 10 + of_nat (digit_val c)) (of_nat m :: 64 word) s =
    of_nat (foldl (\<lambda>n c. 10 * n + digit_val c) m s)"
  using assms
proof (induction s arbitrary: m)
  case (Cons c s)
  from Cons.prems have "c \<noteq> CHR ''-''" by (auto simp: is_digit_def)
  with Cons.IH [of "10 * m + digit_val c"] Cons.prems show ?case by (simp add: mult.commute)
qed simp

lemma tryParseInt_digits:
  assumes "list_all is_digit s" and "s \<noteq> []"
  shows "tryParseInt s = Some (of_nat (read_digits s))"
    and "tryParseInt (CHR ''-'' # s) = Some (- of_nat (read_digits s))"
proof -
  from assms obtain c t where s: "s = c # t" and c: "c \<noteq> CHR ''-''"
    by (cases s) (auto dest: is_digit_not_minus)
  with assms(1) have "digit_tail s = s" by (simp add: digit_tail_def)
  with assms s c foldl_digits [OF assms(1), of 0] show "tryParseInt s = Some (of_nat (read_digits s))"
    by (simp add: tryParseInt_def read_digits_def)
  from foldl_digits [OF assms(1), of 0] assms(1)
  show "tryParseInt (CHR ''-'' # s) = Some (- of_nat (read_digits s))"
    by (simp add: tryParseInt_def read_digits_def digit_tail_def)
qed

lemma show_nat_all_digits: "list_all is_digit (show_nat n)"
  by (simp add: list_all_iff show_nat_digits)

text \<open>\<open>tryParseInt\<close> inverts decimal printing modulo 2 to the 64: the decimal form of any integer
  parses to that integer reduced to 64 bits. On \<open>int64\<close> values this is a round trip; a longer
  number is silently wrapped instead of being refused.\<close>

theorem tryParseInt_wraps:
  "tryParseInt (show_int i) = Some (word_of_int i) \<and> tryParseInt (show_int (sint w)) = Some w"
proof
  show *: "tryParseInt (show_int i) = Some (word_of_int i)" for i
    by (simp add: show_int_def tryParseInt_digits show_nat_all_digits of_nat_nat)
  show "tryParseInt (show_int (sint w)) = Some w" by (simp add: *)
qed

text \<open>A minus sign or a dot without a digit counts as a number: \<open>CoerceStringNumbers\<close> turns the
  strings \<open>-\<close>, \<open>.\<close> and \<open>-.\<close> into zeros and reports three coercions, although none of them
  represents a number.\<close>

theorem coerce_lone_signs:
  assumes "float_add L (FFin 0) (FFin 0) = FFin 0"
  shows "CoerceStringNumbers L [(''a'', GStr ''-''), (''b'', GStr ''.''), (''c'', GStr ''-.'')] =
    ([(''a'', GInt 0), (''b'', GFloat (FFin 0)), (''c'', GFloat FNegZero)], 3)"
  using assms
  by (simp add: CoerceStringNumbers_def coerce_value_def tryParseInt_def tryParseFloat_def digit_tail_def
      one_dot_digits_def is_digit_def float_neg_def Let_def)

theorem coerce_lone_signs_witness:
  "CoerceStringNumbers plain_lib [(''a'', GStr ''-''), (''b'', GStr ''.''), (''c'', GStr ''-.'')] =
    ([(''a'', GInt 0), (''b'', GFloat (FFin 0)), (''c'', GFloat FNegZero)], 3)"
  by (rule coerce_lone_signs) (simp add: plain_lib_def)

lemma coerce_value_stable:
  "coerce_value L (fst (coerce_value L v)) = (fst (coerce_value L v), 0) \<and>
   (snd (coerce_value L v) = 0 \<longleftrightarrow> fst (coerce_value L v) = v) \<and> snd (coerce_value L v) \<le> 1"
  by (cases v) (auto simp: coerce_value_def split: option.split)

text \<open>Coercion is idempotent and honest: it keeps the keys, a second run changes nothing and
  counts nothing, the count is the number of entries whose value changed, and a value that is not a
  string is never touched.\<close>

theorem coerce_idempotent:
  "CoerceStringNumbers L (fst (CoerceStringNumbers L args)) = (fst (CoerceStringNumbers L args), 0) \<and>
   gm_keys (fst (CoerceStringNumbers L args)) = gm_keys args \<and>
   snd (CoerceStringNumbers L args) =
     length (filter (\<lambda>(old, new). old \<noteq> new) (zip (gm_vals args) (gm_vals (fst (CoerceStringNumbers L args)))))"
proof (intro conjI)
  have "snd (coerce_value L v) = (if v \<noteq> fst (coerce_value L v) then 1 else 0)" for v
    using coerce_value_stable [of L v] by auto
  then show "snd (CoerceStringNumbers L args) =
     length (filter (\<lambda>(old, new). old \<noteq> new) (zip (gm_vals args) (gm_vals (fst (CoerceStringNumbers L args)))))"
    by (induction args) (auto simp: CoerceStringNumbers_def gm_vals_def case_prod_beta)
qed (auto simp: CoerceStringNumbers_def gm_keys_def coerce_value_stable case_prod_beta comp_def)

end
