(* ===== verification/Execution_Plan.thy ===== *)
theory Execution_Plan
  imports AI_Types Template_Properties
begin

text \<open>
  \<open>execution/plan.go\<close> and \<open>execution/support_types.go\<close>: plan steps, their preparation for dispatch,
  plan validation and freezing, the grouping of parallel steps and the permission check.

  The arguments of a step are a Go map, held by reference: copying the step struct shares it. A
  step therefore holds an address into a heap of argument maps, so that what \<open>Clone\<close>, \<open>Prepare\<close> and
  the in-place mutations do to other holders of the same map is visible.
\<close>

section \<open>Steps and plans\<close>

type_synonym args = "(string, goval) gomap"
type_synonym arg_heap = "args list"

record ExecutionStep =
  stName :: string
  stType :: string
  stArguments :: "nat option"
  stStepID :: string
  stTimeout :: int
  stExpectedOutput :: string
  stOutputSchema :: "JSONSchema option"
  stParallelizable :: bool
  stParallelGroup :: string
  stRiskLevel :: string

record ExecutionPlan =
  plID :: string
  plParentID :: string
  plAssistantID :: string
  plSteps :: "ExecutionStep list"
  plReasoning :: string
  plfrozen :: bool

definition step_ok_addr :: "arg_heap \<Rightarrow> ExecutionStep \<Rightarrow> bool" where
  "step_ok_addr h s = (\<forall>a. stArguments s = Some a \<longrightarrow> a < length h)"

section \<open>Preparing a step\<close>

definition Clone :: "arg_heap \<Rightarrow> ExecutionStep \<Rightarrow> arg_heap \<times> ExecutionStep" where
  "Clone h s = (case stArguments s of
     None \<Rightarrow> (h, s)
   | Some a \<Rightarrow> (h @ [fold (\<lambda>(k, v) m. gm_put k v m) (h ! a) []], s\<lparr>stArguments := Some (length h)\<rparr>))"

definition ArgumentsJSON :: "stdlib \<Rightarrow> arg_heap \<Rightarrow> ExecutionStep \<Rightarrow> string option" where
  "ArgumentsJSON L h s = (case stArguments s of
     None \<Rightarrow> Some ''{}''
   | Some a \<Rightarrow> json_marshal L (GMap (h ! a)))"

definition CoerceStepNumbers :: "stdlib \<Rightarrow> arg_heap \<Rightarrow> ExecutionStep \<Rightarrow> arg_heap \<times> nat" where
  "CoerceStepNumbers L h s = (case stArguments s of
     None \<Rightarrow> (h, 0)
   | Some a \<Rightarrow> (h[a := fst (CoerceStringNumbers L (h ! a))], snd (CoerceStringNumbers L (h ! a))))"

datatype arg_error = ArgError string template_error

text \<open>The loop writes each resolved value back before it looks at the next and stops at an error.\<close>

fun resolve_entries :: "stdlib \<Rightarrow> (string, goval) gomap \<Rightarrow> args \<Rightarrow> args \<times> arg_error option" where
  "resolve_entries L results [] = ([], None)"
| "resolve_entries L results ((key, val) # m) = (case val of
     GStr strVal \<Rightarrow>
       (case Resolve L strVal results of
          Inl err \<Rightarrow> ((key, val) # m, Some (ArgError key err))
        | Inr resolved \<Rightarrow> (let (m', e) = resolve_entries L results m in ((key, resolved) # m', e)))
   | _ \<Rightarrow> (let (m', e) = resolve_entries L results m in ((key, val) # m', e)))"

definition ResolveArguments ::
  "stdlib \<Rightarrow> arg_heap \<Rightarrow> ExecutionStep \<Rightarrow> (string, goval) gomap \<Rightarrow> arg_heap \<times> arg_error option" where
  "ResolveArguments L h s results = (case stArguments s of
     None \<Rightarrow> (h, None)
   | Some a \<Rightarrow>
       if length results = 0 then (h, None)
       else (h[a := fst (resolve_entries L results (h ! a))], snd (resolve_entries L results (h ! a))))"

datatype step_error = StepError string arg_error

definition Prepare ::
  "stdlib \<Rightarrow> arg_heap \<Rightarrow> ExecutionStep \<Rightarrow> (string, goval) gomap \<Rightarrow> arg_heap \<times> (step_error + ExecutionStep)" where
  "Prepare L h s results =
     (let (h1, clone) = Clone h s;
          (h2, n) = CoerceStepNumbers L h1 clone;
          (h3, err) = ResolveArguments L h2 clone results
      in case err of
           Some e \<Rightarrow> (h3, Inl (StepError (stName clone) e))
         | None \<Rightarrow> (h3, Inr clone))"

section \<open>Validating a plan\<close>

datatype plan_error =
    AlreadyFrozen
  | NoSteps
  | EmptyName nat
  | InvalidType nat string
  | DuplicateName string nat nat

definition Freeze :: "ExecutionPlan \<Rightarrow> ExecutionPlan" where
  "Freeze p = p\<lparr>plfrozen := True\<rparr>"

definition IsFrozen :: "ExecutionPlan \<Rightarrow> bool" where
  "IsFrozen p = plfrozen p"

text \<open>
  \<open>uuid\<close> is the third-party identifier generator: \<open>uuid n\<close> is the \<open>n\<close>-th identifier it returns, and
  the state is how many have been drawn. The loop mutates the steps in place, so the steps before
  an error keep the identifiers they were given.
\<close>

fun validate_steps :: "(nat \<Rightarrow> string) \<Rightarrow> nat \<Rightarrow> nat \<Rightarrow> (string, nat) gomap \<Rightarrow> ExecutionStep list \<Rightarrow>
    nat \<times> ExecutionStep list \<times> plan_error option" where
  "validate_steps uuid n i seen [] = (n, [], None)"
| "validate_steps uuid n i seen (s # ss) =
     (if stName s = [] then (n, s # ss, Some (EmptyName i))
      else if stType s \<notin> {''skill'', ''tool'', ''llm''} then (n, s # ss, Some (InvalidType i (stType s)))
      else case gm_get seen (stName s) of
        Some prev \<Rightarrow> (n, s # ss, Some (DuplicateName (stName s) prev i))
      | None \<Rightarrow>
          (let (n1, s') = (if stStepID s = [] then (Suc n, s\<lparr>stStepID := uuid n\<rparr>) else (n, s));
               (n2, ss', e) = validate_steps uuid n1 (Suc i) (gm_put (stName s) i seen) ss
           in (n2, s' # ss', e)))"

definition PlanValidate :: "(nat \<Rightarrow> string) \<Rightarrow> nat \<Rightarrow> ExecutionPlan \<Rightarrow> nat \<times> ExecutionPlan \<times> plan_error option" where
  "PlanValidate uuid n p =
     (if plfrozen p then (n, p, Some AlreadyFrozen)
      else if length (plSteps p) = 0 then (n, p, Some NoSteps)
      else
        (let (n1, p1) = (if plID p = [] then (Suc n, p\<lparr>plID := uuid n\<rparr>) else (n, p));
             (n2, steps, e) = validate_steps uuid n1 0 [] (plSteps p1);
             p2 = p1\<lparr>plSteps := steps\<rparr>
         in case e of Some err \<Rightarrow> (n2, p2, Some err) | None \<Rightarrow> (n2, Freeze p2, None)))"

section \<open>Batches\<close>

function GroupParallelSteps :: "ExecutionStep list \<Rightarrow> ExecutionStep list list" where
  "GroupParallelSteps [] = []"
| "GroupParallelSteps (s # ss) =
     (if stParallelizable s \<and> stParallelGroup s \<noteq> [] then
        (let same = (\<lambda>t. stParallelizable t \<and> stParallelGroup t = stParallelGroup s)
         in takeWhile same (s # ss) # GroupParallelSteps (dropWhile same (s # ss)))
      else [s] # GroupParallelSteps ss)"
  by pat_completeness auto
termination
  by (relation "measure length") (auto simp: length_dropWhile_le le_imp_less_Suc)

section \<open>Permissions (support_types.go)\<close>

record PermissionConfig =
  AllowedTools :: "(string, bool) gomap"
  DeniedTools :: "(string, bool) gomap"
  ApprovalMode :: string

definition gm_flag :: "(string, bool) gomap \<Rightarrow> string \<Rightarrow> bool" where
  "gm_flag m k = (gm_get m k = Some True)"

definition IsAllowed :: "PermissionConfig option \<Rightarrow> string \<Rightarrow> bool \<times> string" where
  "IsAllowed cfg name = (case cfg of
     None \<Rightarrow> (True, [])
   | Some pc \<Rightarrow>
       if length (DeniedTools pc) > 0 \<and> gm_flag (DeniedTools pc) name then (False, ''denied by permission config'')
       else if length (AllowedTools pc) > 0 \<and> \<not> gm_flag (AllowedTools pc) name then (False, ''not in allowed list'')
       else if ApprovalMode pc = ''deny'' then (False, ''approval mode is deny'')
       else (True, []))"

record RetryPolicy =
  MaxRetries :: int
  InitialBackoff :: int
  MaxBackoff :: int
  FailFast :: bool
  FallbackTool :: string

text \<open>Durations in milliseconds.\<close>

definition DefaultRetryPolicy :: RetryPolicy where
  "DefaultRetryPolicy = \<lparr>MaxRetries = 2, InitialBackoff = 500, MaxBackoff = 5000, FailFast = True, FallbackTool = []\<rparr>"

section \<open>Evidence and results (evidence.go, execution_context.go)\<close>

record Evidence =
  evSource :: string
  evKind :: string
  evResource :: string
  evID :: string
  evURI :: string
  evTimestamp :: int
  evFetchedAt :: int
  evTraceID :: string
  evHash :: string
  evOutputField :: string

definition EvidenceValidate :: "Evidence \<Rightarrow> string option" where
  "EvidenceValidate e = (if evSource e = [] then Some ''evidence: Source is required'' else None)"

record StepResult =
  srStepName :: string
  srType :: string
  srOutput :: goval
  srEvidence :: "Evidence list"
  srError :: "string option"
  srDuration :: int
  srStepID :: string
  srRetries :: int
  srFallback :: bool
  srOutputSchema :: "JSONSchema option"

text \<open>
  The planner context is stored and handed back unread, so its type is a parameter. The embedded
  Go context and the progress callback are left out: no operation here reads them but for the
  deadline, which is an argument of the constructor like the clock reading.
\<close>

record 'p ExecutionContext =
  ecRequestID :: string
  ecAssistantID :: string
  ecSessionID :: string
  ecTenantID :: string
  ecUserID :: string
  ecStartedAt :: int
  ecDeadline :: "int option"
  ecLoopMode :: string
  ecCurrentTaskIndex :: int
  ecCurrentTurn :: int
  ecGrantedPermissions :: "string list"
  ecplannerCtx :: "'p option"
  ecresults :: "StepResult list"

definition NewExecutionContext ::
  "int option \<Rightarrow> int \<Rightarrow> string \<Rightarrow> string \<Rightarrow> string \<Rightarrow> string \<Rightarrow> string \<Rightarrow> 'p ExecutionContext" where
  "NewExecutionContext ctxDeadline now reqID asstID sessionID tenantID userID =
     \<lparr>ecRequestID = reqID, ecAssistantID = asstID, ecSessionID = sessionID, ecTenantID = tenantID,
      ecUserID = userID, ecStartedAt = now, ecDeadline = ctxDeadline, ecLoopMode = [],
      ecCurrentTaskIndex = 0, ecCurrentTurn = 0, ecGrantedPermissions = [], ecplannerCtx = None,
      ecresults = []\<rparr>"

definition SetPlannerContext :: "'p option \<Rightarrow> 'p ExecutionContext \<Rightarrow> 'p ExecutionContext" where
  "SetPlannerContext pCtx ec = ec\<lparr>ecplannerCtx := pCtx\<rparr>"

definition GetPlannerContext :: "'p ExecutionContext \<Rightarrow> 'p option" where
  "GetPlannerContext ec = ecplannerCtx ec"

definition AddResult :: "StepResult \<Rightarrow> 'p ExecutionContext \<Rightarrow> 'p ExecutionContext" where
  "AddResult res ec = ec\<lparr>ecresults := ecresults ec @ [res]\<rparr>"

definition Results :: "'p ExecutionContext \<Rightarrow> StepResult list" where
  "Results ec = ecresults ec"

end
