(* ===== verification/Execution_Properties.thy ===== *)
theory Execution_Properties
  imports Execution_Plan Map_Store
begin

text \<open>
  The properties of step preparation (the plan's own maps are never touched; what a prepared
  argument is), of plan validation (when it succeeds, what it leaves behind), of batching and of the
  permission check.
\<close>

section \<open>Prepare\<close>

definition resolved_arg :: "stdlib \<Rightarrow> (string, goval) gomap \<Rightarrow> goval \<Rightarrow> goval" where
  "resolved_arg L results v = (case v of
     GStr s \<Rightarrow> GStr (concat (map (render L results) (scan s)))
   | _ \<Rightarrow> v)"

definition arg_resolvable :: "(string, goval) gomap \<Rightarrow> goval \<Rightarrow> bool" where
  "arg_resolvable results v = (case v of GStr s \<Rightarrow> list_all (resolvable results) (refs s) | _ \<Rightarrow> True)"

lemma Resolve_split:
  assumes "results \<noteq> []"
  obtains "arg_resolvable results (GStr s)" "Resolve L s results = Inr (resolved_arg L results (GStr s))"
  | e where "\<not> arg_resolvable results (GStr s)" "Resolve L s results = Inl e"
  using Resolve_eq [OF assms, of s L] that by (auto simp: arg_resolvable_def resolved_arg_def list_all_iff)

lemma arg_resolvable_other [simp]: "(\<And>s. v \<noteq> GStr s) \<Longrightarrow> arg_resolvable results v"
  by (cases v) (auto simp: arg_resolvable_def)

lemma resolved_arg_other [simp]: "(\<And>s. v \<noteq> GStr s) \<Longrightarrow> resolved_arg L results v = v"
  by (cases v) (auto simp: resolved_arg_def)

lemma resolve_entries_other:
  "(\<And>s. v \<noteq> GStr s) \<Longrightarrow> resolve_entries L results ((k, v) # m) =
     ((k, v) # fst (resolve_entries L results m), snd (resolve_entries L results m))"
  by (cases v) (auto simp: case_prod_beta Let_def)

lemma resolve_entries_spec:
  assumes "results \<noteq> []"
  shows "(snd (resolve_entries L results m) = None \<longleftrightarrow> (\<forall>v \<in> set (gm_vals m). arg_resolvable results v)) \<and>
    (snd (resolve_entries L results m) = None \<longrightarrow>
       fst (resolve_entries L results m) = map (\<lambda>(k, v). (k, resolved_arg L results v)) m)"
proof (induction m)
  case (Cons kv m)
  obtain k v where kv: "kv = (k, v)" by (cases kv)
  show ?case
  proof (cases "\<exists>s. v = GStr s")
    case True
    then obtain s where v: "v = GStr s" by blast
    from assms show ?thesis
      by (cases rule: Resolve_split [of results s L])
        (use Cons kv v in \<open>auto simp: gm_vals_def case_prod_beta Let_def\<close>)
  next
    case False
    then have "\<And>s. v \<noteq> GStr s" by blast
    with Cons show ?thesis
      by (simp add: kv gm_vals_def resolve_entries_other del: resolve_entries.simps)
  qed
qed (simp add: gm_vals_def)

lemma fold_put_id: "gm_wf m \<Longrightarrow> fold (\<lambda>(k, v) cp. gm_put k v cp) m [] = m" for m :: args
  using Snapshot_eq [of "\<lparr>store_data = m\<rparr>"] by (simp add: Snapshot_def store_inv_def)

definition coerced :: "stdlib \<Rightarrow> args \<Rightarrow> args" where
  "coerced L m = fst (CoerceStringNumbers L m)"

lemma Prepare_Some:
  assumes "stArguments s = Some a" and "a < length h" and "gm_wf (h ! a)"
  shows "Prepare L h s results =
    (if results = [] then (h @ [coerced L (h ! a)], Inr (s\<lparr>stArguments := Some (length h)\<rparr>))
     else (h @ [fst (resolve_entries L results (coerced L (h ! a)))],
       case snd (resolve_entries L results (coerced L (h ! a))) of
         Some e \<Rightarrow> Inl (StepError (stName s) e)
       | None \<Rightarrow> Inr (s\<lparr>stArguments := Some (length h)\<rparr>)))"
  using assms
  by (simp add: Prepare_def Clone_def CoerceStepNumbers_def ResolveArguments_def fold_put_id coerced_def
      Let_def split: option.split)

text \<open>C5. \<open>Prepare\<close> never touches an existing argument map, whether it succeeds or fails: every map
  that was in the heap, in particular the ones of the frozen plan's steps, is what it was before,
  and a prepared step that has arguments holds them in a map of its own.\<close>

theorem Prepare_preserves_plan:
  assumes "step_ok_addr h s" and "Prepare L h s results = (h', r)"
  shows "take (length h) h' = h \<and>
    (\<forall>s'. r = Inr s' \<longrightarrow> (stArguments s' = None \<longleftrightarrow> stArguments s = None) \<and>
       (\<forall>a. stArguments s' = Some a \<longrightarrow> length h \<le> a \<and> a < length h'))"
proof (cases "stArguments s")
  case None
  with assms(2) show ?thesis
    by (auto simp: Prepare_def Clone_def CoerceStepNumbers_def ResolveArguments_def Let_def)
next
  case (Some a)
  with assms show ?thesis
    by (auto simp: Prepare_def Clone_def CoerceStepNumbers_def ResolveArguments_def Let_def
        split: option.splits if_splits)
qed

definition demo_step :: ExecutionStep where
  "demo_step = \<lparr>stName = ''b'', stType = ''tool'', stArguments = Some 0, stStepID = [], stTimeout = 0,
     stExpectedOutput = [], stOutputSchema = None, stParallelizable = False, stParallelGroup = [],
     stRiskLevel = []\<rparr>"

theorem Prepare_preserves_plan_witness:
  "take 1 (fst (Prepare plain_lib [[(''n'', GStr ''42'')]] demo_step [])) = [[(''n'', GStr ''42'')]]"
  using Prepare_preserves_plan
    [of "[[(''n'', GStr ''42'')]]" demo_step plain_lib "[]"
      "fst (Prepare plain_lib [[(''n'', GStr ''42'')]] demo_step [])"
      "snd (Prepare plain_lib [[(''n'', GStr ''42'')]] demo_step [])"]
  by (simp add: step_ok_addr_def demo_step_def)

text \<open>With at least one earlier result, \<open>Prepare\<close> succeeds exactly when every reference in the
  coerced string arguments resolves, and the new map then holds, key by key, the coerced value
  with its references replaced. Coercion runs first: an argument that is a reference to a number
  arrives as a string.\<close>

theorem Prepare_exact:
  assumes "stArguments s = Some a" and "a < length h" and "gm_wf (h ! a)" and "results \<noteq> []"
  shows "if \<forall>v \<in> set (gm_vals (coerced L (h ! a))). arg_resolvable results v
    then Prepare L h s results =
      (h @ [map (\<lambda>(k, v). (k, resolved_arg L results v)) (coerced L (h ! a))],
       Inr (s\<lparr>stArguments := Some (length h)\<rparr>))
    else \<exists>h' e. Prepare L h s results = (h', Inl e)"
proof (cases "snd (resolve_entries L results (coerced L (h ! a)))")
  case None
  with resolve_entries_spec [OF assms(4), of L "coerced L (h ! a)"]
  show ?thesis by (simp add: Prepare_Some [OF assms(1-3)] assms(4))
next
  case (Some e)
  with resolve_entries_spec [OF assms(4), of L "coerced L (h ! a)"]
  have "\<not> (\<forall>v \<in> set (gm_vals (coerced L (h ! a))). arg_resolvable results v)" by simp
  with Some show ?thesis by (simp add: Prepare_Some [OF assms(1-3)] assms(4))
qed

definition demo_heap :: arg_heap where
  "demo_heap = [[(''n'', GStr ''{{a}}'')]]"

theorem Prepare_exact_witness:
  "if \<forall>v \<in> set (gm_vals (coerced plain_lib (demo_heap ! 0))). arg_resolvable [(''a'', GInt 7)] v
    then Prepare plain_lib demo_heap demo_step [(''a'', GInt 7)] =
      (demo_heap @ [map (\<lambda>(k, v). (k, resolved_arg plain_lib [(''a'', GInt 7)] v)) (coerced plain_lib (demo_heap ! 0))],
       Inr (demo_step\<lparr>stArguments := Some (length demo_heap)\<rparr>))
    else \<exists>h' e. Prepare plain_lib demo_heap demo_step [(''a'', GInt 7)] = (h', Inl e)"
  by (rule Prepare_exact) (simp_all add: demo_step_def demo_heap_def gm_wf_def)

text \<open>Without earlier results \<open>Prepare\<close> cannot fail: a step whose arguments refer to a step that
  never ran is prepared with the literal braces in place. The comment on \<open>ResolveArguments\<close> demands
  that such a step fail rather than be dispatched with a literal reference.\<close>

theorem Prepare_without_results:
  assumes "stArguments s = Some a" and "a < length h" and "h ! a = [(k, GStr (''{{'' @ c @ ''}}''))]"
  shows "\<exists>b. Prepare L h s [] = (h @ [[(k, GStr (''{{'' @ c @ ''}}''))]], Inr (s\<lparr>stArguments := Some b\<rparr>))"
proof -
  have "coerced L (h ! a) = h ! a"
    by (simp add: assms(3) coerced_def CoerceStringNumbers_def coerce_value_def tryParseInt_def tryParseFloat_def
        tryParseBool_def digit_tail_def one_dot_digits_def is_digit_def)
  with assms show ?thesis by (auto simp: Prepare_Some gm_wf_def)
qed

theorem Prepare_without_results_witness:
  "\<exists>b. Prepare plain_lib [[(''n'', GStr (''{{'' @ ''x'' @ ''}}''))]] demo_step [] =
     ([[(''n'', GStr (''{{'' @ ''x'' @ ''}}''))]] @ [[(''n'', GStr (''{{'' @ ''x'' @ ''}}''))]],
      Inr (demo_step\<lparr>stArguments := Some b\<rparr>))"
  by (rule Prepare_without_results [where a = 0]) (simp_all add: demo_step_def)

section \<open>Plan validation\<close>

definition step_valid :: "ExecutionStep \<Rightarrow> bool" where
  "step_valid s = (stName s \<noteq> [] \<and> stType s \<in> {''skill'', ''tool'', ''llm''})"

definition plan_valid :: "ExecutionPlan \<Rightarrow> bool" where
  "plan_valid p = (plSteps p \<noteq> [] \<and> (\<forall>s \<in> set (plSteps p). step_valid s) \<and> distinct (map stName (plSteps p)))"

definition id_count :: "nat \<Rightarrow> ExecutionStep \<Rightarrow> nat" where
  "id_count n s = (if stStepID s = [] then Suc n else n)"

definition id_step :: "(nat \<Rightarrow> string) \<Rightarrow> nat \<Rightarrow> ExecutionStep \<Rightarrow> ExecutionStep" where
  "id_step uuid n s = (if stStepID s = [] then s\<lparr>stStepID := uuid n\<rparr> else s)"

lemma validate_steps_good:
  assumes "step_valid s" and "gm_get seen (stName s) = None"
  shows "validate_steps uuid n i seen (s # ss) =
    (let r = validate_steps uuid (id_count n s) (Suc i) (gm_put (stName s) i seen) ss
     in (fst r, id_step uuid n s # fst (snd r), snd (snd r)))"
  using assms by (simp add: step_valid_def id_count_def id_step_def case_prod_beta Let_def)

lemma validate_steps_bad:
  assumes "\<not> (step_valid s \<and> gm_get seen (stName s) = None)"
  shows "\<exists>e. validate_steps uuid n i seen (s # ss) = (n, s # ss, Some e)"
  using assms by (cases "gm_get seen (stName s)") (auto simp: step_valid_def)

declare validate_steps.simps(2) [simp del]

lemma validate_steps_None:
  "snd (snd (validate_steps uuid n i seen ss)) = None \<longleftrightarrow>
     (\<forall>s \<in> set ss. step_valid s \<and> \<not> gm_has seen (stName s)) \<and> distinct (map stName ss)"
proof (induction ss arbitrary: n i seen)
  case (Cons s ss)
  show ?case
  proof (cases "step_valid s \<and> gm_get seen (stName s) = None")
    case True
    then have "snd (snd (validate_steps uuid n i seen (s # ss))) =
        snd (snd (validate_steps uuid (id_count n s) (Suc i) (gm_put (stName s) i seen) ss))"
      by (simp add: validate_steps_good Let_def)
    moreover have "stName s \<in> stName ` set ss \<longleftrightarrow> (\<exists>t \<in> set ss. stName t = stName s)"
      by (metis image_iff)
    ultimately show ?thesis using True by (auto simp: Cons.IH gm_has_def)
  next
    case False
    then show ?thesis
      using validate_steps_bad [OF False, of uuid n i ss] by (auto simp: gm_has_def)
  qed
qed simp

text \<open>The steps after validation: the same steps, each with its own identifier or a drawn one.\<close>

definition with_id :: "(nat \<Rightarrow> string) \<Rightarrow> nat \<Rightarrow> nat \<Rightarrow> ExecutionStep \<Rightarrow> ExecutionStep \<Rightarrow> bool" where
  "with_id uuid n n' s s' = (if stStepID s = [] then \<exists>k. n \<le> k \<and> k < n' \<and> s' = s\<lparr>stStepID := uuid k\<rparr> else s' = s)"

lemma with_id_wider: "with_id uuid n n' s s' \<Longrightarrow> m \<le> n \<Longrightarrow> n' \<le> m' \<Longrightarrow> with_id uuid m m' s s'"
  by (auto simp: with_id_def split: if_splits intro: le_trans less_le_trans)

lemma validate_steps_ids:
  assumes "validate_steps uuid n i seen ss = (n', ss', None)"
  shows "n \<le> n' \<and> list_all2 (with_id uuid n n') ss ss' \<and>
    (inj uuid \<longrightarrow> (\<forall>s \<in> set ss. stStepID s = []) \<longrightarrow>
      distinct (map stStepID ss') \<and> (\<forall>s \<in> set ss'. \<exists>k. n \<le> k \<and> k < n' \<and> stStepID s = uuid k))"
  using assms
proof (induction ss arbitrary: n i seen n' ss')
  case (Cons s ss)
  let ?n1 = "id_count n s"
  let ?s' = "id_step uuid n s"
  have good: "step_valid s" "gm_get seen (stName s) = None"
    using validate_steps_bad [of s seen uuid n i ss] Cons.prems by force+
  then obtain n2 ss2 where rec: "validate_steps uuid ?n1 (Suc i) (gm_put (stName s) i seen) ss = (n2, ss2, None)"
    and eq: "n' = n2" "ss' = ?s' # ss2"
    using Cons.prems by (auto simp: validate_steps_good Let_def prod_eq_iff)
  from Cons.IH [OF rec] have IH: "?n1 \<le> n'" "list_all2 (with_id uuid ?n1 n') ss ss2"
    "inj uuid \<longrightarrow> (\<forall>s \<in> set ss. stStepID s = []) \<longrightarrow>
      distinct (map stStepID ss2) \<and> (\<forall>s \<in> set ss2. \<exists>k. ?n1 \<le> k \<and> k < n' \<and> stStepID s = uuid k)"
    by (simp_all add: eq)
  have "list_all2 (with_id uuid n n') ss ss2"
    by (rule list_all2_mono [OF IH(2)]) (rule with_id_wider, auto simp: id_count_def)
  moreover have "with_id uuid n n' s ?s'"
    using IH(1) by (auto simp: with_id_def id_count_def id_step_def intro: exI [of _ n])
  moreover have "distinct (map stStepID ss')" "\<forall>t \<in> set ss'. \<exists>k. n \<le> k \<and> k < n' \<and> stStepID t = uuid k"
    if "inj uuid" "\<forall>t \<in> set (s # ss). stStepID t = []"
  proof -
    from IH(3) that have d: "distinct (map stStepID ss2)"
      and k: "\<forall>t \<in> set ss2. \<exists>k. Suc n \<le> k \<and> k < n' \<and> stStepID t = uuid k" by (auto simp: id_count_def)
    have "uuid n \<notin> stStepID ` set ss2"
    proof
      assume "uuid n \<in> stStepID ` set ss2"
      with k obtain m where "Suc n \<le> m" "uuid n = uuid m" by auto
      with that(1) show False by (auto dest: injD)
    qed
    with d that(2) show "distinct (map stStepID ss')" by (simp add: eq id_step_def)
    have "\<exists>k. n \<le> k \<and> k < n' \<and> stStepID ?s' = uuid k"
      using IH(1) that(2) by (auto simp: id_step_def id_count_def intro: exI [of _ n])
    with k show "\<forall>t \<in> set ss'. \<exists>k. n \<le> k \<and> k < n' \<and> stStepID t = uuid k"
      by (auto simp: eq dest: Suc_leD)
  qed
  moreover have "n \<le> n'" using IH(1) by (simp add: id_count_def split: if_splits)
  ultimately show ?case by (simp add: eq)
qed simp

text \<open>C9. \<open>Validate\<close> succeeds exactly on an unfrozen plan with at least one step whose names are
  non-empty and distinct and whose types are known; it freezes the plan when and only when it
  succeeds, so a second call on the same plan fails without changing it.\<close>

theorem PlanValidate_iff:
  assumes "PlanValidate uuid n p = (n', p', err)"
  shows "(err = None \<longleftrightarrow> \<not> plfrozen p \<and> plan_valid p) \<and>
    (plfrozen p' \<longleftrightarrow> plfrozen p \<or> err = None) \<and>
    (plfrozen p' \<longrightarrow> PlanValidate uuid m p' = (m, p', Some AlreadyFrozen))"
proof -
  have "err = None \<longleftrightarrow> \<not> plfrozen p \<and> plan_valid p"
    using assms validate_steps_None [of uuid _ 0 "[]" "plSteps p"]
    by (auto simp: PlanValidate_def plan_valid_def Freeze_def Let_def case_prod_beta
        split: if_splits option.splits)
  moreover have "plfrozen p' \<longleftrightarrow> plfrozen p \<or> err = None"
    using assms by (auto simp: PlanValidate_def Freeze_def Let_def case_prod_beta split: if_splits option.splits)
  ultimately show ?thesis by (auto simp: PlanValidate_def)
qed

definition demo_plan :: ExecutionPlan where
  "demo_plan = \<lparr>plID = [], plParentID = [], plAssistantID = ''a'', plSteps = [demo_step], plReasoning = [],
     plfrozen = False\<rparr>"

definition demo_valid :: ExecutionPlan where
  "demo_valid = demo_plan\<lparr>plID := show_nat 0, plSteps := [demo_step\<lparr>stStepID := show_nat 1\<rparr>], plfrozen := True\<rparr>"

lemma demo_validate: "PlanValidate show_nat 0 demo_plan = (2, demo_valid, None)"
  by (simp add: PlanValidate_def demo_plan_def demo_step_def demo_valid_def Freeze_def validate_steps.simps)

theorem PlanValidate_iff_witness:
  "plan_valid demo_plan \<and> plfrozen demo_valid \<and>
   PlanValidate show_nat 2 demo_valid = (2, demo_valid, Some AlreadyFrozen)"
  using PlanValidate_iff [OF demo_validate, of 2] by simp

text \<open>A validated plan is identified: with a generator of distinct non-empty identifiers, the
  plan and every step end with a non-empty identifier, identifiers that were set are kept and
  nothing else of a step changes; where none was set, all of them are distinct.\<close>

theorem PlanValidate_identifies:
  assumes "PlanValidate uuid n p = (n', p', None)" and "\<And>k. uuid k \<noteq> []" and "inj uuid"
  shows "plID p' \<noteq> [] \<and> (plID p = [] \<or> plID p' = plID p) \<and>
    list_all2 (\<lambda>s s'. stStepID s' \<noteq> [] \<and> (stStepID s = [] \<or> s' = s) \<and> s'\<lparr>stStepID := stStepID s\<rparr> = s)
      (plSteps p) (plSteps p') \<and>
    (plID p = [] \<and> (\<forall>s \<in> set (plSteps p). stStepID s = []) \<longrightarrow>
      distinct (plID p' # map stStepID (plSteps p')))"
proof -
  let ?n1 = "if plID p = [] then Suc n else n"
  from assms(1) obtain ss' where v: "validate_steps uuid ?n1 0 [] (plSteps p) = (n', ss', None)"
    and p': "plSteps p' = ss'" "plID p' = (if plID p = [] then uuid n else plID p)"
    by (auto simp: PlanValidate_def Freeze_def Let_def case_prod_beta split: if_splits option.splits)
      (metis prod.collapse)+
  note ids = validate_steps_ids [OF v]
  have "list_all2 (\<lambda>s s'. stStepID s' \<noteq> [] \<and> (stStepID s = [] \<or> s' = s) \<and> s'\<lparr>stStepID := stStepID s\<rparr> = s)
      (plSteps p) ss'"
    by (rule list_all2_mono [of "with_id uuid ?n1 n'"]) (use ids assms(2) in \<open>auto simp: with_id_def split: if_splits\<close>)
  moreover have "uuid n \<notin> stStepID ` set ss'" if "plID p = []" "\<forall>s \<in> set (plSteps p). stStepID s = []"
    using ids that assms(3) by (fastforce dest: injD)
  ultimately show ?thesis using ids assms(2,3) by (simp add: p')
qed

theorem PlanValidate_identifies_witness:
  "plID demo_valid \<noteq> [] \<and>
   list_all2 (\<lambda>s s'. stStepID s' \<noteq> [] \<and> (stStepID s = [] \<or> s' = s) \<and> s'\<lparr>stStepID := stStepID s\<rparr> = s)
      (plSteps demo_plan) (plSteps demo_valid) \<and>
   distinct (plID demo_valid # map stStepID (plSteps demo_valid))"
proof -
  have "plID demo_plan = [] \<and> (\<forall>s \<in> set (plSteps demo_plan). stStepID s = [])"
    by (simp add: demo_plan_def demo_step_def)
  moreover have "inj show_nat" by (simp add: inj_def)
  ultimately show ?thesis using PlanValidate_identifies [OF demo_validate] by simp
qed

section \<open>Batches\<close>

definition in_group :: "string \<Rightarrow> ExecutionStep \<Rightarrow> bool" where
  "in_group g s = (stParallelizable s \<and> stParallelGroup s = g)"

definition batch_ok :: "ExecutionStep list \<Rightarrow> bool" where
  "batch_ok b = ((\<exists>s. b = [s]) \<or> b \<noteq> [] \<and> (\<exists>g. g \<noteq> [] \<and> list_all (in_group g) b))"

lemma GroupParallelSteps_par:
  "stParallelizable s \<Longrightarrow> stParallelGroup s \<noteq> [] \<Longrightarrow> GroupParallelSteps (s # ss) =
     takeWhile (in_group (stParallelGroup s)) (s # ss) #
       GroupParallelSteps (dropWhile (in_group (stParallelGroup s)) (s # ss))"
  by (simp add: in_group_def [abs_def] Let_def)

lemma GroupParallelSteps_concat: "concat (GroupParallelSteps ss) = ss"
  by (induction ss rule: GroupParallelSteps.induct) (simp_all add: Let_def)

lemma GroupParallelSteps_ok: "b \<in> set (GroupParallelSteps ss) \<Longrightarrow> batch_ok b"
proof (induction ss rule: GroupParallelSteps.induct)
  case (2 s ss)
  show ?case
  proof (cases "stParallelizable s \<and> stParallelGroup s \<noteq> []")
    case True
    have "list_all (in_group (stParallelGroup s)) (takeWhile (in_group (stParallelGroup s)) ss)"
      by (auto simp: list_all_iff dest: set_takeWhileD)
    then have "batch_ok (takeWhile (in_group (stParallelGroup s)) (s # ss))"
      using True by (auto simp: batch_ok_def in_group_def)
    moreover have "batch_ok b" if "b \<in> set (GroupParallelSteps (dropWhile (in_group (stParallelGroup s)) (s # ss)))"
      using 2(1) [OF True refl] that by (simp add: in_group_def [abs_def])
    ultimately show ?thesis using 2(3) True unfolding GroupParallelSteps_par [of s ss, OF conjunct1 [OF True] conjunct2 [OF True]] by auto
  next
    case False
    with 2 show ?thesis by (auto simp: batch_ok_def)
  qed
qed simp

lemma GroupParallelSteps_maximal:
  "GroupParallelSteps ss = xs @ b # c # ys \<Longrightarrow> g \<noteq> [] \<Longrightarrow> list_all (in_group g) b \<Longrightarrow> \<not> in_group g (hd c)"
proof (induction ss arbitrary: xs rule: GroupParallelSteps.induct)
  case (2 s ss)
  have nonempty: "d \<noteq> []" if "d \<in> set (GroupParallelSteps zs)" for d zs
    using GroupParallelSteps_ok [OF that] by (auto simp: batch_ok_def)
  show ?case
  proof (cases xs)
    case (Cons x xs')
    with 2 show ?thesis
      by (cases "stParallelizable s \<and> stParallelGroup s \<noteq> []") (auto simp: Let_def)
  next
    case Nil
    show ?thesis
    proof (cases "stParallelizable s \<and> stParallelGroup s \<noteq> []")
      case True
      let ?P = "in_group (stParallelGroup s)"
      from 2(3) Nil True have b: "b = takeWhile ?P (s # ss)"
        and rest: "GroupParallelSteps (dropWhile ?P (s # ss)) = c # ys"
        using GroupParallelSteps_par [of s ss] by auto
      have ps: "?P s" using True by (simp add: in_group_def)
      with 2(5) b have g: "g = stParallelGroup s" by (simp add: in_group_def)
      have ne: "c \<noteq> []" using nonempty [of c "dropWhile ?P (s # ss)"] rest by simp
      have "c @ concat ys = dropWhile ?P (s # ss)"
        using GroupParallelSteps_concat [of "dropWhile ?P (s # ss)"] rest by simp
      then have "hd c = hd (dropWhile ?P (s # ss))" "dropWhile ?P (s # ss) \<noteq> []"
        using ne by (metis hd_append2, metis Nil_is_append_conv)
      then show ?thesis using hd_dropWhile [of ?P "s # ss"] g by simp
    next
      case False
      with 2(3,4,5) Nil show ?thesis by (auto simp: in_group_def)
    qed
  qed
qed simp

text \<open>C28. \<open>GroupParallelSteps\<close> cuts the plan without reordering or losing a step: the batches in
  sequence are the steps, every batch is one step or a run of parallelizable steps of one non-empty
  group, and two neighbouring batches never belong to the same group.\<close>

theorem GroupParallelSteps_partition:
  "concat (GroupParallelSteps ss) = ss \<and> (\<forall>b \<in> set (GroupParallelSteps ss). batch_ok b) \<and>
   (\<forall>xs b c ys g. GroupParallelSteps ss = xs @ b # c # ys \<and> g \<noteq> [] \<and> list_all (in_group g) b \<longrightarrow>
      \<not> in_group g (hd c))"
  using GroupParallelSteps_concat GroupParallelSteps_ok GroupParallelSteps_maximal by auto

definition par_step :: ExecutionStep where
  "par_step = demo_step\<lparr>stParallelizable := True, stParallelGroup := ''g''\<rparr>"

theorem GroupParallelSteps_partition_witness:
  "concat (GroupParallelSteps [par_step, par_step, demo_step]) = [par_step, par_step, demo_step] \<and>
   batch_ok [par_step, par_step]"
proof -
  have "GroupParallelSteps [par_step, par_step, demo_step] = [[par_step, par_step], [demo_step]]"
    by (simp add: par_step_def demo_step_def)
  then show ?thesis using GroupParallelSteps_partition [of "[par_step, par_step, demo_step]"] by simp
qed

section \<open>Permissions\<close>

text \<open>A tool is permitted exactly when there is no configuration, or it is not flagged in the
  deny list, the allow list is empty or flags it, and the approval mode is not \<open>deny\<close>; the deny list
  wins over the allow list.\<close>

theorem IsAllowed_iff:
  "fst (IsAllowed cfg name) \<longleftrightarrow>
     (case cfg of None \<Rightarrow> True
      | Some pc \<Rightarrow> \<not> gm_flag (DeniedTools pc) name \<and>
          (AllowedTools pc = [] \<or> gm_flag (AllowedTools pc) name) \<and> ApprovalMode pc \<noteq> ''deny'')"
  by (cases cfg) (auto simp: IsAllowed_def gm_flag_def)

end
