(* ===== verification/Profile.thy ===== *)
theory Profile
  imports Go_Value "HOL-Library.Product_Lexorder" Map_Store
begin

text \<open>
  \<open>control/profile\<close>: assistant profiles, the permission matrix of the three scopes (scope.go), the
  merge of a global profile with tenant and session overlays (merge.go), the persona vocabulary
  (personas.go) and the prompts rendered from a profile (prompt.go). A \<open>*bool\<close> is a \<open>bool option\<close>;
  nil and the empty string mean "inherit".
\<close>

section \<open>Types (profile.go)\<close>

definition ScopeGlobal :: string where "ScopeGlobal = ''global''"
definition ScopeTenant :: string where "ScopeTenant = ''tenant''"
definition ScopeSession :: string where "ScopeSession = ''session''"

definition ScopeValid :: "string \<Rightarrow> bool" where
  "ScopeValid s = (s = ScopeGlobal \<or> s = ScopeTenant \<or> s = ScopeSession)"

record Identity =
  idName :: string
  idDescription :: string
  idPersona :: string
  idDomain :: string
  idAvatar :: string

record Behavior =
  bhTone :: string
  bhCitations :: "bool option"

record Soul =
  soulIdentity :: Identity
  soulBehavior :: Behavior

record ReasoningPolicy =
  rpEnabled :: "bool option"
  rpShowReasoning :: "bool option"

record SafetyPolicy =
  spHallucinationGuard :: "bool option"
  spMedicalMode :: "bool option"
  spContentFilter :: "bool option"

record EvidencePolicy =
  epRequired :: "bool option"
  epRequiredFields :: "string list"
  epCitationRequired :: "bool option"

record OutputPolicy =
  opLanguage :: string
  opMarkdown :: "bool option"
  opCitations :: "bool option"
  opTemperature :: "gofloat option"

record PresentationPolicy =
  ppReasoningSummary :: "bool option"
  ppCompactMode :: "bool option"
  ppTheme :: string

record AssistantProfile =
  prID :: string
  prName :: string
  prDescription :: string
  prScope :: string
  prTenantID :: string
  prSoul :: Soul
  prReasoning :: ReasoningPolicy
  prSafety :: SafetyPolicy
  prEvidence :: EvidencePolicy
  prOutput :: OutputPolicy
  prPresentation :: PresentationPolicy

section \<open>Scope permissions (scope.go)\<close>

record Violation =
  vScope :: string
  vField :: string
  vReason :: string

abbreviation violation :: "string \<Rightarrow> string \<Rightarrow> string \<Rightarrow> Violation" where
  "violation s f r \<equiv> \<lparr>vScope = s, vField = f, vReason = r\<rparr>"

definition only_if :: "bool \<Rightarrow> 'a \<Rightarrow> 'a list" where
  "only_if b x = (if b then [x] else [])"

definition constitutionViolations :: "string \<Rightarrow> string \<Rightarrow> string list \<Rightarrow> Violation list" where
  "constitutionViolations scope block leaves =
     map (\<lambda>l. violation scope (block @ ''.'' @ l) ''constitution field, only Global scope may set it'') leaves"

definition safetySetFields :: "SafetyPolicy \<Rightarrow> string list" where
  "safetySetFields s =
     only_if (spHallucinationGuard s \<noteq> None) ''hallucination_guard'' @
     only_if (spMedicalMode s \<noteq> None) ''medical_mode'' @
     only_if (spContentFilter s \<noteq> None) ''content_filter''"

definition evidenceSetFields :: "EvidencePolicy \<Rightarrow> string list" where
  "evidenceSetFields e =
     only_if (epRequired e \<noteq> None) ''required'' @
     only_if (length (epRequiredFields e) > 0) ''required_fields'' @
     only_if (epCitationRequired e \<noteq> None) ''citation_required''"

definition tenantSessionOnlyViolations :: "AssistantProfile \<Rightarrow> Violation list" where
  "tenantSessionOnlyViolations p =
     (let v = (\<lambda>f. violation ScopeTenant f ''field not overridable at tenant scope'') in
      only_if (rpShowReasoning (prReasoning p) \<noteq> None) (v ''reasoning.show_reasoning'') @
      only_if (ppCompactMode (prPresentation p) \<noteq> None) (v ''presentation.compact_mode'') @
      only_if (ppTheme (prPresentation p) \<noteq> []) (v ''presentation.theme''))"

definition sessionAllowedFields :: "string list" where
  "sessionAllowedFields =
     [''reasoning.show_reasoning'', ''output.language'', ''output.markdown'', ''presentation.compact_mode'',
      ''presentation.theme'', ''id'', ''name'', ''description'', ''scope'', ''tenant_id'']"

text \<open>The fields the session check reports on, with whether the profile sets them.\<close>

definition reported_fields :: "AssistantProfile \<Rightarrow> (string \<times> bool) list" where
  "reported_fields p =
     (let i = soulIdentity (prSoul p); b = soulBehavior (prSoul p); r = prReasoning p; o' = prOutput p;
          q = prPresentation p in
      [(''soul.identity.name'', idName i \<noteq> []),
       (''soul.identity.description'', idDescription i \<noteq> []),
       (''soul.identity.persona'', idPersona i \<noteq> []),
       (''soul.identity.domain'', idDomain i \<noteq> []),
       (''soul.identity.avatar'', idAvatar i \<noteq> []),
       (''soul.behavior.tone'', bhTone b \<noteq> []),
       (''soul.behavior.citations'', bhCitations b \<noteq> None),
       (''reasoning.enabled'', rpEnabled r \<noteq> None),
       (''reasoning.show_reasoning'', rpShowReasoning r \<noteq> None),
       (''output.language'', opLanguage o' \<noteq> []),
       (''output.markdown'', opMarkdown o' \<noteq> None),
       (''output.citations'', opCitations o' \<noteq> None),
       (''output.temperature'', opTemperature o' \<noteq> None),
       (''presentation.reasoning_summary'', ppReasoningSummary q \<noteq> None),
       (''presentation.compact_mode'', ppCompactMode q \<noteq> None),
       (''presentation.theme'', ppTheme q \<noteq> [])])"

definition sessionAllowListViolations :: "AssistantProfile \<Rightarrow> Violation list" where
  "sessionAllowListViolations p =
     sort_key vField
       (concat (map (\<lambda>(path, isSet). only_if (isSet \<and> path \<notin> set sessionAllowedFields)
          (violation ScopeSession path ''field not overridable at session scope'')) (reported_fields p)))"

definition ValidateScope :: "AssistantProfile \<Rightarrow> Violation list" where
  "ValidateScope p =
     (if \<not> ScopeValid (prScope p) then [violation (prScope p) ''scope'' ''unknown scope'']
      else
        (if prScope p \<noteq> ScopeGlobal then
           constitutionViolations (prScope p) ''safety'' (safetySetFields (prSafety p)) @
           constitutionViolations (prScope p) ''evidence'' (evidenceSetFields (prEvidence p))
         else []) @
        (if prScope p = ScopeTenant then tenantSessionOnlyViolations p else []) @
        (if prScope p = ScopeSession then sessionAllowListViolations p else []))"

definition SortedViolations :: "Violation list \<Rightarrow> Violation list" where
  "SortedViolations vs = sort_key (\<lambda>v. (vScope v, vField v)) vs"

section \<open>Merging (merge.go)\<close>

definition mergeString :: "string \<Rightarrow> string \<Rightarrow> string" where
  "mergeString dst src = (if src \<noteq> [] then src else dst)"

definition mergePtr :: "'a option \<Rightarrow> 'a option \<Rightarrow> 'a option" where
  "mergePtr dst src = (case src of None \<Rightarrow> dst | Some v \<Rightarrow> Some v)"

definition mergeTenant :: "AssistantProfile \<Rightarrow> AssistantProfile \<Rightarrow> AssistantProfile \<times> Violation list" where
  "mergeTenant eff t =
     (eff\<lparr>prSoul :=
        \<lparr>soulIdentity =
           \<lparr>idName = mergeString (idName (soulIdentity (prSoul eff))) (idName (soulIdentity (prSoul t))),
            idDescription = mergeString (idDescription (soulIdentity (prSoul eff))) (idDescription (soulIdentity (prSoul t))),
            idPersona = mergeString (idPersona (soulIdentity (prSoul eff))) (idPersona (soulIdentity (prSoul t))),
            idDomain = mergeString (idDomain (soulIdentity (prSoul eff))) (idDomain (soulIdentity (prSoul t))),
            idAvatar = mergeString (idAvatar (soulIdentity (prSoul eff))) (idAvatar (soulIdentity (prSoul t)))\<rparr>,
         soulBehavior =
           \<lparr>bhTone = mergeString (bhTone (soulBehavior (prSoul eff))) (bhTone (soulBehavior (prSoul t))),
            bhCitations = mergePtr (bhCitations (soulBehavior (prSoul eff))) (bhCitations (soulBehavior (prSoul t)))\<rparr>\<rparr>,
        prReasoning := (prReasoning eff)\<lparr>rpEnabled := mergePtr (rpEnabled (prReasoning eff)) (rpEnabled (prReasoning t))\<rparr>,
        prOutput :=
          \<lparr>opLanguage = mergeString (opLanguage (prOutput eff)) (opLanguage (prOutput t)),
           opMarkdown = mergePtr (opMarkdown (prOutput eff)) (opMarkdown (prOutput t)),
           opCitations = mergePtr (opCitations (prOutput eff)) (opCitations (prOutput t)),
           opTemperature = mergePtr (opTemperature (prOutput eff)) (opTemperature (prOutput t))\<rparr>,
        prPresentation := (prPresentation eff)\<lparr>ppReasoningSummary :=
          mergePtr (ppReasoningSummary (prPresentation eff)) (ppReasoningSummary (prPresentation t))\<rparr>\<rparr>,
      tenantSessionOnlyViolations t @
      constitutionViolations ScopeTenant ''safety'' (safetySetFields (prSafety t)) @
      constitutionViolations ScopeTenant ''evidence'' (evidenceSetFields (prEvidence t)))"

definition mergeSession :: "AssistantProfile \<Rightarrow> AssistantProfile \<Rightarrow> AssistantProfile \<times> Violation list" where
  "mergeSession eff s =
     (eff\<lparr>prReasoning := (prReasoning eff)\<lparr>rpShowReasoning :=
            mergePtr (rpShowReasoning (prReasoning eff)) (rpShowReasoning (prReasoning s))\<rparr>,
          prOutput := (prOutput eff)\<lparr>
            opLanguage := mergeString (opLanguage (prOutput eff)) (opLanguage (prOutput s)),
            opMarkdown := mergePtr (opMarkdown (prOutput eff)) (opMarkdown (prOutput s))\<rparr>,
          prPresentation := (prPresentation eff)\<lparr>
            ppCompactMode := mergePtr (ppCompactMode (prPresentation eff)) (ppCompactMode (prPresentation s)),
            ppTheme := mergeString (ppTheme (prPresentation eff)) (ppTheme (prPresentation s))\<rparr>\<rparr>,
      ValidateScope s)"

definition Merge :: "AssistantProfile \<Rightarrow> AssistantProfile option \<Rightarrow> AssistantProfile option \<Rightarrow>
    AssistantProfile \<times> Violation list" where
  "Merge global tenant session =
     (let eff0 = global\<lparr>prScope := ScopeGlobal, prTenantID := []\<rparr>;
          (eff1, vs1) = (case tenant of None \<Rightarrow> (eff0, []) | Some t \<Rightarrow> mergeTenant eff0 t);
          (eff2, vs2) = (case session of None \<Rightarrow> (eff1, []) | Some s \<Rightarrow> mergeSession eff1 s)
      in (eff2, SortedViolations (vs1 @ vs2)))"

text \<open>The \<open>float64\<close> nearest to 0.3.\<close>

definition float_03 :: gofloat where
  "float_03 = FFin (5404319552844595 / 18014398509481984)"

definition DefaultGlobal :: AssistantProfile where
  "DefaultGlobal =
     \<lparr>prID = ''global'', prName = ''Default Assistant'',
      prDescription = ''OpenBotStack default global assistant profile'', prScope = ScopeGlobal, prTenantID = [],
      prSoul = \<lparr>soulIdentity = \<lparr>idName = ''Assistant'', idDescription = ''OpenBotStack assistant'',
                  idPersona = ''general'', idDomain = ''general'', idAvatar = []\<rparr>,
                soulBehavior = \<lparr>bhTone = ''concise'', bhCitations = None\<rparr>\<rparr>,
      prReasoning = \<lparr>rpEnabled = Some True, rpShowReasoning = Some False\<rparr>,
      prSafety = \<lparr>spHallucinationGuard = Some True, spMedicalMode = Some False, spContentFilter = Some True\<rparr>,
      prEvidence = \<lparr>epRequired = Some True, epRequiredFields = [], epCitationRequired = Some True\<rparr>,
      prOutput = \<lparr>opLanguage = ''zh-CN'', opMarkdown = Some True, opCitations = Some True,
                  opTemperature = Some float_03\<rparr>,
      prPresentation = \<lparr>ppReasoningSummary = Some False, ppCompactMode = Some False, ppTheme = ''light''\<rparr>\<rparr>"

section \<open>The persona vocabulary (personas.go)\<close>

record Vocabulary =
  personaRegistry :: "(string, bool) gomap"
  domainRegistry :: "(string, bool) gomap"

datatype vocab_error = ErrProtectedVocabulary | ErrUnknownVocabulary

record VocabEntry =
  veToken :: string
  veDeletable :: bool

definition initial_vocabulary :: Vocabulary where
  "initial_vocabulary =
     \<lparr>personaRegistry = map (\<lambda>t. (t, True)) [''general'', ''icu'', ''nursing'', ''radiology'', ''emergency''],
      domainRegistry = map (\<lambda>t. (t, True)) [''general'', ''healthcare'', ''finance'', ''legal'']\<rparr>"

definition registered :: "(string, bool) gomap \<Rightarrow> string \<Rightarrow> bool" where
  "registered reg token = (gm_get reg token = Some True)"

definition RegisterPersona :: "string \<Rightarrow> Vocabulary \<Rightarrow> Vocabulary \<times> string" where
  "RegisterPersona token v =
     (if token = [] then (v, token) else (v\<lparr>personaRegistry := gm_put token True (personaRegistry v)\<rparr>, token))"

definition RegisterDomain :: "string \<Rightarrow> Vocabulary \<Rightarrow> Vocabulary \<times> string" where
  "RegisterDomain token v =
     (if token = [] then (v, token) else (v\<lparr>domainRegistry := gm_put token True (domainRegistry v)\<rparr>, token))"

definition DeletePersona :: "string \<Rightarrow> Vocabulary \<Rightarrow> Vocabulary \<times> vocab_error option" where
  "DeletePersona token v =
     (if token = ''general'' then (v, Some ErrProtectedVocabulary)
      else if \<not> registered (personaRegistry v) token then (v, Some ErrUnknownVocabulary)
      else (v\<lparr>personaRegistry := gm_del token (personaRegistry v)\<rparr>, None))"

definition DeleteDomain :: "string \<Rightarrow> Vocabulary \<Rightarrow> Vocabulary \<times> vocab_error option" where
  "DeleteDomain token v =
     (if token = ''general'' then (v, Some ErrProtectedVocabulary)
      else if \<not> registered (domainRegistry v) token then (v, Some ErrUnknownVocabulary)
      else (v\<lparr>domainRegistry := gm_del token (domainRegistry v)\<rparr>, None))"

definition ValidPersona :: "Vocabulary \<Rightarrow> string \<Rightarrow> bool" where
  "ValidPersona v token = (if token = [] then True else registered (personaRegistry v) token)"

definition ValidDomain :: "Vocabulary \<Rightarrow> string \<Rightarrow> bool" where
  "ValidDomain v token = (if token = [] then True else registered (domainRegistry v) token)"

definition vocabEntries :: "(string, bool) gomap \<Rightarrow> VocabEntry list" where
  "vocabEntries reg =
     sort_key veToken (map (\<lambda>k. \<lparr>veToken = k, veDeletable = (k \<noteq> ''general'')\<rparr>) (gm_keys reg))"

definition ListPersonas :: "Vocabulary \<Rightarrow> VocabEntry list" where
  "ListPersonas v = vocabEntries (personaRegistry v)"

definition ListDomains :: "Vocabulary \<Rightarrow> VocabEntry list" where
  "ListDomains v = vocabEntries (domainRegistry v)"

definition ValidatePersonaFields :: "Vocabulary \<Rightarrow> AssistantProfile \<Rightarrow> Violation list" where
  "ValidatePersonaFields v p =
     (let i = soulIdentity (prSoul p) in
      only_if (\<not> ValidPersona v (idPersona i))
        (violation (prScope p) ''soul.identity.persona'' (''unknown persona token: '' @ idPersona i)) @
      only_if (\<not> ValidDomain v (idDomain i))
        (violation (prScope p) ''soul.identity.domain'' (''unknown domain token: '' @ idDomain i)))"

section \<open>Prompts (prompt.go)\<close>

text \<open>Appending a part to what was written so far, after a separator when there is something.\<close>

definition add_part :: "string \<Rightarrow> bool \<Rightarrow> string \<Rightarrow> string \<Rightarrow> string" where
  "add_part sep present part b = (if present then (if b \<noteq> [] then b @ sep else b) @ part else b)"

definition RenderPrompt :: "Soul \<Rightarrow> string" where
  "RenderPrompt s =
     (let i = soulIdentity s; h = soulBehavior s;
          b0 = (if idPersona i \<noteq> []
                then ''Persona: '' @ idPersona i @ (if idName i \<noteq> [] then '' ('' @ idName i @ '')'' else [])
                else []);
          b1 = add_part ''. '' (idDomain i \<noteq> []) (''Domain: '' @ idDomain i) b0;
          b2 = add_part ''. '' (bhTone h \<noteq> []) (''Tone: '' @ bhTone h) b1;
          b3 = add_part ''. '' (bhCitations h = Some True) ''Cite evidence when reporting factual claims.'' b2
      in TrimSpace b3)"

text \<open>\<open>strings.EqualFold\<close> against a word of ASCII letters none of which has a non-ASCII case variant.\<close>

definition ascii_lower :: "char \<Rightarrow> char" where
  "ascii_lower c = (let b = of_char c :: nat in if 65 \<le> b \<and> b \<le> 90 then char_of (b + 32) else c)"

definition equal_fold_general :: "string \<Rightarrow> bool" where
  "equal_fold_general s = (map ascii_lower s = ''general'')"

definition RenderPromptFull :: "Soul \<Rightarrow> string" where
  "RenderPromptFull s =
     (let i = soulIdentity s;
          b0 = (if idName i \<noteq> [] then ''You are acting as: '' @ idName i @
                  (if idPersona i \<noteq> [] \<and> \<not> equal_fold_general (idPersona i)
                   then '' ('' @ idPersona i @ '' persona)'' else [])
                else []);
          b1 = add_part ''. '' (idDescription i \<noteq> []) (idDescription i) b0;
          b2 = add_part '' '' (idDomain i \<noteq> [] \<and> \<not> equal_fold_general (idDomain i))
                 (''Operating domain: '' @ idDomain i @ ''.'') b1;
          tag = RenderPrompt s;
          b3 = add_part [CHR 0x0A, CHR 0x0A] (tag \<noteq> []) tag b2
      in TrimSpace b3)"

definition RenderOutputDirective :: "OutputPolicy \<Rightarrow> string" where
  "RenderOutputDirective o' =
     Join (only_if (opLanguage o' \<noteq> []) (''Respond in '' @ opLanguage o') @
           only_if (opMarkdown o' = Some True) ''Format the response in Markdown'' @
           only_if (opCitations o' = Some True) ''Cite evidence sources for factual claims'') ''. ''"

end
