(* ===== verification/Profile_Properties.thy ===== *)
theory Profile_Properties
  imports Profile
begin

text \<open>
  The properties of profiles: which layer decides which field of the effective profile, which
  violations the write path and the read path report, and the protected entry of the vocabulary.
\<close>

section \<open>The permission matrix\<close>

lemma Merge_split:
  "fst (Merge g t s) = (let e = fst (Merge g t None) in case s of None \<Rightarrow> e | Some s' \<Rightarrow> fst (mergeSession e s'))"
  by (cases s) (simp_all add: Merge_def Let_def case_prod_beta)

text \<open>C8. In the effective profile the constitution comes from the global profile alone: safety and
  evidence are the global ones whatever the overlays set. Identity, behaviour, the reasoning switch,
  output citations, temperature and the reasoning summary do not depend on the session, and the
  display of reasoning, the compact mode and the theme do not depend on the tenant.\<close>

theorem Merge_matrix:
  "prSafety (fst (Merge g t s)) = prSafety g \<and> prEvidence (fst (Merge g t s)) = prEvidence g \<and>
   prSoul (fst (Merge g t s)) = prSoul (fst (Merge g t None)) \<and>
   rpEnabled (prReasoning (fst (Merge g t s))) = rpEnabled (prReasoning (fst (Merge g t None))) \<and>
   opCitations (prOutput (fst (Merge g t s))) = opCitations (prOutput (fst (Merge g t None))) \<and>
   opTemperature (prOutput (fst (Merge g t s))) = opTemperature (prOutput (fst (Merge g t None))) \<and>
   ppReasoningSummary (prPresentation (fst (Merge g t s))) = ppReasoningSummary (prPresentation (fst (Merge g t None))) \<and>
   rpShowReasoning (prReasoning (fst (Merge g t s))) = rpShowReasoning (prReasoning (fst (Merge g None s))) \<and>
   ppCompactMode (prPresentation (fst (Merge g t s))) = ppCompactMode (prPresentation (fst (Merge g None s))) \<and>
   ppTheme (prPresentation (fst (Merge g t s))) = ppTheme (prPresentation (fst (Merge g None s)))"
  by (cases t; cases s) (simp_all add: Merge_def mergeTenant_def mergeSession_def)

section \<open>Violations\<close>

lemma ValidateScope_tenant:
  "prScope t = ScopeTenant \<Longrightarrow> mset (ValidateScope t) = mset (snd (mergeTenant e t))"
  by (simp add: ValidateScope_def mergeTenant_def ScopeValid_def ScopeTenant_def ScopeGlobal_def ScopeSession_def)

text \<open>The write path and the read path enforce one matrix: for a tenant overlay and a session
  overlay of the right scopes, \<open>Merge\<close> reports exactly the violations \<open>ValidateScope\<close> finds in the
  two, ordered by scope and field.\<close>

theorem Merge_reports_scope_violations:
  assumes "prScope t = ScopeTenant" and "prScope s = ScopeSession"
  shows "mset (snd (Merge g (Some t) (Some s))) = mset (ValidateScope t) + mset (ValidateScope s) \<and>
    sorted (map (\<lambda>v. (vScope v, vField v)) (snd (Merge g (Some t) (Some s))))"
proof -
  have "snd (Merge g (Some t) (Some s)) =
      SortedViolations (snd (mergeTenant (g\<lparr>prScope := ScopeGlobal, prTenantID := []\<rparr>) t) @ ValidateScope s)"
    by (simp add: Merge_def Let_def case_prod_beta mergeSession_def)
  with ValidateScope_tenant [OF assms(1)] show ?thesis by (simp add: SortedViolations_def)
qed

definition overlay :: "string \<Rightarrow> AssistantProfile" where
  "overlay scope =
     \<lparr>prID = [], prName = [], prDescription = [], prScope = scope, prTenantID = [],
      prSoul = \<lparr>soulIdentity = \<lparr>idName = [], idDescription = [], idPersona = [], idDomain = [], idAvatar = []\<rparr>,
                soulBehavior = \<lparr>bhTone = [], bhCitations = None\<rparr>\<rparr>,
      prReasoning = \<lparr>rpEnabled = None, rpShowReasoning = None\<rparr>,
      prSafety = \<lparr>spHallucinationGuard = Some False, spMedicalMode = None, spContentFilter = None\<rparr>,
      prEvidence = \<lparr>epRequired = None, epRequiredFields = [], epCitationRequired = None\<rparr>,
      prOutput = \<lparr>opLanguage = [], opMarkdown = None, opCitations = None, opTemperature = None\<rparr>,
      prPresentation = \<lparr>ppReasoningSummary = None, ppCompactMode = None, ppTheme = []\<rparr>\<rparr>"

theorem Merge_reports_scope_violations_witness:
  "mset (snd (Merge DefaultGlobal (Some (overlay ScopeTenant)) (Some (overlay ScopeSession)))) =
     mset (ValidateScope (overlay ScopeTenant)) + mset (ValidateScope (overlay ScopeSession)) \<and>
   sorted (map (\<lambda>v. (vScope v, vField v))
     (snd (Merge DefaultGlobal (Some (overlay ScopeTenant)) (Some (overlay ScopeSession)))))"
  by (rule Merge_reports_scope_violations) (simp_all add: overlay_def)

text \<open>A session overlay that calls itself global escapes the report: whatever fields it sets,
  \<open>Merge\<close> returns no violation for it, although it still ignores the fields a session may not set.
  The tenant overlay is checked as a tenant whatever scope it carries.\<close>

theorem session_claiming_global_unreported:
  assumes "prScope s = ScopeGlobal"
  shows "snd (Merge g None (Some s)) = [] \<and> prSafety (fst (Merge g None (Some s))) = prSafety g"
  using assms
  by (simp add: Merge_def mergeSession_def ValidateScope_def ScopeValid_def ScopeTenant_def ScopeGlobal_def
      ScopeSession_def SortedViolations_def)

theorem session_claiming_global_unreported_witness:
  "snd (Merge DefaultGlobal None (Some (overlay ScopeGlobal))) = [] \<and>
   prSafety (fst (Merge DefaultGlobal None (Some (overlay ScopeGlobal)))) = prSafety DefaultGlobal"
  by (rule session_claiming_global_unreported) (simp add: overlay_def)

section \<open>The vocabulary\<close>

datatype vocab_call = CRegisterPersona string | CRegisterDomain string | CDeletePersona string | CDeleteDomain string

fun vocab_run :: "vocab_call \<Rightarrow> Vocabulary \<Rightarrow> Vocabulary" where
  "vocab_run (CRegisterPersona t) v = fst (RegisterPersona t v)"
| "vocab_run (CRegisterDomain t) v = fst (RegisterDomain t v)"
| "vocab_run (CDeletePersona t) v = fst (DeletePersona t v)"
| "vocab_run (CDeleteDomain t) v = fst (DeleteDomain t v)"

definition registry_ok :: "(string, bool) gomap \<Rightarrow> bool" where
  "registry_ok reg = (gm_wf reg \<and> gm_get reg ''general'' = Some True \<and>
     (\<forall>(k, b) \<in> set reg. k \<noteq> [] \<and> b))"

definition vocab_inv :: "Vocabulary \<Rightarrow> bool" where
  "vocab_inv v = (registry_ok (personaRegistry v) \<and> registry_ok (domainRegistry v))"

lemma registry_ok_put: "registry_ok reg \<Longrightarrow> t \<noteq> [] \<Longrightarrow> registry_ok (gm_put t True reg)"
  by (auto simp: registry_ok_def gm_put_set split: if_splits)

lemma registry_ok_del: "registry_ok reg \<Longrightarrow> t \<noteq> ''general'' \<Longrightarrow> registry_ok (gm_del t reg)"
  by (auto simp: registry_ok_def gm_del_set)

lemma vocab_inv_run: "vocab_inv v \<Longrightarrow> vocab_inv (vocab_run c v)"
  by (cases c) (auto simp: vocab_inv_def RegisterPersona_def RegisterDomain_def DeletePersona_def DeleteDomain_def
      registry_ok_put registry_ok_del)

lemma vocab_inv_runs: "vocab_inv (fold vocab_run cs initial_vocabulary)"
proof -
  have "vocab_inv v \<Longrightarrow> vocab_inv (fold vocab_run cs v)" for v
    by (induction cs arbitrary: v) (simp_all add: vocab_inv_run)
  moreover have "vocab_inv initial_vocabulary"
    by (simp add: vocab_inv_def registry_ok_def initial_vocabulary_def gm_wf_def)
  ultimately show ?thesis .
qed

lemma registry_ok_get: "registry_ok reg \<Longrightarrow> gm_get reg k = Some b \<Longrightarrow> b \<and> k \<noteq> []"
  by (drule gm_get_SomeD) (auto simp: registry_ok_def)

lemma registered_iff: "registry_ok reg \<Longrightarrow> registered reg k \<longleftrightarrow> gm_has reg k"
  using registry_ok_get [of reg k False] by (auto simp: registered_def gm_has_def) (metis (full_types))

lemma vocabEntries_spec:
  assumes "registry_ok reg"
  shows "sorted (map veToken (vocabEntries reg)) \<and> distinct (map veToken (vocabEntries reg)) \<and>
    set (vocabEntries reg) = (\<lambda>k. \<lparr>veToken = k, veDeletable = (k \<noteq> ''general'')\<rparr>) ` {k. registered reg k}"
proof (intro conjI)
  have "map veToken (map (\<lambda>k. \<lparr>veToken = k, veDeletable = (k \<noteq> ''general'')\<rparr>) (gm_keys reg)) = gm_keys reg"
    by (induction reg) (simp_all add: gm_keys_def)
  then have "mset (map veToken (vocabEntries reg)) = mset (gm_keys reg)"
    unfolding vocabEntries_def mset_map mset_sort by (simp only: mset_map [symmetric])
  then have "distinct (map veToken (vocabEntries reg)) = distinct (gm_keys reg)"
    by (rule mset_eq_imp_distinct_iff)
  then show "distinct (map veToken (vocabEntries reg))"
    using assms by (simp add: registry_ok_def gm_wf_def gm_keys_def)
  have "set (gm_keys reg) = {k. registered reg k}"
    by (simp add: registered_iff [OF assms] gm_has_keys)
  then show "set (vocabEntries reg) = (\<lambda>k. \<lparr>veToken = k, veDeletable = (k \<noteq> ''general'')\<rparr>) ` {k. registered reg k}"
    by (simp add: vocabEntries_def)
qed (simp add: vocabEntries_def)

text \<open>After any sequence of registrations and deletions the token \<open>general\<close> is still valid as a
  persona and as a domain, deleting it is refused, and the listing is sorted, lists every valid
  token once and marks all but \<open>general\<close> as deletable.\<close>

theorem vocabulary_general_protected:
  "let v = fold vocab_run cs initial_vocabulary in
     ValidPersona v ''general'' \<and> ValidDomain v ''general'' \<and>
     DeletePersona ''general'' v = (v, Some ErrProtectedVocabulary) \<and>
     DeleteDomain ''general'' v = (v, Some ErrProtectedVocabulary) \<and>
     sorted (map veToken (ListPersonas v)) \<and> distinct (map veToken (ListPersonas v)) \<and>
     set (ListPersonas v) =
       (\<lambda>k. \<lparr>veToken = k, veDeletable = (k \<noteq> ''general'')\<rparr>) ` {k. k \<noteq> [] \<and> ValidPersona v k}"
proof -
  define v where "v = fold vocab_run cs initial_vocabulary"
  have ok: "registry_ok (personaRegistry v)" "registry_ok (domainRegistry v)"
    using vocab_inv_runs [of cs] by (simp_all add: v_def vocab_inv_def)
  have "registered (personaRegistry v) k \<longleftrightarrow> k \<noteq> [] \<and> ValidPersona v k" for k
    using registry_ok_get [OF ok(1), of k True] by (auto simp: ValidPersona_def registered_def)
  then have "set (ListPersonas v) =
      (\<lambda>k. \<lparr>veToken = k, veDeletable = (k \<noteq> ''general'')\<rparr>) ` {k. k \<noteq> [] \<and> ValidPersona v k}"
    using vocabEntries_spec [OF ok(1)] by (simp add: ListPersonas_def)
  moreover have "ValidPersona v ''general''" "ValidDomain v ''general''"
    using ok by (simp_all add: ValidPersona_def ValidDomain_def registered_def registry_ok_def)
  ultimately show ?thesis
    using vocabEntries_spec [OF ok(1)] unfolding v_def [symmetric] Let_def
    by (simp add: DeletePersona_def DeleteDomain_def ListPersonas_def)
qed

end
