(* ===== verification/Skill_Registry.thy ===== *)
theory Skill_Registry
  imports AI_Types Map_Store
begin

text \<open>
  \<open>registry/skills\<close> and \<open>capability\<close>: the skill registry with its change notifications, the capability
  registry, and the parsing of \<open>SKILL.md\<close> and manifests. Both registries are clients of \<open>MapStore\<close>.
\<close>

section \<open>Skills (skill.go)\<close>

text \<open>
  A skill is a stateless descriptor, so the methods of the interface are the fields of a record;
  the optional interfaces it may implement are options.
\<close>

record Skill =
  skID :: string
  skName :: string
  skDescription :: string
  skInputSchema :: "JSONSchema option"
  skOutputSchema :: "JSONSchema option"
  skRequiredPermissions :: "string list"
  skTimeout :: int
  skValidate :: "string option"
  skExecutionMode :: "string option"
  skPrompt :: "string option"
  skRiskLevel :: "string option"
  skDescriptor :: "SkillDescriptor option"

definition GetExecutionMode :: "Skill \<Rightarrow> string" where
  "GetExecutionMode s = (case skExecutionMode s of
     Some mode \<Rightarrow> if mode \<noteq> [] then mode else ''declarative''
   | None \<Rightarrow> ''declarative'')"

definition GetPrompt :: "Skill \<Rightarrow> string" where
  "GetPrompt s = (case skPrompt s of Some p \<Rightarrow> p | None \<Rightarrow> [])"

definition GetRiskLevel :: "Skill \<Rightarrow> string" where
  "GetRiskLevel s = (case skRiskLevel s of
     Some level \<Rightarrow> if level \<noteq> [] then level else ''info''
   | None \<Rightarrow> ''info'')"

definition GetDescriptor :: "Skill \<Rightarrow> SkillDescriptor" where
  "GetDescriptor s = (case skDescriptor s of
     Some d \<Rightarrow> d
   | None \<Rightarrow> \<lparr>sdID = skID s, sdName = skName s, sdDescription = skDescription s,
       sdInputSchema = skInputSchema s, sdKind = ''skill'', sdSourceID = skID s\<rparr>)"

section \<open>The registry (in_memory_registry.go)\<close>

datatype ChangeEvent = RegisterEvent string | UnregisterEvent string

text \<open>
  A callback is an identifier; the log records which callback was invoked with which event, in
  order. A panic inside a callback is recovered, so it changes neither the registry nor the calls
  that follow.
\<close>

record InMemoryRegistry =
  reg_store :: "Skill MapStore"
  reg_callbacks :: "nat list"
  reg_log :: "(nat \<times> ChangeEvent) list"

datatype registry_error =
    NilSkill
  | EmptySkillID
  | InvalidSkill string string
  | SkillAlreadyExists string
  | SkillNotFound string
  | RegistryInvalid string string

definition NewInMemoryRegistry :: InMemoryRegistry where
  "NewInMemoryRegistry = \<lparr>reg_store = NewMapStore, reg_callbacks = [], reg_log = []\<rparr>"

definition snapshotCallbacks :: "InMemoryRegistry \<Rightarrow> nat list" where
  "snapshotCallbacks r = reg_callbacks r"

definition fireCallbacks :: "nat list \<Rightarrow> ChangeEvent \<Rightarrow> InMemoryRegistry \<Rightarrow> InMemoryRegistry" where
  "fireCallbacks cbs event r = r\<lparr>reg_log := reg_log r @ map (\<lambda>cb. (cb, event)) cbs\<rparr>"

definition Register :: "Skill option \<Rightarrow> InMemoryRegistry \<Rightarrow> InMemoryRegistry \<times> registry_error option" where
  "Register skill r = (case skill of
     None \<Rightarrow> (r, Some NilSkill)
   | Some s \<Rightarrow>
       (let ident = skID s in
        if ident = [] then (r, Some EmptySkillID)
        else case skValidate s of
          Some err \<Rightarrow> (r, Some (InvalidSkill ident err))
        | None \<Rightarrow>
            (case PutIfAbsent ident s (reg_store r) of
               (st, ok) \<Rightarrow>
                 if \<not> ok then (r, Some (SkillAlreadyExists ident))
                 else (let r1 = r\<lparr>reg_store := st\<rparr>
                       in (fireCallbacks (snapshotCallbacks r1) (RegisterEvent ident) r1, None)))))"

definition RegistryGet :: "InMemoryRegistry \<Rightarrow> string \<Rightarrow> registry_error + Skill" where
  "RegistryGet r ident = (case Get (reg_store r) ident of
     None \<Rightarrow> Inl (SkillNotFound ident)
   | Some s \<Rightarrow> Inr s)"

definition RegistryList :: "InMemoryRegistry \<Rightarrow> string list" where
  "RegistryList r = sort (ForEach (\<lambda>ident _ ids. ids @ [ident]) (reg_store r) [])"

definition ListByPermission :: "InMemoryRegistry \<Rightarrow> string list \<Rightarrow> Skill list" where
  "ListByPermission r permissions =
     ForEach (\<lambda>_ skill allowed.
       if list_all (\<lambda>req. req \<in> set permissions) (skRequiredPermissions skill) then allowed @ [skill] else allowed)
       (reg_store r) []"

definition RegistryValidate :: "InMemoryRegistry \<Rightarrow> registry_error option" where
  "RegistryValidate r =
     ForEach (\<lambda>ident skill err. case err of
         Some e \<Rightarrow> Some e
       | None \<Rightarrow> map_option (RegistryInvalid ident) (skValidate skill)) (reg_store r) None"

definition Unregister :: "string \<Rightarrow> InMemoryRegistry \<Rightarrow> InMemoryRegistry \<times> registry_error option" where
  "Unregister ident r = (case DeleteIfExists ident (reg_store r) of
     (st, ok) \<Rightarrow>
       if \<not> ok then (r, Some (SkillNotFound ident))
       else (let r1 = r\<lparr>reg_store := st\<rparr>
             in (fireCallbacks (snapshotCallbacks r1) (UnregisterEvent ident) r1, None)))"

definition Subscribe :: "nat \<Rightarrow> InMemoryRegistry \<Rightarrow> InMemoryRegistry" where
  "Subscribe callback r = r\<lparr>reg_callbacks := reg_callbacks r @ [callback]\<rparr>"

section \<open>Capabilities (capability/types.go, adapter.go, memory_registry.go)\<close>

record ClientTool =
  ctName :: string
  ctDescription :: string
  ctInputSchema :: "JSONSchema option"

datatype Capability =
    CapabilityAdapter (ca_id: string) (ca_name: string) (ca_description: string) (ca_kind: string)
      (ca_schema: "JSONSchema option") (ca_source: string)
  | SkillCapability Skill

fun capID :: "Capability \<Rightarrow> string" where
  "capID (CapabilityAdapter i n d k sc src) = i"
| "capID (SkillCapability s) = skID s"

fun capKind :: "Capability \<Rightarrow> string" where
  "capKind (CapabilityAdapter i n d k sc src) = k"
| "capKind (SkillCapability s) = ''skill''"

definition NewFromSkill :: "Skill \<Rightarrow> Capability" where
  "NewFromSkill s = SkillCapability s"

definition NewFromMCP :: "string \<Rightarrow> ClientTool \<Rightarrow> Capability" where
  "NewFromMCP serverID tool =
     CapabilityAdapter (''mcp.'' @ serverID @ ''.'' @ ctName tool) (ctName tool) (ctDescription tool) ''mcp''
       (ctInputSchema tool) serverID"

definition NewFromNative :: "string \<Rightarrow> string \<Rightarrow> string \<Rightarrow> JSONSchema option \<Rightarrow> Capability" where
  "NewFromNative ident name desc schema = CapabilityAdapter ident name desc ''native'' schema ''builtin''"

fun CapabilityToDescriptor :: "Capability \<Rightarrow> SkillDescriptor" where
  "CapabilityToDescriptor (SkillCapability s) = GetDescriptor s"
| "CapabilityToDescriptor (CapabilityAdapter i n d k sc src) =
     \<lparr>sdID = i, sdName = n, sdDescription = d, sdInputSchema = sc, sdKind = k, sdSourceID = src\<rparr>"

type_synonym MemoryCapabilityRegistry = "Capability MapStore"

definition CapRegister :: "Capability option \<Rightarrow> MemoryCapabilityRegistry \<Rightarrow> MemoryCapabilityRegistry \<times> string option" where
  "CapRegister c r = (case c of
     None \<Rightarrow> (r, Some ''capability must not be nil'')
   | Some cap \<Rightarrow> (Put (capID cap) cap r, None))"

definition CapUnregister :: "string \<Rightarrow> MemoryCapabilityRegistry \<Rightarrow> MemoryCapabilityRegistry" where
  "CapUnregister ident r = Delete ident r"

definition CapGet :: "MemoryCapabilityRegistry \<Rightarrow> string \<Rightarrow> Capability option" where
  "CapGet r ident = Get r ident"

definition CapList :: "MemoryCapabilityRegistry \<Rightarrow> SkillDescriptor list" where
  "CapList r = ForEach (\<lambda>_ c descs. descs @ [CapabilityToDescriptor c]) r []"

definition CapListByKind :: "string \<Rightarrow> MemoryCapabilityRegistry \<Rightarrow> SkillDescriptor list" where
  "CapListByKind kind r =
     ForEach (\<lambda>_ c descs. if capKind c = kind then descs @ [CapabilityToDescriptor c] else descs) r []"

section \<open>Manifests (manifest.go)\<close>

record SkillManifest =
  smID :: string
  smVersion :: string
  smName :: string
  smDescription :: string
  smMode :: string
  smInputSchema :: "JSONSchema option"
  smOutputSchema :: "JSONSchema option"
  smRequires :: "string list"
  smPermissions :: "string list"
  smTimeout :: int
  smMaxMemoryMB :: int
  smMaxCPUMs :: int
  smRiskLevel :: string

datatype manifest_error = ModeRequired | UnsupportedMode string | InvalidRiskLevel string

definition ValidRiskLevels :: "string list" where
  "ValidRiskLevels = [''info'', ''sensitive'', ''clinical'', ''critical'']"

definition ManifestValidate :: "SkillManifest \<Rightarrow> manifest_error option" where
  "ManifestValidate m =
     (if smMode m = [] then Some ModeRequired
      else if smMode m \<noteq> ''declarative'' \<and> smMode m \<noteq> ''wasm'' then Some (UnsupportedMode (smMode m))
      else if smRiskLevel m \<noteq> [] \<and> smRiskLevel m \<notin> set ValidRiskLevels then Some (InvalidRiskLevel (smRiskLevel m))
      else None)"

section \<open>SKILL.md (skillmd.go)\<close>

record SkillMD =
  mdName :: string
  mdDescription :: string
  mdBody :: string

datatype skillmd_error = SkillMDEmpty | UnclosedFrontmatter | InvalidFrontmatter string

fun end_offset :: "nat \<Rightarrow> nat \<Rightarrow> string list \<Rightarrow> nat option" where
  "end_offset i offset [] = None"
| "end_offset i offset (line # ls) =
     (if TrimSpace line = ''---'' \<and> i > 0 then Some offset
      else if i = 0 \<and> TrimSpace line = ''---'' then Some 0
      else end_offset (Suc i) (offset + length line + 1) ls)"

definition findFrontmatterEnd :: "string \<Rightarrow> nat option" where
  "findFrontmatterEnd content = end_offset 0 0 (Split content (CHR 0x0A))"

text \<open>\<open>yaml\<close> is the third-party YAML reader, as the name and description it decodes.\<close>

definition ParseSkillMDContent :: "(string \<Rightarrow> string + string \<times> string) \<Rightarrow> string \<Rightarrow> skillmd_error + SkillMD" where
  "ParseSkillMDContent yaml input =
     (let content = ReplaceAll2 (TrimSpace input) (CHR 0x0D) (CHR 0x0A) [CHR 0x0A] in
      if content = [] then Inl SkillMDEmpty
      else if \<not> HasPrefix content ''---'' \<or> (length content > 3 \<and> content ! 3 = CHR ''-'')
        then Inr \<lparr>mdName = [], mdDescription = [], mdBody = content\<rparr>
      else
        (let rest = drop 3 content in
         case findFrontmatterEnd rest of
           None \<Rightarrow> Inl UnclosedFrontmatter
         | Some closingIdx \<Rightarrow>
             (let fmBytes = TrimSpace (take closingIdx rest);
                  body = TrimSpace (drop (closingIdx + 3) rest) in
              if length fmBytes > 0 then
                (case yaml fmBytes of
                   Inl err \<Rightarrow> Inl (InvalidFrontmatter err)
                 | Inr (name, desc) \<Rightarrow>
                     Inr \<lparr>mdName = TrimSpace name, mdDescription = TrimSpace desc, mdBody = body\<rparr>)
              else Inr \<lparr>mdName = TrimSpace [], mdDescription = TrimSpace [], mdBody = body\<rparr>)))"

section \<open>Host key-value store (hostapi.go)\<close>

record HostAPI =
  host_kv :: "(string, string) gomap"

definition NewHostAPI :: HostAPI where
  "NewHostAPI = \<lparr>host_kv = []\<rparr>"

definition KVGet :: "HostAPI \<Rightarrow> string \<Rightarrow> string option" where
  "KVGet h key = gm_get (host_kv h) key"

definition KVSet :: "string \<Rightarrow> string \<Rightarrow> HostAPI \<Rightarrow> HostAPI" where
  "KVSet key val h = h\<lparr>host_kv := gm_put key val (host_kv h)\<rparr>"

definition KVDelete :: "string \<Rightarrow> HostAPI \<Rightarrow> HostAPI" where
  "KVDelete key h = h\<lparr>host_kv := gm_del key (host_kv h)\<rparr>"

text \<open>\<open>HTTPFetch\<close> is a stub in the source: any request with a URL gets the same response.\<close>

record HTTPRequest =
  hqMethod :: string
  hqURL :: string
  hqHeaders :: "(string, string) gomap"
  hqBody :: string

record HTTPResponse =
  hpStatusCode :: int
  hpHeaders :: "(string, string) gomap"
  hpBody :: string

definition HTTPFetch :: "HTTPRequest \<Rightarrow> HTTPResponse option" where
  "HTTPFetch req = (if hqURL req = [] then None
     else Some \<lparr>hpStatusCode = 200, hpHeaders = [], hpBody = ''stub response''\<rparr>)"

interpretation host: keyed_store "\<lambda>h. True" KVGet KVSet KVDelete
  by unfold_locales (auto simp: KVGet_def KVSet_def KVDelete_def)

end
