(* ===== verification/Registry_Properties.thy ===== *)
theory Registry_Properties
  imports Skill_Registry
begin

text \<open>
  The properties of the registries: the invariant every sequence of calls keeps, the listing and the
  permission filter, and that the change notifications tell a subscriber exactly what is registered.
  The store laws come from the interface \<open>guarded_store\<close> (interpretation \<open>ms\<close>).
\<close>

section \<open>The invariant\<close>

datatype reg_call = CRegister "Skill option" | CUnregister string | CSubscribe nat

fun reg_run :: "reg_call \<Rightarrow> InMemoryRegistry \<Rightarrow> InMemoryRegistry" where
  "reg_run (CRegister s) r = fst (Register s r)"
| "reg_run (CUnregister i) r = fst (Unregister i r)"
| "reg_run (CSubscribe c) r = Subscribe c r"

definition reg_inv :: "InMemoryRegistry \<Rightarrow> bool" where
  "reg_inv r = (store_inv (reg_store r) \<and>
     (\<forall>k s. Get (reg_store r) k = Some s \<longrightarrow> skID s = k \<and> k \<noteq> [] \<and> skValidate s = None))"

definition reg_ids :: "InMemoryRegistry \<Rightarrow> string set" where
  "reg_ids r = {k. Get (reg_store r) k \<noteq> None}"

lemma Register_cases:
  assumes "reg_inv r"
  obtains (refused) e where "Register s r = (r, Some e)"
  | (stored) sk where "s = Some sk" "skID sk \<noteq> []" "skValidate sk = None" "Get (reg_store r) (skID sk) = None"
      "Register s r = (r\<lparr>reg_store := Put (skID sk) sk (reg_store r),
         reg_log := reg_log r @ map (\<lambda>cb. (cb, RegisterEvent (skID sk))) (reg_callbacks r)\<rparr>, None)"
proof -
  from assms have inv: "store_inv (reg_store r)" by (simp add: reg_inv_def)
  show ?thesis
  proof (cases s)
    case None
    then show ?thesis by (intro refused) (simp add: Register_def)
  next
    case (Some sk)
    show ?thesis
    proof (cases "skID sk \<noteq> [] \<and> skValidate sk = None \<and> Get (reg_store r) (skID sk) = None")
      case True
      then show ?thesis
        using Some inv by (intro stored [of sk])
          (simp_all add: Register_def Let_def ms.put_new fireCallbacks_def snapshotCallbacks_def)
    next
      case False
      then have "\<exists>e. Register s r = (r, Some e)"
        using Some inv by (auto simp: Register_def Let_def ms.put_new split: option.split)
      then show ?thesis using refused by blast
    qed
  qed
qed

lemma Unregister_cases:
  assumes "reg_inv r"
  obtains (refused) e where "Unregister i r = (r, Some e)" "Get (reg_store r) i = None"
  | (removed) "Get (reg_store r) i \<noteq> None"
      "Unregister i r = (r\<lparr>reg_store := Delete i (reg_store r),
         reg_log := reg_log r @ map (\<lambda>cb. (cb, UnregisterEvent i)) (reg_callbacks r)\<rparr>, None)"
  using assms that
  by (cases "Get (reg_store r) i")
    (simp_all add: reg_inv_def Unregister_def ms.del_old Let_def fireCallbacks_def snapshotCallbacks_def)

lemma reg_run_inv: "reg_inv r \<Longrightarrow> reg_inv (reg_run c r)"
proof (cases c)
  case (CRegister s)
  assume r: "reg_inv r"
  then have inv: "store_inv (reg_store r)" by (simp add: reg_inv_def)
  from r show ?thesis
    by (cases rule: Register_cases [of r s])
      (use r CRegister inv in \<open>auto simp: reg_inv_def ms.inv_ins ms.look_ins\<close>)
next
  case (CUnregister i)
  assume r: "reg_inv r"
  then have inv: "store_inv (reg_store r)" by (simp add: reg_inv_def)
  from r show ?thesis
    by (cases rule: Unregister_cases [of r i])
      (use r CUnregister inv in \<open>auto simp: reg_inv_def ms.inv_rem ms.look_rem\<close>)
qed (simp add: reg_inv_def Subscribe_def)

lemma reg_new_inv: "reg_inv NewInMemoryRegistry"
  by (simp add: reg_inv_def NewInMemoryRegistry_def NewMapStore_def store_inv_def Get_def)

lemma reg_runs_inv: "reg_inv r \<Longrightarrow> reg_inv (fold reg_run cs r)"
  by (induction cs arbitrary: r) (simp_all add: reg_run_inv)

section \<open>Listing\<close>

lemma RegistryList_keys: "RegistryList r = sort (gm_keys (store_data (reg_store r)))"
  using ForEach_map [of "\<lambda>k v. k" "reg_store r" "[]"]
  by (simp add: RegistryList_def gm_keys_def case_prod_unfold)

lemma set_RegistryList: "set (RegistryList r) = reg_ids r"
  by (auto simp: RegistryList_keys reg_ids_def Get_def gm_has_keys [symmetric] gm_has_def)

lemma ForEach_first_None:
  "(\<And>k s. (k, s) \<in> set (store_data st) \<Longrightarrow> f k s = None) \<Longrightarrow>
     ForEach (\<lambda>k s err. case err of Some e \<Rightarrow> Some e | None \<Rightarrow> f k s) st None = None"
proof -
  assume "\<And>k s. (k, s) \<in> set (store_data st) \<Longrightarrow> f k s = None"
  then have "fold (\<lambda>(k, s) err. case err of Some e \<Rightarrow> Some e | None \<Rightarrow> f k s) xs None = None"
    if "set xs \<subseteq> set (store_data st)" for xs
    using that by (induction xs) auto
  then show ?thesis by (simp add: ForEach_def)
qed

lemma ListByPermission_filter:
  "ListByPermission r ps =
     filter (\<lambda>s. set (skRequiredPermissions s) \<subseteq> set ps) (gm_vals (store_data (reg_store r)))"
proof -
  have "map snd (filter (\<lambda>x. P (snd x)) xs) = filter P (map snd xs)" for P and xs :: "(string \<times> Skill) list"
    by (induction xs) auto
  then show ?thesis
    unfolding ListByPermission_def
      ForEach_collect [of "\<lambda>_ skill. list_all (\<lambda>req. req \<in> set ps) (skRequiredPermissions skill)" "\<lambda>_ skill. skill"]
    by (simp add: gm_vals_def case_prod_unfold list_all_iff subset_iff Ball_def)
qed

text \<open>C16. After any sequence of registrations, removals and subscriptions the registry is consistent:
  \<open>Validate\<close> finds no error, \<open>List\<close> is sorted without repetitions and names exactly the skills that
  \<open>Get\<close> returns, each under its own identifier, and \<open>ListByPermission\<close> returns exactly those whose
  required permissions are all granted.\<close>

theorem registry_consistent:
  "let r = fold reg_run cs NewInMemoryRegistry in
     RegistryValidate r = None \<and> sorted (RegistryList r) \<and> distinct (RegistryList r) \<and>
     (\<forall>i. i \<in> set (RegistryList r) \<longleftrightarrow> (\<exists>s. RegistryGet r i = Inr s \<and> skID s = i)) \<and>
     set (ListByPermission r ps) = {s. RegistryGet r (skID s) = Inr s \<and> set (skRequiredPermissions s) \<subseteq> set ps}"
proof -
  define r where "r = fold reg_run cs NewInMemoryRegistry"
  have inv: "reg_inv r" unfolding r_def by (rule reg_runs_inv [OF reg_new_inv])
  then have wf: "gm_wf (store_data (reg_store r))"
    and own: "\<And>k s. (k, s) \<in> set (store_data (reg_store r)) \<Longrightarrow> skID s = k \<and> skValidate s = None"
    by (auto simp: reg_inv_def store_inv_def Get_def gm_get_Some_iff)
  have "RegistryValidate r = None"
    unfolding RegistryValidate_def by (rule ForEach_first_None) (simp add: own)
  moreover have "i \<in> set (RegistryList r) \<longleftrightarrow> (\<exists>s. RegistryGet r i = Inr s \<and> skID s = i)" for i
    using inv by (auto simp: set_RegistryList reg_ids_def RegistryGet_def reg_inv_def split: option.splits)
  moreover have "s \<in> set (gm_vals (store_data (reg_store r))) \<longleftrightarrow> RegistryGet r (skID s) = Inr s" for s
  proof -
    have "s \<in> set (gm_vals (store_data (reg_store r))) \<longleftrightarrow> (skID s, s) \<in> set (store_data (reg_store r))"
    proof
      assume "s \<in> set (gm_vals (store_data (reg_store r)))"
      then obtain k where "(k, s) \<in> set (store_data (reg_store r))" by (auto simp: gm_vals_def)
      with own [OF this] show "(skID s, s) \<in> set (store_data (reg_store r))" by simp
    qed (force simp: gm_vals_def)
    also have "\<dots> \<longleftrightarrow> Get (reg_store r) (skID s) = Some s" by (simp add: Get_def gm_get_Some_iff [OF wf])
    finally show ?thesis by (auto simp: RegistryGet_def split: option.splits)
  qed
  then have "set (ListByPermission r ps) = {s. RegistryGet r (skID s) = Inr s \<and> set (skRequiredPermissions s) \<subseteq> set ps}"
    by (simp add: ListByPermission_filter)
  moreover have "sorted (RegistryList r)" "distinct (RegistryList r)"
    using wf by (simp_all add: RegistryList_keys gm_wf_def gm_keys_def)
  ultimately show ?thesis unfolding r_def [symmetric] Let_def by blast
qed

section \<open>Notifications\<close>

fun replay_event :: "ChangeEvent \<Rightarrow> string set \<Rightarrow> string set" where
  "replay_event (RegisterEvent i) S = insert i S"
| "replay_event (UnregisterEvent i) S = S - {i}"

definition events_for :: "nat \<Rightarrow> (nat \<times> ChangeEvent) list \<Rightarrow> ChangeEvent list" where
  "events_for c lg = map snd (filter (\<lambda>(cb, e). cb = c) lg)"

definition replay :: "nat \<Rightarrow> (nat \<times> ChangeEvent) list \<Rightarrow> string set" where
  "replay c lg = fold replay_event (events_for c lg) {}"

lemma replay_broadcast:
  assumes "c \<in> set cbs"
  shows "replay c (lg @ map (\<lambda>cb. (cb, ev)) cbs) = replay_event ev (replay c lg)"
proof -
  have idem: "replay_event ev (replay_event ev S) = replay_event ev S" for S by (cases ev) auto
  have "fold replay_event (events_for c (map (\<lambda>cb. (cb, ev)) cbs)) S =
      (if c \<in> set cbs then replay_event ev S else S)" for S
    by (induction cbs arbitrary: S) (auto simp: events_for_def idem)
  with assms show ?thesis by (simp add: replay_def events_for_def)
qed

lemma reg_run_replay:
  assumes "reg_inv r" and "c \<in> set (reg_callbacks r)" and "replay c (reg_log r) = reg_ids r"
  shows "c \<in> set (reg_callbacks (reg_run x r)) \<and> replay c (reg_log (reg_run x r)) = reg_ids (reg_run x r)"
proof (cases x)
  case (CRegister s)
  from assms(1) have inv: "store_inv (reg_store r)" by (simp add: reg_inv_def)
  from assms(1) show ?thesis
    by (cases rule: Register_cases [of r s])
      (use assms CRegister inv in \<open>auto simp: replay_broadcast reg_ids_def ms.look_ins\<close>)
next
  case (CUnregister i)
  from assms(1) have inv: "store_inv (reg_store r)" by (simp add: reg_inv_def)
  from assms(1) show ?thesis
    by (cases rule: Unregister_cases [of r i])
      (use assms CUnregister inv in \<open>auto simp: replay_broadcast reg_ids_def ms.look_rem\<close>)
qed (use assms in \<open>simp add: Subscribe_def reg_ids_def\<close>)

text \<open>The notifications are complete: a subscriber present from the start that applies every
  event it receives ends, after any sequence of calls, with exactly the identifiers \<open>List\<close> returns.\<close>

theorem subscriber_can_replay:
  "let r = fold reg_run cs (Subscribe c NewInMemoryRegistry) in
     replay c (reg_log r) = set (RegistryList r)"
proof -
  have "reg_inv r \<Longrightarrow> c \<in> set (reg_callbacks r) \<Longrightarrow> replay c (reg_log r) = reg_ids r \<Longrightarrow>
      replay c (reg_log (fold reg_run cs r)) = reg_ids (fold reg_run cs r)" for r
    by (induction cs arbitrary: r) (simp_all add: reg_run_inv reg_run_replay)
  moreover have "reg_inv (Subscribe c NewInMemoryRegistry)"
    using reg_run_inv [OF reg_new_inv, of "CSubscribe c"] by simp
  ultimately show ?thesis
    by (simp add: Let_def set_RegistryList)
      (simp add: Subscribe_def NewInMemoryRegistry_def replay_def events_for_def reg_ids_def NewMapStore_def Get_def)
qed

section \<open>Capabilities\<close>

lemma CapRegister_look:
  "store_inv r \<Longrightarrow> CapGet (fst (CapRegister (Some c) r)) i = (if i = capID c then Some c else CapGet r i)"
  by (simp add: CapRegister_def CapGet_def ms.look_ins)

text \<open>Capabilities of different servers can share an identifier: the tool \<open>c\<close> of the server
  \<open>a.b\<close> and the tool \<open>b.c\<close> of the server \<open>a\<close> both become \<open>mcp.a.b.c\<close>, and registering the second
  silently replaces the first.\<close>

theorem mcp_capability_ids_collide:
  "let t1 = \<lparr>ctName = ''c'', ctDescription = [], ctInputSchema = None\<rparr>;
       t2 = \<lparr>ctName = ''b.c'', ctDescription = [], ctInputSchema = None\<rparr>;
       r1 = fst (CapRegister (Some (NewFromMCP ''a.b'' t1)) NewMapStore);
       r2 = fst (CapRegister (Some (NewFromMCP ''a'' t2)) r1)
   in CapGet r1 ''mcp.a.b.c'' = Some (NewFromMCP ''a.b'' t1) \<and>
      CapGet r2 ''mcp.a.b.c'' = Some (NewFromMCP ''a'' t2) \<and> length (CapList r2) = 1"
  by (simp add: CapRegister_def CapGet_def NewFromMCP_def Put_def Get_def NewMapStore_def CapList_def ForEach_def
      gm_put_def)

section \<open>SKILL.md\<close>

text \<open>An indented closing delimiter leaks into the body: \<open>findFrontmatterEnd\<close> accepts the line by
  its trimmed text but returns the offset of the untrimmed line, so skipping three bytes from there
  leaves the last dashes at the head of the parsed instructions.\<close>

theorem indented_delimiter_leaks:
  "ParseSkillMDContent yaml (''---'' @ [CHR 0x0A] @ '' ---'' @ [CHR 0x0A] @ ''B'') =
   Inr \<lparr>mdName = [], mdDescription = [], mdBody = ''-'' @ [CHR 0x0A] @ ''B''\<rparr>"
proof -
  have trims: "TrimSpace (''---'' @ [CHR 0x0A] @ '' ---'' @ [CHR 0x0A] @ ''B'') = ''---'' @ [CHR 0x0A] @ '' ---'' @ [CHR 0x0A] @ ''B''"
    "TrimSpace (''-'' @ [CHR 0x0A] @ ''B'') = ''-'' @ [CHR 0x0A] @ ''B''" "TrimSpace ''---'' = ''---''"
    by (rule TrimSpace_visible; simp add: visible_def)+
  have spaces: "TrimSpace '' ---'' = ''---''" "TrimSpace [CHR 0x0A] = []"
    using trims(3) TrimSpace_Nil by (simp_all add: TrimSpace_def TrimLeftSpace_Cons)
  from trims spaces show ?thesis
    by (simp add: ParseSkillMDContent_def findFrontmatterEnd_def HasPrefix_def Let_def)
qed

end
