(* ===== verification/Model_Router.thy ===== *)
theory Model_Router
  imports AI_Types Map_Store
begin

text \<open>
  \<open>ai/router/router.go\<close>: registration of model providers and the choice of one for a request. A
  provider is what the interface \<open>ModelProvider\<close> offers (\<open>ai/providers/provider.go\<close>): its identity, its
  capabilities, a generate call and, for a streaming provider, a stream call that yields the
  chunks read from its channel.
\<close>

section \<open>Providers and the router's state\<close>

record ModelProvider =
  pvID :: string
  pvCapabilities :: "string list"
  pvGenerate :: "GenerateRequest \<Rightarrow> string + GenerateResponse"
  pvStream :: "(GenerateRequest \<Rightarrow> string + StreamChunk list) option"

record DefaultRouter =
  rt_providers :: "(string, ModelProvider) gomap"

datatype router_error = ErrProviderAlreadyExists | ErrNoMatchingProvider

definition NewDefaultRouter :: DefaultRouter where
  "NewDefaultRouter = \<lparr>rt_providers = []\<rparr>"

section \<open>Operations\<close>

definition hasAllCapabilities :: "ModelProvider \<Rightarrow> string list \<Rightarrow> bool" where
  "hasAllCapabilities provider requirements = list_all (\<lambda>req. req \<in> set (pvCapabilities provider)) requirements"

definition RouterRegister :: "ModelProvider \<Rightarrow> DefaultRouter \<Rightarrow> DefaultRouter \<times> router_error option" where
  "RouterRegister provider r =
     (if gm_has (rt_providers r) (pvID provider) then (r, Some ErrProviderAlreadyExists)
      else (r\<lparr>rt_providers := gm_put (pvID provider) provider (rt_providers r)\<rparr>, None))"

definition Route :: "DefaultRouter \<Rightarrow> string list \<Rightarrow> ModelConstraints \<Rightarrow> router_error + ModelProvider" where
  "Route r requirements constraints =
     (let first_match = (case find (\<lambda>p. hasAllCapabilities p requirements) (gm_vals (rt_providers r)) of
                           Some p \<Rightarrow> Inr p
                         | None \<Rightarrow> Inl ErrNoMatchingProvider) in
      if mcPreferredProvider constraints \<noteq> [] then
        (case gm_get (rt_providers r) (mcPreferredProvider constraints) of
           Some p \<Rightarrow> if hasAllCapabilities p requirements then Inr p else first_match
         | None \<Rightarrow> first_match)
      else first_match)"

definition RouterReplace :: "ModelProvider \<Rightarrow> DefaultRouter \<Rightarrow> DefaultRouter" where
  "RouterReplace provider r = r\<lparr>rt_providers := gm_put (pvID provider) provider (rt_providers r)\<rparr>"

definition driver_match :: "string \<Rightarrow> string \<Rightarrow> bool" where
  "driver_match driverPrefix ident =
     (length ident > length driverPrefix \<and> take (length driverPrefix) ident = driverPrefix \<and>
      ident ! length driverPrefix = CHR ''/'')"

definition RouterUnregister :: "string \<Rightarrow> DefaultRouter \<Rightarrow> DefaultRouter" where
  "RouterUnregister driverPrefix r =
     r\<lparr>rt_providers := fold (\<lambda>ident m. if driver_match driverPrefix ident then gm_del ident m else m)
        (gm_keys (rt_providers r)) (rt_providers r)\<rparr>"

definition RouterList :: "DefaultRouter \<Rightarrow> string list" where
  "RouterList r = gm_keys (rt_providers r)"

section \<open>The table as a keyed store\<close>

definition provider_at :: "DefaultRouter \<Rightarrow> string \<Rightarrow> ModelProvider option" where
  "provider_at r ident = gm_get (rt_providers r) ident"

definition put_provider :: "string \<Rightarrow> ModelProvider \<Rightarrow> DefaultRouter \<Rightarrow> DefaultRouter" where
  "put_provider ident p r = r\<lparr>rt_providers := gm_put ident p (rt_providers r)\<rparr>"

definition del_provider :: "string \<Rightarrow> DefaultRouter \<Rightarrow> DefaultRouter" where
  "del_provider ident r = r\<lparr>rt_providers := gm_del ident (rt_providers r)\<rparr>"

interpretation pt: keyed_store "\<lambda>r. gm_wf (rt_providers r)" provider_at put_provider del_provider
  by unfold_locales (auto simp: provider_at_def put_provider_def del_provider_def)

section \<open>Properties\<close>

datatype router_call = RegisterCall ModelProvider | ReplaceCall ModelProvider | UnregisterCall string

fun router_run :: "router_call \<Rightarrow> DefaultRouter \<Rightarrow> DefaultRouter" where
  "router_run (RegisterCall p) r = fst (RouterRegister p r)"
| "router_run (ReplaceCall p) r = RouterReplace p r"
| "router_run (UnregisterCall d) r = RouterUnregister d r"

definition router_inv :: "DefaultRouter \<Rightarrow> bool" where
  "router_inv r = (gm_wf (rt_providers r) \<and> (\<forall>(i, p) \<in> set (rt_providers r). pvID p = i))"

lemma driver_match_iff: "driver_match d i \<longleftrightarrow> (\<exists>model. i = d @ ''/'' @ model)"
proof
  assume "driver_match d i"
  then have "i = take (length d) i @ i ! length d # drop (Suc (length d)) i"
    by (intro id_take_nth_drop) (simp add: driver_match_def)
  with \<open>driver_match d i\<close> show "\<exists>model. i = d @ ''/'' @ model" by (auto simp: driver_match_def)
qed (auto simp: driver_match_def)

lemma fold_del_keys:
  "gm_get (fold (\<lambda>i m. if P i then gm_del i m else m) ks m) k = (if k \<in> set ks \<and> P k then None else gm_get m k)"
  by (induction ks arbitrary: m) auto

lemma fold_del_wf: "gm_wf m \<Longrightarrow> gm_wf (fold (\<lambda>i m. if P i then gm_del i m else m) ks m)"
  by (induction ks arbitrary: m) auto

lemma RouterUnregister_at:
  "provider_at (RouterUnregister d r) i = (if \<exists>model. i = d @ ''/'' @ model then None else provider_at r i)"
proof -
  have "i \<in> set (gm_keys (rt_providers r)) \<or> provider_at r i = None"
    by (auto simp: provider_at_def gm_keys_def gm_get_None_iff)
  then show ?thesis
    by (auto simp: provider_at_def RouterUnregister_def fold_del_keys driver_match_iff)
qed

lemma router_inv_iff:
  "router_inv r \<longleftrightarrow> gm_wf (rt_providers r) \<and> (\<forall>i p. provider_at r i = Some p \<longrightarrow> pvID p = i)"
  by (auto simp: router_inv_def provider_at_def gm_get_Some_iff)

lemma router_run_inv:
  assumes "router_inv r"
  shows "router_inv (router_run c r)"
proof (cases c)
  case (RegisterCall p)
  with assms show ?thesis by (auto simp: router_inv_iff RouterRegister_def provider_at_def split: if_splits)
next
  case (ReplaceCall p)
  with assms show ?thesis by (auto simp: router_inv_iff RouterReplace_def provider_at_def split: if_splits)
next
  case (UnregisterCall d)
  with assms show ?thesis
    using RouterUnregister_at [of d r]
    by (auto simp: router_inv_iff split: if_splits) (simp add: RouterUnregister_def fold_del_wf)
qed

lemma router_runs_inv: "router_inv (fold router_run cs NewDefaultRouter)"
proof -
  have "router_inv r \<Longrightarrow> router_inv (fold router_run cs r)" for r
    by (induction cs arbitrary: r) (simp_all add: router_run_inv)
  moreover have "router_inv NewDefaultRouter" by (simp add: router_inv_def NewDefaultRouter_def)
  ultimately show ?thesis .
qed

text \<open>C34. \<open>Route\<close> finds a provider exactly when some registered provider has all required
  capabilities, returns such a provider, and prefers the preferred one: when that provider is
  registered and capable, it is the answer, whatever the order of the map.\<close>

theorem Route_capable:
  assumes "gm_wf (rt_providers r)"
  shows "case Route r reqs con of
      Inr p \<Rightarrow> (\<exists>i. provider_at r i = Some p) \<and> set reqs \<subseteq> set (pvCapabilities p) \<and>
        (\<forall>q. mcPreferredProvider con \<noteq> [] \<and> provider_at r (mcPreferredProvider con) = Some q \<and>
          set reqs \<subseteq> set (pvCapabilities q) \<longrightarrow> p = q)
    | Inl e \<Rightarrow> e = ErrNoMatchingProvider \<and>
        \<not> (\<exists>i p. provider_at r i = Some p \<and> set reqs \<subseteq> set (pvCapabilities p))"
proof -
  have cap: "hasAllCapabilities p reqs \<longleftrightarrow> set reqs \<subseteq> set (pvCapabilities p)" for p
    by (auto simp: hasAllCapabilities_def list_all_iff)
  have reg: "p \<in> set (gm_vals (rt_providers r)) \<longleftrightarrow> (\<exists>i. provider_at r i = Some p)" for p
    by (force simp: provider_at_def gm_get_Some_iff [OF assms] gm_vals_def image_iff)
  show ?thesis
  proof (cases "find (\<lambda>p. hasAllCapabilities p reqs) (gm_vals (rt_providers r))")
    case None
    then have "\<not> (\<exists>i p. provider_at r i = Some p \<and> set reqs \<subseteq> set (pvCapabilities p))"
      by (auto simp: find_None_iff cap reg)
    then show ?thesis using None
      by (auto simp: Route_def cap provider_at_def Let_def split: option.splits)
  next
    case (Some p)
    then have p: "p \<in> set (gm_vals (rt_providers r))" "set reqs \<subseteq> set (pvCapabilities p)"
      by (auto simp: find_Some_iff cap)
    with Some show ?thesis
      by (auto simp: Route_def cap provider_at_def reg Let_def split: option.splits)
  qed
qed

text \<open>The limits on latency and the privacy demanded by the constraints play no part in routing.\<close>

lemma constraints_ignored: "Route r reqs (con\<lparr>mcMaxLatencyMs := l, mcPrivacy := p\<rparr>) = Route r reqs con"
  by (simp add: Route_def Let_def cong: if_cong)

definition demo_provider :: "string \<Rightarrow> ModelProvider" where
  "demo_provider i = \<lparr>pvID = i, pvCapabilities = [''text_generation''], pvGenerate = \<lambda>_. Inl ''offline'',
     pvStream = None\<rparr>"

definition demo_router :: DefaultRouter where
  "demo_router = \<lparr>rt_providers = [(''a/m'', demo_provider ''a/m''), (''b/m'', demo_provider ''b/m'')]\<rparr>"

definition preferring :: "string \<Rightarrow> ModelConstraints" where
  "preferring i = \<lparr>mcMaxLatencyMs = 0, mcPrivacy = [], mcPreferredProvider = i\<rparr>"

theorem Route_capable_witness:
  "Route demo_router [''text_generation''] (preferring ''b/m'') = Inr (demo_provider ''b/m'') \<and>
   set [''text_generation''] \<subseteq> set (pvCapabilities (demo_provider ''b/m''))"
proof -
  have "Route demo_router [''text_generation''] (preferring ''b/m'') = Inr (demo_provider ''b/m'')"
    by (simp add: Route_def demo_router_def preferring_def demo_provider_def hasAllCapabilities_def)
  moreover have "gm_wf (rt_providers demo_router)" by (simp add: demo_router_def gm_wf_def)
  ultimately show ?thesis
    using Route_capable [of demo_router "[''text_generation'']" "preferring ''b/m''"] by simp
qed

text \<open>After any sequence of registrations, replacements and removals every provider is stored
  under its own identifier, and removing a driver removes exactly the providers whose identifier is
  the driver's name, a slash and a model: a driver whose name merely starts the same way stays.\<close>

theorem router_table:
  "let r = fold router_run cs NewDefaultRouter in
     distinct (RouterList r) \<and>
     (provider_at r i = None \<or> (\<exists>p. provider_at r i = Some p \<and> pvID p = i)) \<and>
     provider_at (RouterUnregister d r) i =
       (if \<exists>model. i = d @ ''/'' @ model then None else provider_at r i)"
proof -
  define r where "r = fold router_run cs NewDefaultRouter"
  have "router_inv r" unfolding r_def by (rule router_runs_inv)
  then have "distinct (RouterList r)" "provider_at r i = None \<or> (\<exists>p. provider_at r i = Some p \<and> pvID p = i)"
    by (auto simp: router_inv_iff RouterList_def gm_wf_def gm_keys_def)
  then show ?thesis unfolding r_def [symmetric] Let_def by (simp add: RouterUnregister_at)
qed

end
