(* ===== verification/Planner.thy ===== *)
theory Planner
  imports Execution_Properties Profile Model_Router
begin

text \<open>
  \<open>planner\<close> and \<open>planning\<close>: limits and the plan validator, tool specifications, prompt assembly, and the
  planner that asks a model for a plan (\<open>Plan\<close>) or for a revised one (\<open>Replan\<close>).

  Parameters of the model: \<open>decode\<close> is \<open>json.Unmarshal\<close> into an \<open>ExecutionPlan\<close>, from the value decoded
  so far to the new one and the error, if any; \<open>tmpl\<close> is the execution of the embedded prompt
  template, \<open>None\<close> when it fails; \<open>uuid\<close> is the identifier generator of \<open>Execution_Plan\<close>. The timeout
  of a model call is one of the errors its provider may return.
\<close>

section \<open>Limits and validation (plan_limits.go, plan_validator.go)\<close>

record ExecutionLimits =
  MaxSteps :: int
  MaxToolCalls :: int
  MaxExecutionTime :: int

text \<open>The execution time in seconds.\<close>

definition DefaultLimits :: ExecutionLimits where
  "DefaultLimits = \<lparr>MaxSteps = 10, MaxToolCalls = 15, MaxExecutionTime = 300\<rparr>"

definition NewValidator :: "ExecutionLimits option \<Rightarrow> ExecutionLimits" where
  "NewValidator limits = (case limits of None \<Rightarrow> DefaultLimits | Some l \<Rightarrow> l)"

datatype limit_error =
    ErrNilPlan
  | ErrEmptyAssistantID
  | ErrEmptySteps
  | ErrTooManySteps nat int
  | ErrTooManyToolCalls nat int
  | ErrInvalidStepType nat string
  | ErrEmptyStepName nat

fun count_tools :: "nat \<Rightarrow> nat \<Rightarrow> ExecutionStep list \<Rightarrow> limit_error + nat" where
  "count_tools i toolCount [] = Inr toolCount"
| "count_tools i toolCount (step # ss) =
     (if stName step = [] then Inl (ErrEmptyStepName i)
      else if stType step = ''skill'' then count_tools (Suc i) (Suc toolCount) ss
      else if stType step = ''tool'' then count_tools (Suc i) (Suc toolCount) ss
      else if stType step = ''llm'' then count_tools (Suc i) toolCount ss
      else Inl (ErrInvalidStepType i (stType step)))"

definition ValidatorValidate :: "ExecutionLimits \<Rightarrow> ExecutionPlan option \<Rightarrow> limit_error option" where
  "ValidatorValidate limits p = (case p of
     None \<Rightarrow> Some ErrNilPlan
   | Some plan \<Rightarrow>
       if plAssistantID plan = [] then Some ErrEmptyAssistantID
       else if length (plSteps plan) = 0 then Some ErrEmptySteps
       else if int (length (plSteps plan)) > MaxSteps limits
         then Some (ErrTooManySteps (length (plSteps plan)) (MaxSteps limits))
       else (case count_tools 0 0 (plSteps plan) of
           Inl e \<Rightarrow> Some e
         | Inr toolCount \<Rightarrow>
             if int toolCount > MaxToolCalls limits then Some (ErrTooManyToolCalls toolCount (MaxToolCalls limits))
             else None))"

section \<open>Tool specifications (toolspec.go)\<close>

record ToolSpec =
  tsID :: string
  tsName :: string
  tsDescription :: string
  tsParameters :: "(string, string) gomap"
  tsRequired :: "string list"

definition param_type :: "JSONSchema \<Rightarrow> string" where
  "param_type s =
     (let typeStr = (if sType (base s) = [] then ''value'' else sType (base s)) in
      if sDescription (base s) \<noteq> [] \<and> sDescription (base s) \<noteq> typeStr
      then typeStr @ '' ('' @ sDescription (base s) @ '')'' else typeStr)"

text \<open>A nil property schema is dereferenced: the function panics, here \<open>None\<close>.\<close>

definition SchemaToToolSpec :: "SkillDescriptor \<Rightarrow> ToolSpec option" where
  "SchemaToToolSpec desc =
     (let spec = (\<lambda>ps req. \<lparr>tsID = sdID desc, tsName = sdName desc, tsDescription = sdDescription desc,
                    tsParameters = ps, tsRequired = req\<rparr>) in
      case sdInputSchema desc of
        None \<Rightarrow> Some (spec [] [])
      | Some s \<Rightarrow>
          map_option (\<lambda>ps. spec ps (sRequired (base s)))
            (seq_opt (map (\<lambda>(name, t). map_option (\<lambda>u. (name, param_type u)) t) (props s))))"

definition format_param :: "ToolSpec \<Rightarrow> string \<Rightarrow> string" where
  "format_param spec n =
     n @ '': '' @ (case gm_get (tsParameters spec) n of Some d \<Rightarrow> d | None \<Rightarrow> []) @
     (if n \<in> set (tsRequired spec) then '' [required]'' else [])"

definition format_spec :: "ToolSpec \<Rightarrow> string" where
  "format_spec spec =
     ''- '' @ tsID spec @ '' ('' @ tsName spec @ ''): '' @ tsDescription spec @
     (if length (tsParameters spec) > 0
      then CHR 0x0A # ''  Params: '' @ Join (map (format_param spec) (sort (gm_keys (tsParameters spec)))) '', ''
      else []) @ [CHR 0x0A]"

definition FormatToolSpecs :: "ToolSpec list \<Rightarrow> string" where
  "FormatToolSpecs specs = concat (map format_spec specs)"

section \<open>Planning context and prompt data (planning, planner/prompts)\<close>

record TurnToolResult =
  ttStepName :: string
  ttStepType :: string
  ttSuccess :: bool
  ttSummary :: string
  ttOutput :: string
  ttError :: string

record AssistantSoul =
  asSystemPrompt :: string
  asPersonality :: string
  asInstructions :: string
  asAllowedSkills :: "string list"
  asAllowedTools :: "string list"

record SearchResult =
  srContent :: string
  srScore :: gofloat

text \<open>\<open>pcProgressFn\<close> says whether a progress callback is set; its calls are recorded in a trace.\<close>

record PlannerContext =
  pcAssistantID :: string
  pcSoul :: AssistantSoul
  pcProfileSoul :: "Soul option"
  pcProfileOutput :: "OutputPolicy option"
  pcMemoryContext :: "SearchResult list"
  pcSkills :: "SkillDescriptor list"
  pcUserRequest :: string
  pcProgressFn :: bool
  pcConversationHistory :: "Message list"
  pcTurnResults :: "TurnToolResult list"

definition WithRequest :: "PlannerContext \<Rightarrow> string \<Rightarrow> PlannerContext" where
  "WithRequest c msg = c\<lparr>pcUserRequest := msg\<rparr>"

record TurnResultData =
  trStepName :: string
  trStepType :: string
  trSuccess :: bool
  trSummary :: string
  trError :: string

definition NewTurnResultData :: "TurnToolResult \<Rightarrow> TurnResultData" where
  "NewTurnResultData tr = \<lparr>trStepName = ttStepName tr, trStepType = ttStepType tr, trSuccess = ttSuccess tr,
     trSummary = ttSummary tr, trError = ttError tr\<rparr>"

definition CollectMemoryStrings :: "SearchResult list \<Rightarrow> string list" where
  "CollectMemoryStrings entries = map srContent entries"

record PlanData =
  pdPersonality :: string
  pdInstructions :: string
  pdMemoryContext :: "string list"
  pdTurnResults :: "TurnResultData list"
  pdSkills :: string
  pdUserRequest :: string

record ReplanStepData =
  rsType :: string
  rsName :: string
  rsArgs :: string

record ReplanData =
  rdOriginalSteps :: "ReplanStepData list"
  rdFailedStepType :: string
  rdFailedStepName :: string
  rdErrorMessage :: string
  rdTrigger :: string
  rdPreviousResults :: "(string, string) gomap"
  rdPersonality :: string
  rdInstructions :: string
  rdMemoryContext :: "string list"
  rdTurnResults :: "TurnResultData list"
  rdSkills :: string
  rdUserRequest :: string

definition escapeXML :: "string \<Rightarrow> string" where
  "escapeXML s = ReplaceAll (ReplaceAll (ReplaceAll s (CHR ''&'') ''&amp;'') (CHR ''<'') ''&lt;'') (CHR ''>'') ''&gt;''"

definition filterSystemMessages :: "Message list \<Rightarrow> Message list" where
  "filterSystemMessages msgs = filter (\<lambda>m. msgRole m \<noteq> ''system'') msgs"

definition buildPrompt :: "(PlanData \<Rightarrow> string option) \<Rightarrow> PlannerContext \<Rightarrow> string option" where
  "buildPrompt tmpl pCtx =
     map_option (\<lambda>specs.
       (let data = \<lparr>pdPersonality = asPersonality (pcSoul pCtx), pdInstructions = asInstructions (pcSoul pCtx),
               pdMemoryContext = CollectMemoryStrings (pcMemoryContext pCtx),
               pdTurnResults = map NewTurnResultData (pcTurnResults pCtx),
               pdSkills = FormatToolSpecs specs, pdUserRequest = escapeXML (pcUserRequest pCtx)\<rparr>
        in case tmpl data of
             Some text \<Rightarrow> text
           | None \<Rightarrow> ''You are an execution planner. Create a plan for: '' @ escapeXML (pcUserRequest pCtx)))
       (seq_opt (map SchemaToToolSpec (pcSkills pCtx)))"

section \<open>One round with the model (llmPlanRound)\<close>

datatype planner_error =
    ErrNoSkillsAvailable
  | NilDereference
  | RoutingFailed router_error
  | LLMFailed string
  | ParseFailed nat
  | ValidationFailed limit_error
  | OriginalPlanNil
  | PlannerContextNil
  | FreezeFailed plan_error
  | InReplan planner_error

record planRoundConfig =
  evGenerating :: string
  evToken :: string
  evComplete :: string
  wrapErr :: "planner_error \<Rightarrow> planner_error"

type_synonym plan_state = "arg_heap \<times> ExecutionPlan"
type_synonym decoder = "string \<Rightarrow> plan_state \<Rightarrow> plan_state \<times> string option"
type_synonym trace = "(string \<times> string) list"

definition zero_plan :: ExecutionPlan where
  "zero_plan = \<lparr>plID = [], plParentID = [], plAssistantID = [], plSteps = [], plReasoning = [], plfrozen = False\<rparr>"

definition fence :: string where
  "fence = replicate 3 (CHR 0x60)"

definition strip_fences :: "string \<Rightarrow> string" where
  "strip_fences response =
     TrimSpace (TrimSuffix (TrimPrefix (TrimPrefix (TrimSpace response) (fence @ ''json'')) fence) fence)"

text \<open>From the first opening to the last closing brace, when they stand in that order.\<close>

definition extract_object :: "string \<Rightarrow> string option" where
  "extract_object s =
     (let from = dropWhile (\<lambda>c. c \<noteq> CHR ''{'') s;
          upto = rev (dropWhile (\<lambda>c. c \<noteq> CHR ''}'') (rev from))
      in if from \<noteq> [] \<and> upto \<noteq> [] then Some upto else None)"

definition parseResponse :: "decoder \<Rightarrow> arg_heap \<Rightarrow> string \<Rightarrow> arg_heap \<times> (nat + ExecutionPlan)" where
  "parseResponse decode h response =
     (let text = strip_fences response in
      case decode text (h, zero_plan) of
        ((h1, plan), None) \<Rightarrow> (h1, Inr plan)
      | ((h1, plan), Some err) \<Rightarrow>
          (case extract_object text of
             None \<Rightarrow> (h1, Inl (length text))
           | Some extracted \<Rightarrow>
               (case decode extracted (h1, plan) of
                  ((h2, plan2), None) \<Rightarrow> (h2, Inr plan2)
                | ((h2, plan2), Some err2) \<Rightarrow> (h2, Inl (length text)))))"

definition system_text :: "PlannerContext \<Rightarrow> string" where
  "system_text pCtx =
     (let base_text = (case pcProfileSoul pCtx of
            None \<Rightarrow> asSystemPrompt (pcSoul pCtx)
          | Some soul \<Rightarrow> if RenderPrompt soul \<noteq> [] then RenderPrompt soul else asSystemPrompt (pcSoul pCtx)) in
      case pcProfileOutput pCtx of
        None \<Rightarrow> base_text
      | Some o' \<Rightarrow>
          (let dir = RenderOutputDirective o' in
           if dir = [] then base_text
           else if base_text \<noteq> [] then base_text @ [CHR 0x0A] @ dir @ ''.''
           else dir @ ''.''))"

definition build_request :: "PlannerContext \<Rightarrow> string \<Rightarrow> GenerateRequest" where
  "build_request pCtx prompt =
     \<lparr>grMessages = NewTextMessage ''system'' (system_text pCtx) #
        filterSystemMessages (pcConversationHistory pCtx) @ [NewTextMessage ''user'' prompt],
      grTools = [], grMaxTokens = 8192,
      grTemperature = (case pcProfileOutput pCtx of
          None \<Rightarrow> FFin 0
        | Some o' \<Rightarrow> (case opTemperature o' of None \<Rightarrow> FFin 0 | Some t \<Rightarrow> t)),
      grJSONSchema = None, grToolChoice = NoChoice, grParallelToolCalls = None\<rparr>"

text \<open>Draining the channel: an error chunk ends the round; text is collected and reported.\<close>

fun drain :: "string \<Rightarrow> StreamChunk list \<Rightarrow> trace \<times> (string + string)" where
  "drain tokenEv [] = ([], Inr [])"
| "drain tokenEv (chunk # cs) = (case scError chunk of
     Some err \<Rightarrow> ([], Inl err)
   | None \<Rightarrow>
       (let (tr, res) = drain tokenEv cs in
        (if scContent chunk \<noteq> [] then (tokenEv, scContent chunk) # tr else tr,
         map_sum id (\<lambda>rest. scContent chunk @ rest) res)))"

definition ask_model :: "planRoundConfig \<Rightarrow> ModelProvider \<Rightarrow> bool \<Rightarrow> GenerateRequest \<Rightarrow> trace \<times> (string + string)" where
  "ask_model cfg provider progress mReq =
     (case (pvStream provider, progress) of
        (Some gen_stream, True) \<Rightarrow>
          (case gen_stream mReq of
             Inl err \<Rightarrow> ([(evGenerating cfg, [])], Inl err)
           | Inr chunks \<Rightarrow>
               (let (tr, res) = drain (evToken cfg) chunks in
                case res of
                  Inl err \<Rightarrow> ((evGenerating cfg, []) # tr, Inl err)
                | Inr content \<Rightarrow> ((evGenerating cfg, []) # tr @ [(evComplete cfg, [])], Inr content)))
      | _ \<Rightarrow> (case pvGenerate provider mReq of
               Inl err \<Rightarrow> ([], Inl err)
             | Inr response \<Rightarrow> ([], Inr (gsContent response))))"

definition no_constraints :: ModelConstraints where
  "no_constraints = \<lparr>mcMaxLatencyMs = 0, mcPrivacy = [], mcPreferredProvider = []\<rparr>"

definition llmPlanRound :: "decoder \<Rightarrow> DefaultRouter \<Rightarrow> arg_heap \<Rightarrow> PlannerContext \<Rightarrow> string \<Rightarrow> planRoundConfig \<Rightarrow>
    arg_heap \<times> trace \<times> (planner_error + ExecutionPlan)" where
  "llmPlanRound decode router h pCtx prompt cfg =
     (case Route router [''text_generation''] no_constraints of
        Inl err \<Rightarrow> (h, [], Inl (wrapErr cfg (RoutingFailed err)))
      | Inr provider \<Rightarrow>
          (let (tr, res) = ask_model cfg provider (pcProgressFn pCtx) (build_request pCtx prompt) in
           case res of
             Inl err \<Rightarrow> (h, tr, Inl (wrapErr cfg (LLMFailed err)))
           | Inr content \<Rightarrow>
               (case parseResponse decode h content of
                  (h1, Inl n) \<Rightarrow> (h1, tr, Inl (wrapErr cfg (ParseFailed n)))
                | (h1, Inr plan) \<Rightarrow>
                    (h1, tr, Inr (if plAssistantID plan = [] then plan\<lparr>plAssistantID := pcAssistantID pCtx\<rparr> else plan)))))"

section \<open>Plan and Replan\<close>

record LLMPlanner =
  lpRouter :: DefaultRouter
  lpLimits :: ExecutionLimits

definition NewLLMPlanner :: "DefaultRouter \<Rightarrow> ExecutionLimits option \<Rightarrow> LLMPlanner" where
  "NewLLMPlanner router limits = \<lparr>lpRouter = router, lpLimits = NewValidator limits\<rparr>"

definition plan_config :: planRoundConfig where
  "plan_config = \<lparr>evGenerating = ''planning_generating'', evToken = ''planning_token'',
     evComplete = ''planning_complete'', wrapErr = id\<rparr>"

definition replan_config :: planRoundConfig where
  "replan_config = \<lparr>evGenerating = ''replanning_generating'', evToken = ''replanning_token'',
     evComplete = ''replanning_complete'', wrapErr = InReplan\<rparr>"

definition Plan :: "(PlanData \<Rightarrow> string option) \<Rightarrow> decoder \<Rightarrow> LLMPlanner \<Rightarrow> arg_heap \<Rightarrow> PlannerContext \<Rightarrow>
    arg_heap \<times> trace \<times> (planner_error + ExecutionPlan)" where
  "Plan tmpl decode p h pCtx =
     (if length (pcSkills pCtx) = 0 then (h, [], Inl ErrNoSkillsAvailable)
      else case buildPrompt tmpl pCtx of
        None \<Rightarrow> (h, [], Inl NilDereference)
      | Some prompt \<Rightarrow>
          (case llmPlanRound decode (lpRouter p) h pCtx prompt plan_config of
             (h1, tr, Inl err) \<Rightarrow> (h1, tr, Inl err)
           | (h1, tr, Inr plan) \<Rightarrow>
               if length (plSteps plan) = 0 then (h1, tr, Inr plan)
               else (case ValidatorValidate (lpLimits p) (Some plan) of
                   Some err \<Rightarrow> (h1, tr, Inl (ValidationFailed err))
                 | None \<Rightarrow> (h1, tr, Inr plan))))"

record ReplanContext =
  rcOriginalPlan :: "ExecutionPlan option"
  rcFailedStep :: ExecutionStep
  rcFailedStepResult :: "StepResult option"
  rcTrigger :: string
  rcPreviousResults :: "(string, goval) gomap"
  rcPlannerContext :: "PlannerContext option"
  rcErrorMessage :: string

definition replan_step :: "stdlib \<Rightarrow> arg_heap \<Rightarrow> ExecutionStep \<Rightarrow> ReplanStepData" where
  "replan_step L h step =
     \<lparr>rsType = stType step, rsName = stName step,
      rsArgs = (case stArguments step of
          None \<Rightarrow> []
        | Some a \<Rightarrow> (case json_marshal L (GMap (h ! a)) of None \<Rightarrow> [] | Some b \<Rightarrow> b))\<rparr>"

definition result_text :: "stdlib \<Rightarrow> goval \<Rightarrow> string" where
  "result_text L v = (case v of GStr s \<Rightarrow> s | _ \<Rightarrow> (case json_marshal L v of None \<Rightarrow> [] | Some b \<Rightarrow> b))"

definition buildReplanPrompt :: "stdlib \<Rightarrow> (ReplanData \<Rightarrow> string option) \<Rightarrow> arg_heap \<Rightarrow> ReplanContext \<Rightarrow>
    ExecutionPlan \<Rightarrow> PlannerContext \<Rightarrow> string option" where
  "buildReplanPrompt L tmpl h rCtx orig pCtx =
     map_option (\<lambda>specs.
       (let data = \<lparr>rdOriginalSteps = map (replan_step L h) (plSteps orig),
               rdFailedStepType = stType (rcFailedStep rCtx), rdFailedStepName = stName (rcFailedStep rCtx),
               rdErrorMessage = rcErrorMessage rCtx, rdTrigger = rcTrigger rCtx,
               rdPreviousResults = map (\<lambda>(name, v). (name, result_text L v)) (rcPreviousResults rCtx),
               rdPersonality = asPersonality (pcSoul pCtx), rdInstructions = asInstructions (pcSoul pCtx),
               rdMemoryContext = CollectMemoryStrings (pcMemoryContext pCtx),
               rdTurnResults = map NewTurnResultData (pcTurnResults pCtx),
               rdSkills = FormatToolSpecs specs, rdUserRequest = escapeXML (pcUserRequest pCtx)\<rparr>
        in case tmpl data of
             Some text \<Rightarrow> text
           | None \<Rightarrow> ''Generate a revised plan for: '' @ escapeXML (pcUserRequest pCtx)))
       (seq_opt (map SchemaToToolSpec (pcSkills pCtx)))"

definition Replan :: "stdlib \<Rightarrow> (ReplanData \<Rightarrow> string option) \<Rightarrow> decoder \<Rightarrow> (nat \<Rightarrow> string) \<Rightarrow> LLMPlanner \<Rightarrow> arg_heap \<Rightarrow> nat \<Rightarrow>
    ReplanContext \<Rightarrow> arg_heap \<times> nat \<times> trace \<times> (planner_error + ExecutionPlan)" where
  "Replan L tmpl decode uuid p h n rCtx =
     (case (rcOriginalPlan rCtx, rcPlannerContext rCtx) of
        (None, _) \<Rightarrow> (h, n, [], Inl OriginalPlanNil)
      | (Some orig, None) \<Rightarrow> (h, n, [], Inl PlannerContextNil)
      | (Some orig, Some pCtx) \<Rightarrow>
          if length (pcSkills pCtx) = 0 then (h, n, [], Inl ErrNoSkillsAvailable)
          else case buildReplanPrompt L tmpl h rCtx orig pCtx of
            None \<Rightarrow> (h, n, [], Inl NilDereference)
          | Some prompt \<Rightarrow>
              (case llmPlanRound decode (lpRouter p) h pCtx prompt replan_config of
                 (h1, tr, Inl err) \<Rightarrow> (h1, n, tr, Inl err)
               | (h1, tr, Inr plan0) \<Rightarrow>
                   (let plan = plan0\<lparr>plParentID := plID orig\<rparr> in
                    if length (plSteps plan) = 0 then (h1, n, tr, Inr plan)
                    else case ValidatorValidate (lpLimits p) (Some plan) of
                      Some err \<Rightarrow> (h1, n, tr, Inl (InReplan (ValidationFailed err)))
                    | None \<Rightarrow>
                        (case PlanValidate uuid n plan of
                           (n1, plan1, Some err) \<Rightarrow> (h1, n1, tr, Inl (InReplan (FreezeFailed err)))
                         | (n1, plan1, None) \<Rightarrow> (h1, n1, tr, Inr plan1)))))"

end
