(* ===== verification/Planner_Properties.thy ===== *)
theory Planner_Properties
  imports Planner
begin

text \<open>
  The properties of the planner: whatever the model answers, a plan that is returned is within the
  limits (or the empty stop signal); a revised plan also carries its lineage and is frozen; user
  text is escaped without loss; and the request has exactly one system message.
\<close>

section \<open>The plan validator\<close>

definition uses_tool :: "ExecutionStep \<Rightarrow> bool" where
  "uses_tool s = (stType s \<in> {''skill'', ''tool''})"

lemma count_tools_spec:
  "count_tools i n ss = Inr m \<longleftrightarrow> (\<forall>s \<in> set ss. step_valid s) \<and> m = n + length (filter uses_tool ss)"
  by (induction ss arbitrary: i n) (auto simp: step_valid_def uses_tool_def)

definition within_limits :: "ExecutionLimits \<Rightarrow> ExecutionPlan \<Rightarrow> bool" where
  "within_limits l p = (plAssistantID p \<noteq> [] \<and> plSteps p \<noteq> [] \<and> int (length (plSteps p)) \<le> MaxSteps l \<and>
     (\<forall>s \<in> set (plSteps p). step_valid s) \<and> int (length (filter uses_tool (plSteps p))) \<le> MaxToolCalls l)"

lemma ValidatorValidate_None: "ValidatorValidate l (Some p) = None \<longleftrightarrow> within_limits l p"
proof (cases "count_tools 0 0 (plSteps p)")
  case (Inl e)
  then have "\<not> (\<forall>s \<in> set (plSteps p). step_valid s)"
    using count_tools_spec [of 0 0 "plSteps p" "length (filter uses_tool (plSteps p))"] by simp
  with Inl show ?thesis unfolding ValidatorValidate_def within_limits_def by simp
next
  case (Inr m)
  with count_tools_spec [of 0 0 "plSteps p" m] show ?thesis
    by (simp add: ValidatorValidate_def within_limits_def not_less)
qed

section \<open>Plan\<close>

text \<open>C6. Whatever the model answers, a plan that \<open>Plan\<close> returns is the empty stop signal or respects
  the limits: it has an assistant, at least one and at most \<open>MaxSteps\<close> steps, every step named and of
  a known type, and at most \<open>MaxToolCalls\<close> of them skills or tools.\<close>

theorem Plan_within_limits:
  assumes "Plan tmpl decode p h pCtx = (h', tr, Inr plan)"
  shows "plSteps plan = [] \<or> within_limits (lpLimits p) plan"
  using assms
  by (auto simp: Plan_def ValidatorValidate_None split: if_splits option.splits prod.splits sum.splits)

definition demo_ctx :: PlannerContext where
  "demo_ctx = \<lparr>pcAssistantID = ''a'',
     pcSoul = \<lparr>asSystemPrompt = [], asPersonality = [], asInstructions = [], asAllowedSkills = [], asAllowedTools = []\<rparr>,
     pcProfileSoul = None, pcProfileOutput = None, pcMemoryContext = [],
     pcSkills = [\<lparr>sdID = ''s'', sdName = ''s'', sdDescription = [], sdInputSchema = None, sdKind = [], sdSourceID = []\<rparr>],
     pcUserRequest = ''hi'', pcProgressFn = False, pcConversationHistory = [], pcTurnResults = []\<rparr>"

definition usage0 :: TokenUsage where
  "usage0 = \<lparr>tuPromptTokens = 0, tuCompletionTokens = 0, tuTotalTokens = 0\<rparr>"

definition demo_planner :: LLMPlanner where
  "demo_planner = \<lparr>lpRouter = \<lparr>rt_providers = [(''m'', (demo_provider ''m'')\<lparr>pvGenerate := \<lambda>_.
       Inr \<lparr>gsContent = ''x'', gsToolCalls = [], gsUsage = usage0, gsFinishReason = [], gsLatency = 0\<rparr>\<rparr>)]\<rparr>,
     lpLimits = DefaultLimits\<rparr>"

definition demo_decode :: decoder where
  "demo_decode s st = ((fst st, demo_plan), None)"

lemmas planner_eval = buildPrompt_def SchemaToToolSpec_def Let_def llmPlanRound_def Route_def demo_planner_def
  demo_ctx_def demo_provider_def hasAllCapabilities_def gm_vals_def no_constraints_def ask_model_def
  parseResponse_def demo_decode_def plan_config_def replan_config_def

theorem Plan_within_limits_witness: "plSteps demo_plan = [] \<or> within_limits DefaultLimits demo_plan"
proof -
  have "ValidatorValidate DefaultLimits (Some demo_plan) = None"
    by (simp add: ValidatorValidate_def demo_plan_def demo_step_def DefaultLimits_def)
  then have "Plan (\<lambda>_. Some ''go'') demo_decode demo_planner [] demo_ctx = ([], [], Inr demo_plan)"
    by (simp add: Plan_def planner_eval) (simp add: demo_plan_def)
  from Plan_within_limits [OF this] show ?thesis by (simp add: demo_planner_def)
qed

section \<open>Replan\<close>

lemma PlanValidate_keeps:
  assumes "PlanValidate uuid n p = (n', p', None)"
  shows "map stName (plSteps p') = map stName (plSteps p) \<and> map stType (plSteps p') = map stType (plSteps p) \<and>
    plParentID p' = plParentID p \<and> plAssistantID p' = plAssistantID p \<and> plfrozen p'"
proof -
  let ?n1 = "if plID p = [] then Suc n else n"
  from assms obtain ss' where v: "validate_steps uuid ?n1 0 [] (plSteps p) = (n', ss', None)"
    and p': "plSteps p' = ss'" "plParentID p' = plParentID p" "plAssistantID p' = plAssistantID p" "plfrozen p'"
    by (auto simp: PlanValidate_def Freeze_def Let_def case_prod_beta split: if_splits option.splits)
      (metis prod.collapse)+
  have "list_all2 (with_id uuid ?n1 n') (plSteps p) ss'" using validate_steps_ids [OF v] by simp
  then have "map stName ss' = map stName (plSteps p) \<and> map stType ss' = map stType (plSteps p)"
    by (induction rule: list_all2_induct) (auto simp: with_id_def split: if_splits)
  with p' show ?thesis by simp
qed

lemma limits_by_shape:
  assumes "map stName (plSteps p') = map stName (plSteps p)" "map stType (plSteps p') = map stType (plSteps p)"
    and "plAssistantID p' = plAssistantID p" and "within_limits l p"
  shows "within_limits l p'"
proof -
  have len: "length (plSteps p') = length (plSteps p)" using assms(1) by (metis length_map)
  have "step_valid (plSteps p' ! i) = step_valid (plSteps p ! i)" if "i < length (plSteps p)" for i
    using that assms(1,2) len by (metis nth_map step_valid_def)
  then have valid: "(\<forall>s \<in> set (plSteps p'). step_valid s) = (\<forall>s \<in> set (plSteps p). step_valid s)"
    by (simp add: all_set_conv_all_nth len)
  have "length (filter uses_tool ss) = length (filter (\<lambda>t. t \<in> {''skill'', ''tool''}) (map stType ss))" for ss
    by (induction ss) (auto simp: uses_tool_def)
  then have "length (filter uses_tool (plSteps p')) = length (filter uses_tool (plSteps p))"
    using assms(2) by metis
  with assms(3,4) len valid show ?thesis unfolding within_limits_def by (metis length_0_conv)
qed

text \<open>C27. A plan returned by \<open>Replan\<close> names the plan it replaces as its parent; unless it is the empty
  stop signal it is within the limits, its step names are distinct and it is frozen.\<close>

theorem Replan_lineage:
  assumes "Replan L tmpl decode uuid p h n rCtx = (h', n', tr, Inr plan)" and "rcOriginalPlan rCtx = Some orig"
  shows "plParentID plan = plID orig \<and>
    (plSteps plan = [] \<or> plfrozen plan \<and> within_limits (lpLimits p) plan \<and> distinct (map stName (plSteps plan)))"
proof -
  from assms obtain pCtx prompt h1 plan0 where
    round: "llmPlanRound decode (lpRouter p) h pCtx prompt replan_config = (h1, tr, Inr plan0)"
    and split: "plan = plan0\<lparr>plParentID := plID orig\<rparr> \<and> plSteps plan0 = [] \<or>
      ValidatorValidate (lpLimits p) (Some (plan0\<lparr>plParentID := plID orig\<rparr>)) = None \<and>
      (\<exists>n1. PlanValidate uuid n (plan0\<lparr>plParentID := plID orig\<rparr>) = (n1, plan, None))"
    by (auto simp: Replan_def Let_def split: option.splits if_splits prod.splits sum.splits)
  from split show ?thesis
  proof
    assume "ValidatorValidate (lpLimits p) (Some (plan0\<lparr>plParentID := plID orig\<rparr>)) = None \<and>
      (\<exists>n1. PlanValidate uuid n (plan0\<lparr>plParentID := plID orig\<rparr>) = (n1, plan, None))"
    then obtain n1 where lim: "within_limits (lpLimits p) (plan0\<lparr>plParentID := plID orig\<rparr>)"
      and pv: "PlanValidate uuid n (plan0\<lparr>plParentID := plID orig\<rparr>) = (n1, plan, None)"
      by (auto simp: ValidatorValidate_None)
    note keep = PlanValidate_keeps [OF pv]
    have "plan_valid (plan0\<lparr>plParentID := plID orig\<rparr>)"
      using validate_steps_None [of uuid _ 0 "[]" "plSteps plan0"] pv
      by (auto simp: PlanValidate_def plan_valid_def Let_def case_prod_beta split: if_splits option.splits)
    then have "distinct (map stName (plSteps plan))" using keep by (simp add: plan_valid_def)
    with keep limits_by_shape [OF _ _ _ lim, of plan] show ?thesis by simp
  qed simp
qed

definition demo_replan :: ReplanContext where
  "demo_replan = \<lparr>rcOriginalPlan = Some demo_valid, rcFailedStep = demo_step, rcFailedStepResult = None,
     rcTrigger = ''tool_failure'', rcPreviousResults = [], rcPlannerContext = Some demo_ctx, rcErrorMessage = []\<rparr>"

theorem Replan_lineage_witness:
  "plParentID (demo_valid\<lparr>plParentID := plID demo_valid\<rparr>) = plID demo_valid \<and>
   (plSteps (demo_valid\<lparr>plParentID := plID demo_valid\<rparr>) = [] \<or>
    plfrozen (demo_valid\<lparr>plParentID := plID demo_valid\<rparr>) \<and>
    within_limits DefaultLimits (demo_valid\<lparr>plParentID := plID demo_valid\<rparr>) \<and>
    distinct (map stName (plSteps (demo_valid\<lparr>plParentID := plID demo_valid\<rparr>))))"
proof -
  have "buildReplanPrompt plain_lib (\<lambda>_. Some ''go'') [[]] demo_replan demo_valid demo_ctx = Some ''go''"
    by (simp add: buildReplanPrompt_def demo_ctx_def SchemaToToolSpec_def Let_def)
  moreover have "llmPlanRound demo_decode (lpRouter demo_planner) [[]] demo_ctx ''go'' replan_config = ([[]], [], Inr demo_plan)"
    by (simp add: planner_eval) (simp add: demo_plan_def)
  moreover have "ValidatorValidate DefaultLimits (Some (demo_plan\<lparr>plParentID := plID demo_valid\<rparr>)) = None"
    by (simp add: ValidatorValidate_def demo_plan_def demo_step_def DefaultLimits_def)
  moreover have "PlanValidate show_nat 0 (demo_plan\<lparr>plParentID := plID demo_valid\<rparr>) =
      (2, demo_valid\<lparr>plParentID := plID demo_valid\<rparr>, None)"
    by (simp add: PlanValidate_def demo_plan_def demo_step_def demo_valid_def Freeze_def validate_steps.simps)
  ultimately have "Replan plain_lib (\<lambda>_. Some ''go'') demo_decode show_nat demo_planner [[]] 0 demo_replan =
      ([[]], 2, [], Inr (demo_valid\<lparr>plParentID := plID demo_valid\<rparr>))"
    by (simp add: Replan_def demo_replan_def Let_def demo_plan_def) (simp add: demo_ctx_def demo_planner_def)
  from Replan_lineage [OF this, of demo_valid] show ?thesis by (simp add: demo_replan_def demo_planner_def)
qed

section \<open>Escaping\<close>

definition esc :: "char \<Rightarrow> string" where
  "esc c = (if c = CHR ''&'' then ''&amp;'' else if c = CHR ''<'' then ''&lt;'' else if c = CHR ''>'' then ''&gt;''
     else [c])"

lemma ReplaceAll_append: "ReplaceAll (a @ b) x new = ReplaceAll a x new @ ReplaceAll b x new"
  by (induction a) auto

lemma escapeXML_chars: "escapeXML s = concat (map esc s)"
proof (induction s)
  case (Cons c s)
  then show ?case by (simp add: escapeXML_def esc_def ReplaceAll_append)
qed (simp add: escapeXML_def)

lemma esc_prefix_free: "esc c @ u = esc d @ v \<Longrightarrow> c = d \<and> u = v"
  by (auto simp: esc_def split: if_splits)

text \<open>Escaping user text loses nothing and leaves no angle bracket: different texts stay
  different, and the escaped text contains neither \<open><\<close> nor \<open>>\<close>, so it cannot open or close a tag of
  the prompt.\<close>

theorem escapeXML_safe:
  "(escapeXML s = escapeXML t \<longleftrightarrow> s = t) \<and> CHR ''<'' \<notin> set (escapeXML s) \<and> CHR ''>'' \<notin> set (escapeXML s)"
proof (intro conjI)
  have "concat (map esc s) = concat (map esc t) \<Longrightarrow> s = t"
  proof (induction s arbitrary: t)
    case Nil
    then show ?case by (cases t) (auto simp: esc_def split: if_splits)
  next
    case (Cons c s)
    show ?case
    proof (cases t)
      case Nil
      with Cons.prems show ?thesis by (auto simp: esc_def split: if_splits)
    next
      case (Cons d t')
      with Cons.prems esc_prefix_free [of c "concat (map esc s)" d "concat (map esc t')"] Cons.IH [of t']
      show ?thesis by simp
    qed
  qed
  then show "escapeXML s = escapeXML t \<longleftrightarrow> s = t" by (auto simp: escapeXML_chars)
qed (auto simp: escapeXML_chars esc_def split: if_splits)

section \<open>The request\<close>

text \<open>The request sent to the model carries exactly one system message, the first, whatever
  roles the conversation history contains; the rest of the history is kept in order and the prompt
  comes last, as the user.\<close>

theorem request_one_system_message:
  "\<exists>hist. grMessages (build_request pCtx prompt) =
       NewTextMessage ''system'' (system_text pCtx) # hist @ [NewTextMessage ''user'' prompt] \<and>
     filter (\<lambda>m. msgRole m = ''system'') (hist @ [NewTextMessage ''user'' prompt]) = [] \<and>
     hist = filter (\<lambda>m. msgRole m \<noteq> ''system'') (pcConversationHistory pCtx)"
  by (simp add: build_request_def filterSystemMessages_def NewTextMessage_def)

lemma drain_tokens:
  "drain ev cs = (tr, Inr content) \<Longrightarrow> content = concat (map snd tr) \<and> (\<forall>x \<in> set tr. fst x = ev \<and> snd x \<noteq> [])"
proof (induction cs arbitrary: tr content)
  case (Cons c cs)
  obtain tr' res where d: "drain ev cs = (tr', res)" by fastforce
  with Cons.prems have "scError c = None" by (cases "scError c") auto
  with Cons.prems d obtain rest where "res = Inr rest" by (cases res) auto
  with Cons d \<open>scError c = None\<close> show ?case by (auto split: if_splits)
qed simp

text \<open>A streamed planning round reports what it reads: on success the progress events are the
  start event, one token event per non-empty piece of text, whose pieces in order make up the
  response, and the completion event.\<close>

theorem streaming_events:
  assumes "ask_model cfg provider True mReq = (tr, Inr content)" and "pvStream provider = Some gen"
  shows "\<exists>toks. tr = (evGenerating cfg, []) # map (Pair (evToken cfg)) toks @ [(evComplete cfg, [])] \<and>
    concat toks = content \<and> [] \<notin> set toks"
proof -
  from assms obtain chunks tr' where d: "drain (evToken cfg) chunks = (tr', Inr content)"
    and tr: "tr = (evGenerating cfg, []) # tr' @ [(evComplete cfg, [])]"
    by (auto simp: ask_model_def case_prod_beta Let_def split: sum.splits) (metis prod.collapse)+
  note tok = drain_tokens [OF d]
  then have "map (Pair (evToken cfg)) (map snd tr') = tr'"
    by (auto simp: map_idI prod_eq_iff)
  with tok tr show ?thesis by (intro exI [of _ "map snd tr'"]) auto
qed

definition one_chunk :: "string \<Rightarrow> StreamChunk" where
  "one_chunk s = \<lparr>scContent = s, scToolCalls = [], scFinishReason = [], scUsage = usage0, scError = None\<rparr>"

theorem streaming_events_witness:
  "\<exists>toks. [(''planning_generating'', []), (''planning_token'', ''hi''), (''planning_complete'', [])] =
     (evGenerating plan_config, []) # map (Pair (evToken plan_config)) toks @ [(evComplete plan_config, [])] \<and>
    concat toks = ''hi'' \<and> [] \<notin> set toks"
  by (rule streaming_events [of plan_config "(demo_provider ''m'')\<lparr>pvStream := Some (\<lambda>_. Inr [one_chunk [], one_chunk ''hi''])\<rparr>"
        "build_request demo_ctx ''go''"])
    (simp_all add: ask_model_def one_chunk_def plan_config_def)

section \<open>Tool specifications\<close>

text \<open>\<open>SchemaToToolSpec\<close> panics exactly when a property of the input schema is nil, as the JSON
  value \<open>null\<close> makes it; the validators accept such a schema.\<close>

theorem tool_spec_panics_iff:
  "SchemaToToolSpec d = None \<longleftrightarrow> (\<exists>s k. sdInputSchema d = Some s \<and> (k, None) \<in> set (props s))"
proof (cases "sdInputSchema d")
  case (Some s)
  have "None \<in> (\<lambda>(name, t). map_option (\<lambda>u. (name, param_type u)) t) ` set (props s) \<longleftrightarrow> (\<exists>k. (k, None) \<in> set (props s))"
    by force
  with Some show ?thesis by (simp add: SchemaToToolSpec_def Let_def seq_opt_None)
qed (simp add: SchemaToToolSpec_def)

end
