(* ===== verification/Telemetry.thy ===== *)
theory Telemetry
  imports Go_Value
begin

text \<open>
  \<open>telemetry/metrics.go\<close>: label filtering, the label string used as a map key, and the in-memory meter
  with its counters (64-bit, wrapping), gauges, histograms and snapshot.
\<close>

section \<open>Labels\<close>

type_synonym Labels = "(string, string) gomap"

definition LabelsString :: "Labels \<Rightarrow> string" where
  "LabelsString l =
     (if length l = 0 then []
      else Join (map (\<lambda>k. k @ ''='' @ (case gm_get l k of Some v \<Rightarrow> v | None \<Rightarrow> [])) (sort (gm_keys l))) '','')"

definition allowedLabelKeys :: "string list" where
  "allowedLabelKeys = [''provider'', ''skill'', ''stop_reason'', ''execution_mode'', ''status'', ''span_kind'',
     ''component'', ''operation'']"

definition ValidateLabelKey :: "string \<Rightarrow> string option" where
  "ValidateLabelKey key = (if key = [] then None else if key \<notin> set allowedLabelKeys then Some key else None)"

definition filterLabels :: "Labels option \<Rightarrow> Labels" where
  "filterLabels labels = (case labels of
     None \<Rightarrow> []
   | Some l \<Rightarrow> filter (\<lambda>(k, v). k \<in> set allowedLabelKeys) l)"

section \<open>The meter\<close>

type_synonym 'v table = "(string, (string, 'v) gomap) gomap"

record MemoryMeter =
  mmCounters :: "64 word table"
  mmGauges :: "gofloat table"
  mmHistograms :: "gofloat list table"
  mmLabelKeys :: "Labels table"

definition NewMemoryMeter :: MemoryMeter where
  "NewMemoryMeter = \<lparr>mmCounters = [], mmGauges = [], mmHistograms = [], mmLabelKeys = []\<rparr>"

definition row :: "'v table \<Rightarrow> string \<Rightarrow> (string, 'v) gomap" where
  "row t name = (case gm_get t name of None \<Rightarrow> [] | Some m \<Rightarrow> m)"

definition cell :: "'v table \<Rightarrow> string \<Rightarrow> string \<Rightarrow> 'v option" where
  "cell t name lk = gm_get (row t name) lk"

text \<open>The row is made when it is missing; a missing cell reads as the zero value.\<close>

definition set_cell :: "string \<Rightarrow> string \<Rightarrow> 'v \<Rightarrow> 'v table \<Rightarrow> 'v table" where
  "set_cell name lk v t = gm_put name (gm_put lk v (row t name)) t"

definition ensureLabelKey :: "string \<Rightarrow> string \<Rightarrow> Labels \<Rightarrow> MemoryMeter \<Rightarrow> MemoryMeter" where
  "ensureLabelKey name lk labels m =
     (if cell (mmLabelKeys m) name lk = None then m\<lparr>mmLabelKeys := set_cell name lk labels (mmLabelKeys m)\<rparr> else m)"

definition Counter :: "string \<Rightarrow> 64 word \<Rightarrow> Labels option \<Rightarrow> MemoryMeter \<Rightarrow> MemoryMeter" where
  "Counter name delta labels m =
     (let ls = filterLabels labels; lk = LabelsString ls; m1 = ensureLabelKey name lk ls m;
          old = (case cell (mmCounters m1) name lk of None \<Rightarrow> 0 | Some v \<Rightarrow> v)
      in m1\<lparr>mmCounters := set_cell name lk (old + delta) (mmCounters m1)\<rparr>)"

definition Gauge :: "string \<Rightarrow> gofloat \<Rightarrow> Labels option \<Rightarrow> MemoryMeter \<Rightarrow> MemoryMeter" where
  "Gauge name val labels m =
     (let ls = filterLabels labels; lk = LabelsString ls; m1 = ensureLabelKey name lk ls m
      in m1\<lparr>mmGauges := set_cell name lk val (mmGauges m1)\<rparr>)"

definition Histogram :: "string \<Rightarrow> gofloat \<Rightarrow> Labels option \<Rightarrow> MemoryMeter \<Rightarrow> MemoryMeter" where
  "Histogram name val labels m =
     (let ls = filterLabels labels; lk = LabelsString ls; m1 = ensureLabelKey name lk ls m;
          old = (case cell (mmHistograms m1) name lk of None \<Rightarrow> [] | Some v \<Rightarrow> v)
      in m1\<lparr>mmHistograms := set_cell name lk (old @ [val]) (mmHistograms m1)\<rparr>)"

record MetricsSnapshot =
  msCounters :: "(string, (Labels \<times> 64 word) list) gomap"
  msGauges :: "(string, (Labels \<times> gofloat) list) gomap"
  msHistograms :: "(string, (Labels \<times> gofloat list) list) gomap"

definition snapshot_table :: "Labels table \<Rightarrow> 'v table \<Rightarrow> (string, (Labels \<times> 'v) list) gomap" where
  "snapshot_table keys t =
     map (\<lambda>(name, labelMap).
       (name, map (\<lambda>(lk, v). (case cell keys name lk of None \<Rightarrow> [] | Some l \<Rightarrow> l, v)) labelMap)) t"

definition MeterSnapshot :: "MemoryMeter \<Rightarrow> MetricsSnapshot" where
  "MeterSnapshot m = \<lparr>msCounters = snapshot_table (mmLabelKeys m) (mmCounters m),
     msGauges = snapshot_table (mmLabelKeys m) (mmGauges m),
     msHistograms = snapshot_table (mmLabelKeys m) (mmHistograms m)\<rparr>"

section \<open>Properties\<close>

lemma cell_set_cell [simp]:
  "cell (set_cell name lk v t) n k = (if n = name \<and> k = lk then Some v else cell t n k)"
  by (auto simp: cell_def set_cell_def row_def split: option.split)

lemma counters_ensure [simp]: "mmCounters (ensureLabelKey name lk ls m) = mmCounters m"
  by (simp add: ensureLabelKey_def)

datatype meter_call = CCounter string "64 word" "Labels option" | CGauge string gofloat "Labels option"
  | CHistogram string gofloat "Labels option"

fun meter_run :: "meter_call \<Rightarrow> MemoryMeter \<Rightarrow> MemoryMeter" where
  "meter_run (CCounter n d l) m = Counter n d l m"
| "meter_run (CGauge n v l) m = Gauge n v l m"
| "meter_run (CHistogram n v l) m = Histogram n v l m"

definition label_key :: "Labels option \<Rightarrow> string" where
  "label_key l = LabelsString (filterLabels l)"

fun delta_of :: "string \<Rightarrow> string \<Rightarrow> meter_call \<Rightarrow> 64 word" where
  "delta_of n k (CCounter n' d l) = (if n' = n \<and> label_key l = k then d else 0)"
| "delta_of n k c = 0"

definition counter_value :: "MemoryMeter \<Rightarrow> string \<Rightarrow> string \<Rightarrow> 64 word" where
  "counter_value m n k = (case cell (mmCounters m) n k of None \<Rightarrow> 0 | Some v \<Rightarrow> v)"

lemma meter_run_counter: "counter_value (meter_run c m) n k = counter_value m n k + delta_of n k c"
  by (cases c) (auto simp: counter_value_def Counter_def Gauge_def Histogram_def label_key_def Let_def)

text \<open>A counter holds the sum of its increments: after any sequence of calls on a new meter, the
  value under a name and a label string is the sum, in 64-bit arithmetic, of the deltas counted
  there; gauges and histograms do not disturb it.\<close>

theorem counter_is_sum:
  "counter_value (fold meter_run cs NewMemoryMeter) n k = sum_list (map (delta_of n k) cs)"
proof -
  have "counter_value (fold meter_run cs m) n k = counter_value m n k + sum_list (map (delta_of n k) cs)" for m
    by (induction cs arbitrary: m) (simp_all add: meter_run_counter ac_simps)
  then show ?thesis by (simp add: NewMemoryMeter_def counter_value_def cell_def row_def)
qed

lemma gm_same_keys_mset: "gm_same l l' \<Longrightarrow> mset (gm_keys l) = mset (gm_keys l')"
  by (simp add: gm_same_def gm_keys_def)

text \<open>The label string is deterministic: it does not depend on the order in which Go ranges over
  the label map.\<close>

theorem LabelsString_deterministic:
  assumes "gm_same l l'"
  shows "LabelsString l = LabelsString l'"
proof -
  have "sort (gm_keys l) = sort (gm_keys l')"
    using gm_same_keys_mset [OF assms] by (metis properties_for_sort mset_sort sorted_sort)
  then show ?thesis
    using assms gm_same_length [OF assms] by (simp add: LabelsString_def gm_same_get [OF assms])
qed

theorem LabelsString_deterministic_witness:
  "LabelsString [(''status'', ''ok''), (''skill'', ''s'')] = LabelsString [(''skill'', ''s''), (''status'', ''ok'')]"
  by (rule LabelsString_deterministic) (simp add: gm_same_def gm_wf_def)

text \<open>The label string is not injective: separators are not escaped, so the label set with a
  skill named \<open>x,status=y\<close> and the one with skill \<open>x\<close> and status \<open>y\<close> share one counter, and the
  snapshot reports the sum of both under the labels that came first.\<close>

theorem label_strings_collide:
  "let a = [(''skill'', ''x,status=y'')]; b = [(''skill'', ''x''), (''status'', ''y'')];
       m = Counter ''c'' 2 (Some b) (Counter ''c'' 1 (Some a) NewMemoryMeter)
   in a \<noteq> b \<and> filterLabels (Some a) = a \<and> filterLabels (Some b) = b \<and>
      msCounters (MeterSnapshot m) = [(''c'', [(a, 3)])]"
proof -
  have s: "sort [''skill'', ''status''] = [''skill'', ''status'']" by (simp add: sorted_sort_id)
  have k: "LabelsString [(''skill'', ''x,status=y'')] = ''skill=x,status=y''"
    "LabelsString [(''skill'', ''x''), (''status'', ''y'')] = ''skill=x,status=y''"
    using s by (simp_all add: LabelsString_def gm_keys_def)
  have f: "filterLabels (Some [(''skill'', ''x,status=y'')]) = [(''skill'', ''x,status=y'')]"
    "filterLabels (Some [(''skill'', ''x''), (''status'', ''y'')]) = [(''skill'', ''x''), (''status'', ''y'')]"
    by (simp_all add: filterLabels_def allowedLabelKeys_def)
  show ?thesis
    unfolding Let_def
    by (simp add: Counter_def k f ensureLabelKey_def MeterSnapshot_def snapshot_table_def NewMemoryMeter_def
        set_cell_def gm_put_def cell_def row_def Let_def)
qed

end
