(* ===== verification/MCP_Server.thy ===== *)
theory MCP_Server
  imports Go_Value
begin

text \<open>
  \<open>mcp/server.go\<close> and the data of \<open>mcp/types.go\<close>: dispatch of JSON-RPC requests to a tool provider. The
  provider is an interface implemented elsewhere, so its two methods are arguments; so is
  \<open>decode_params\<close>, the decoding of marshalled parameters into \<open>ToolCallParams\<close>.
\<close>

section \<open>Types\<close>

record JSONRPCRequest =
  rqJSONRPC :: string
  rqID :: goval
  rqMethod :: string
  rqParams :: goval

record JSONRPCError =
  jeCode :: int
  jeMessage :: string

record Tool =
  toName :: string
  toDescription :: string
  toInputSchema :: "(string, goval) gomap option"

record ContentItem =
  ciType :: string
  ciText :: string
  ciData :: string
  ciMimeType :: string
  ciURI :: string

record ToolCallResult =
  tcrContent :: "ContentItem list"
  tcrIsError :: bool

text \<open>The result of a tool call is a pointer that the provider may leave nil.\<close>

datatype rpc_result = InitializeResult goval | ToolListResult "Tool list" | CallResult "ToolCallResult option"

record JSONRPCResponse =
  rsJSONRPC :: string
  rsID :: goval
  rsResult :: "rpc_result option"
  rsError :: "JSONRPCError option"

definition ErrCodeMethodNotFound :: int where "ErrCodeMethodNotFound = - 32601"
definition ErrCodeInvalidParams :: int where "ErrCodeInvalidParams = - 32602"

record ToolProvider =
  ListTools :: "Tool list"
  CallTool :: "string \<Rightarrow> (string, goval) gomap \<Rightarrow> string + ToolCallResult option"

section \<open>Handlers (server.go)\<close>

definition rpc_ok :: "JSONRPCRequest \<Rightarrow> rpc_result \<Rightarrow> JSONRPCResponse" where
  "rpc_ok req r = \<lparr>rsJSONRPC = ''2.0'', rsID = rqID req, rsResult = Some r, rsError = None\<rparr>"

definition rpc_fail :: "JSONRPCRequest \<Rightarrow> int \<Rightarrow> string \<Rightarrow> JSONRPCResponse" where
  "rpc_fail req code msg = \<lparr>rsJSONRPC = ''2.0'', rsID = rqID req, rsResult = None,
     rsError = Some \<lparr>jeCode = code, jeMessage = msg\<rparr>\<rparr>"

definition handleInitialize :: "JSONRPCRequest \<Rightarrow> JSONRPCResponse" where
  "handleInitialize req = rpc_ok req (InitializeResult (GMap
     [(''protocolVersion'', GStr ''2024-11-05''),
      (''capabilities'', GMap [(''tools'', GMap [])]),
      (''serverInfo'', GMap [(''name'', GStr ''openbotstack''), (''version'', GStr ''1.0.0'')])]))"

text \<open>
  The code fills in missing schemas in the slice it got from the provider. A provider that hands out its own slice finds them there
  afterwards; as filling in twice is the same as once (\<open>with_schema_twice\<close>), no response depends on that, and the
  change to the provider is not modelled.
\<close>

definition with_schema :: "Tool \<Rightarrow> Tool" where
  "with_schema t = (if toInputSchema t = None then t\<lparr>toInputSchema := Some [(''type'', GStr ''object'')]\<rparr> else t)"

definition handleToolsList :: "ToolProvider \<Rightarrow> JSONRPCRequest \<Rightarrow> JSONRPCResponse" where
  "handleToolsList pr req = rpc_ok req (ToolListResult (map with_schema (ListTools pr)))"

definition handleToolsCall :: "stdlib \<Rightarrow> (string \<Rightarrow> string + (string \<times> (string, goval) gomap option)) \<Rightarrow> ToolProvider \<Rightarrow>
    JSONRPCRequest \<Rightarrow> JSONRPCResponse" where
  "handleToolsCall L decode_params pr req =
     (case json_marshal L (rqParams req) of
        None \<Rightarrow> rpc_fail req ErrCodeInvalidParams ''invalid params''
      | Some paramsBytes \<Rightarrow>
          (case decode_params paramsBytes of
             Inl err \<Rightarrow> rpc_fail req ErrCodeInvalidParams ''invalid params format''
           | Inr (name, arguments) \<Rightarrow>
               if name = [] then rpc_fail req ErrCodeInvalidParams ''tool name is required''
               else
                 (let args = (case arguments of None \<Rightarrow> [] | Some a \<Rightarrow> a) in
                  case CallTool pr name args of
                    Inl err \<Rightarrow> rpc_ok req (CallResult (Some
                      \<lparr>tcrContent = [\<lparr>ciType = ''text'', ciText = err, ciData = [], ciMimeType = [], ciURI = []\<rparr>],
                       tcrIsError = True\<rparr>))
                  | Inr result \<Rightarrow> rpc_ok req (CallResult result))))"

definition HandleRequest :: "stdlib \<Rightarrow> (string \<Rightarrow> string + (string \<times> (string, goval) gomap option)) \<Rightarrow> ToolProvider \<Rightarrow>
    JSONRPCRequest \<Rightarrow> JSONRPCResponse" where
  "HandleRequest L decode_params pr req =
     (if rqMethod req = ''initialize'' then handleInitialize req
      else if rqMethod req = ''tools/list'' then handleToolsList pr req
      else if rqMethod req = ''tools/call'' then handleToolsCall L decode_params pr req
      else rpc_fail req ErrCodeMethodNotFound ''method not found'')"

section \<open>Server authentication (types.go)\<close>

record ServerAuth =
  saType :: string
  saToken :: string
  saHeader :: string
  saHeaders :: "(string, string) gomap"
  saEnvAuth :: "(string, string) gomap option"

definition HTTPHeaders :: "ServerAuth option \<Rightarrow> (string, string) gomap option" where
  "HTTPHeaders auth = (case auth of
     None \<Rightarrow> None
   | Some a \<Rightarrow>
       if saType a = ''none'' \<or> saType a = [] then None
       else if saType a = ''bearer'' then
         Some (if saToken a \<noteq> [] then [(''Authorization'', ''Bearer '' @ saToken a)] else [])
       else if saType a = ''api_key'' then
         (let h = (if saHeader a = [] then ''X-API-Key'' else saHeader a)
          in Some (if saToken a \<noteq> [] then [(h, saToken a)] else []))
       else if saType a = ''custom'' then Some (saHeaders a)
       else Some [])"

definition EnvVars :: "ServerAuth option \<Rightarrow> (string, string) gomap option" where
  "EnvVars auth = (case auth of None \<Rightarrow> None | Some a \<Rightarrow> saEnvAuth a)"

section \<open>Properties\<close>

lemma with_schema_twice: "with_schema (with_schema t) = with_schema t"
  by (simp add: with_schema_def)

text \<open>The tool and the arguments a request asks for, if it does.\<close>

definition tool_params :: "stdlib \<Rightarrow> (string \<Rightarrow> string + (string \<times> (string, goval) gomap option)) \<Rightarrow> JSONRPCRequest \<Rightarrow>
    (string \<times> (string, goval) gomap) option" where
  "tool_params L decode_params req = (case json_marshal L (rqParams req) of
     None \<Rightarrow> None
   | Some b \<Rightarrow> (case decode_params b of
       Inl e \<Rightarrow> None
     | Inr (name, args) \<Rightarrow> if name = [] then None else Some (name, case args of None \<Rightarrow> [] | Some a \<Rightarrow> a)))"

lemma handleToolsCall_refused:
  "tool_params L decode_params req = None \<Longrightarrow>
   \<exists>msg. handleToolsCall L decode_params pr req = rpc_fail req ErrCodeInvalidParams msg"
  by (auto simp: handleToolsCall_def tool_params_def split: option.splits sum.splits if_splits)

lemma handleToolsCall_called:
  assumes "tool_params L decode_params req = Some (name, args)"
  shows "handleToolsCall L decode_params pr req = rpc_ok req (CallResult (case CallTool pr name args of
    Inl e \<Rightarrow> Some \<lparr>tcrContent = [\<lparr>ciType = ''text'', ciText = e, ciData = [], ciMimeType = [], ciURI = []\<rparr>], tcrIsError = True\<rparr>
  | Inr res \<Rightarrow> res))"
  using assms by (auto simp: handleToolsCall_def tool_params_def Let_def split: option.splits sum.splits if_splits)

lemmas response_simps = rpc_ok_def rpc_fail_def ErrCodeMethodNotFound_def ErrCodeInvalidParams_def

lemma tools_call_response:
  "let r = handleToolsCall L decode_params pr req in
     rsJSONRPC r = ''2.0'' \<and> rsID r = rqID req \<and> (rsResult r = None \<longleftrightarrow> rsError r \<noteq> None) \<and>
     map_option jeCode (rsError r) = (if tool_params L decode_params req = None then Some (- 32602) else None)"
proof (cases "tool_params L decode_params req")
  case None
  then obtain msg where "handleToolsCall L decode_params pr req = rpc_fail req ErrCodeInvalidParams msg"
    using handleToolsCall_refused by blast
  with None show ?thesis by (simp add: response_simps)
next
  case (Some p)
  then show ?thesis using handleToolsCall_called[of L decode_params req "fst p" "snd p" pr] by (simp add: response_simps)
qed

text \<open>C35. 
  Every request gets one JSON-RPC 2.0 response with its own id and either a result or an
  error, never both. It is the error -32601 exactly for an unknown method, the error -32602 exactly for a tool call whose
  parameters cannot be written, cannot be read or name no tool, and never another one. A tool that fails is not such an error but a result
  flagged \<open>IsError\<close> with the text of the failure; a tool that answers has its result passed on. \<open>initialize\<close> names the
  protocol version, and a list gives the tools of the provider in order, each with an input schema, its own if it has one.
\<close>

theorem rpc_response_well_formed:
  "let r = HandleRequest L decode_params pr req; m = rqMethod req; params = tool_params L decode_params req in
     rsJSONRPC r = ''2.0'' \<and> rsID r = rqID req \<and> (rsResult r = None \<longleftrightarrow> rsError r \<noteq> None) \<and>
     map_option jeCode (rsError r) =
       (if m \<notin> {''initialize'', ''tools/list'', ''tools/call''} then Some (- 32601)
        else if m = ''tools/call'' \<and> params = None then Some (- 32602) else None) \<and>
     (m = ''initialize'' \<longrightarrow> (\<exists>info. rsResult r = Some (InitializeResult (GMap ((''protocolVersion'', GStr ''2024-11-05'') # info))))) \<and>
     (m = ''tools/list'' \<longrightarrow> (\<exists>ts. rsResult r = Some (ToolListResult ts) \<and>
        list_all2 (\<lambda>t t'. t' = t\<lparr>toInputSchema := toInputSchema t'\<rparr> \<and> toInputSchema t' \<noteq> None \<and> toInputSchema t \<in> {None, toInputSchema t'})
          (ListTools pr) ts)) \<and>
     (\<forall>name args. m = ''tools/call'' \<longrightarrow> params = Some (name, args) \<longrightarrow>
        (case CallTool pr name args of
           Inl e \<Rightarrow> \<exists>res. rsResult r = Some (CallResult (Some res)) \<and> tcrIsError res \<and> map ciText (tcrContent res) = [e]
         | Inr res \<Rightarrow> rsResult r = Some (CallResult res)))"
proof -
  consider (init) "rqMethod req = ''initialize''" | (list) "rqMethod req = ''tools/list''" | (call) "rqMethod req = ''tools/call''"
    | (other) "rqMethod req \<notin> {''initialize'', ''tools/list'', ''tools/call''}" by blast
  then show ?thesis
  proof cases
    case list
    have "list_all2 (\<lambda>t t'. t' = t\<lparr>toInputSchema := toInputSchema t'\<rparr> \<and> toInputSchema t' \<noteq> None \<and> toInputSchema t \<in> {None, toInputSchema t'})
        ts (map with_schema ts)" for ts
      by (simp add: list_all2_map2 list_all2_same with_schema_def)
    with list show ?thesis by (simp add: Let_def HandleRequest_def handleToolsList_def response_simps)
  next
    case call
    then have h: "HandleRequest L decode_params pr req = handleToolsCall L decode_params pr req" by (simp add: HandleRequest_def)
    have "case CallTool pr name args of
        Inl e \<Rightarrow> \<exists>res. rsResult (handleToolsCall L decode_params pr req) = Some (CallResult (Some res)) \<and> tcrIsError res \<and> map ciText (tcrContent res) = [e]
      | Inr res \<Rightarrow> rsResult (handleToolsCall L decode_params pr req) = Some (CallResult res)"
      if "tool_params L decode_params req = Some (name, args)" for name args
      using handleToolsCall_called[OF that, of pr] by (simp add: rpc_ok_def split: sum.split)
    with call tools_call_response[of L decode_params pr req] show ?thesis unfolding h by (simp add: Let_def)
  qed (simp_all add: Let_def HandleRequest_def handleInitialize_def response_simps)
qed

definition demo_tools :: ToolProvider where
  "demo_tools = \<lparr>ListTools = [\<lparr>toName = ''t'', toDescription = [], toInputSchema = None\<rparr>],
     CallTool = \<lambda>n a. Inl ''failed''\<rparr>"

definition demo_req :: "string \<Rightarrow> JSONRPCRequest" where
  "demo_req m = \<lparr>rqJSONRPC = ''2.0'', rqID = GInt 1, rqMethod = m, rqParams = GNil\<rparr>"

theorem rpc_response_well_formed_witness:
  "let r = HandleRequest plain_lib (\<lambda>s. Inr (''t'', None)) demo_tools (demo_req ''tools/call'') in
     rsError r = None \<and> (\<exists>res. rsResult r = Some (CallResult (Some res)) \<and> tcrIsError res \<and> map ciText (tcrContent res) = [''failed''])"
proof -
  have "tool_params plain_lib (\<lambda>s. Inr (''t'', None)) (demo_req ''tools/call'') = Some (''t'', [])"
    by (simp add: tool_params_def demo_req_def)
  then show ?thesis
    using rpc_response_well_formed [of plain_lib "\<lambda>s. Inr (''t'', None)" demo_tools "demo_req ''tools/call''"]
    by (simp add: Let_def demo_tools_def demo_req_def)
qed

end
