(* ===== verification/Providers.thy ===== *)
theory Providers
  imports AI_Types
begin

text \<open>
  \<open>ai/providers\<close>: the OpenAI-compatible backend (\<open>providers.go\<close>, \<open>streaming.go\<close>) and the mapping of tool
  choices (\<open>tool_choice.go\<close>). What the code reaches through \<open>net/http\<close> is an argument: the record
  \<open>transport\<close> says what building and sending the \<open>n\<close>-th request of a call yields and whether the
  context ends during a wait, the record \<open>consumer\<close> how the reader of a stream's channel behaves.
  \<open>json.Marshal\<close> of a request and \<open>json.Unmarshal\<close> into the response structs are arguments as well.
  A panic in the goroutine of a stream ends the process; the reader then gives a last chunk whose error says so.
\<close>

section \<open>Tool choice (tool_choice.go)\<close>

datatype openai_choice = OpenAIDefault | OpenAIString string | OpenAIFunction string

definition mapToolChoiceToOpenAI :: "tool_choice \<Rightarrow> openai_choice" where
  "mapToolChoiceToOpenAI tc = (case tc of
     NoChoice \<Rightarrow> OpenAIDefault
   | ChoiceMode v \<Rightarrow>
       if v = ''auto'' then OpenAIString ''auto''
       else if v = ''required'' then OpenAIString ''required''
       else if v = ''none'' then OpenAIString ''none''
       else OpenAIDefault
   | ChoiceSpecific name \<Rightarrow> OpenAIFunction name
   | ChoiceOther \<Rightarrow> OpenAIDefault)"

datatype anthropic_choice = AnthropicDefault | AnthropicString string | AnthropicObject string string

definition mapToolChoiceToAnthropic :: "tool_choice \<Rightarrow> anthropic_choice" where
  "mapToolChoiceToAnthropic tc = (case tc of
     NoChoice \<Rightarrow> AnthropicDefault
   | ChoiceMode v \<Rightarrow>
       if v = ''auto'' then AnthropicString ''auto''
       else if v = ''required'' then AnthropicObject ''any'' []
       else if v = ''none'' then AnthropicString ''none''
       else AnthropicDefault
   | ChoiceSpecific name \<Rightarrow> AnthropicObject ''tool'' name
   | ChoiceOther \<Rightarrow> AnthropicDefault)"

section \<open>Requests (providers.go)\<close>

record openAIContentBlock =
  obType :: string
  obText :: string
  obImageURL :: "string option"

datatype chat_content = ContentNil | ContentText string | ContentBlocks "openAIContentBlock list"

definition openai_block :: "ContentBlock \<Rightarrow> openAIContentBlock list" where
  "openai_block c =
     (if cbType c = ''text'' then [\<lparr>obType = ''text'', obText = cbText c, obImageURL = None\<rparr>]
      else if cbType c = ''image'' then [\<lparr>obType = ''image_url'', obText = [], obImageURL = Some (ImageRef c)\<rparr>]
      else [])"

definition contentsToOpenAI :: "ContentBlock list \<Rightarrow> chat_content" where
  "contentsToOpenAI contents =
     (if length contents = 0 then ContentNil
      else if length contents = 1 \<and> cbType (contents ! 0) = ''text'' then ContentText (cbText (contents ! 0))
      else ContentBlocks (concat (map openai_block contents)))"

record chatMessage =
  cmRole :: string
  cmContent :: chat_content
  cmName :: string

definition buildOpenAIMessages :: "GenerateRequest \<Rightarrow> chatMessage list" where
  "buildOpenAIMessages req =
     map (\<lambda>m. \<lparr>cmRole = msgRole m, cmContent = contentsToOpenAI (msgContents m), cmName = msgName m\<rparr>) (grMessages req)"

record chatRequest =
  crModel :: string
  crMessages :: "chatMessage list"
  crMaxTokens :: int
  crTemperature :: "gofloat option"
  crTools :: "(string \<times> ToolDefinition) list"
  crToolChoice :: openai_choice
  crParallelToolCalls :: "bool option"
  crChatTemplateKwargs :: "(string \<times> bool) list"

record streamChatRequest =
  srRequest :: chatRequest
  srStream :: bool
  srIncludeUsage :: bool

text \<open>The body both calls build; a tool is its kind \<open>function\<close> with the definition.\<close>

definition build_chat_request :: "stdlib \<Rightarrow> string \<Rightarrow> GenerateRequest \<Rightarrow> chatRequest" where
  "build_chat_request L model req =
     \<lparr>crModel = model, crMessages = buildOpenAIMessages req,
      crMaxTokens = (if grMaxTokens req > 0 then grMaxTokens req else 0),
      crTemperature = (if f_lt (FFin 0) (grTemperature req) then Some (grTemperature req) else None),
      crTools = map (\<lambda>t. (''function'', t)) (grTools req),
      crToolChoice = mapToolChoiceToOpenAI (grToolChoice req),
      crParallelToolCalls = grParallelToolCalls req,
      crChatTemplateKwargs = (if Contains (to_lower L model) ''qwen'' then [(''enable_thinking'', False)] else [])\<rparr>"

section \<open>The transport\<close>

text \<open>
  A request is its URL, the \<open>Header.Set\<close> calls made on it in order, and its payload. A response has
  a status, the bytes its body delivers and the error the reading ends with, if any.
\<close>

record http_request =
  hrURL :: string
  hrSets :: "(string \<times> string) list"
  hrPayload :: string

datatype http_outcome = TransportError string | Response nat string "string option"

record transport =
  new_request :: "string \<Rightarrow> string option"
  send :: "nat \<Rightarrow> http_request \<Rightarrow> http_outcome"
  done_within :: "nat \<Rightarrow> 64 word \<Rightarrow> bool"

definition TrimRightSlash :: "string \<Rightarrow> string" where
  "TrimRightSlash s = rev (dropWhile (\<lambda>c. c = CHR ''/'') (rev s))"

definition chat_http_request :: "bool \<Rightarrow> string \<Rightarrow> string \<Rightarrow> (string \<times> string) list \<Rightarrow> string \<Rightarrow> http_request" where
  "chat_http_request always_auth baseURL apiKey headers payload =
     \<lparr>hrURL = TrimRightSlash baseURL @ ''/chat/completions'',
      hrSets = [(''Content-Type'', ''application/json'')] @
               (if always_auth \<or> apiKey \<noteq> [] then [(''Authorization'', ''Bearer '' @ apiKey)] else []) @ headers,
      hrPayload = payload\<rparr>"

text \<open>
  \<open>time.Duration(1<<(attempt-1)) * time.Second\<close> in 64-bit nanoseconds, capped at 30 seconds by a
  signed comparison.
\<close>

definition second_ns :: "64 word" where "second_ns = 1000000000"

definition backoff :: "nat \<Rightarrow> 64 word" where
  "backoff attempt =
     (let b = push_bit (attempt - 1) 1 * second_ns in if sint b > sint (30 * second_ns) then 30 * second_ns else b)"

definition attempts_of :: "64 word \<Rightarrow> nat" where
  "attempts_of maxRetries = (if sint (maxRetries + 1) < 1 then 1 else nat (sint (maxRetries + 1)))"

section \<open>Generate with retries (openAICompatibleGenerate)\<close>

datatype last_error = NoError | LastTransport string | LastRead string | LastRateLimited | LastStatus nat

datatype provider_error =
    APIKeyNotConfigured string
  | CapabilityNotSupported
  | NoInputTexts
  | MarshalFailed string
  | CreateRequestFailed string
  | ContextDone
  | UnmarshalFailed string
  | APIError string string
  | AuthenticationFailed nat
  | BadRequest nat string
  | StatusNotOK nat string
  | RequestFailed nat last_error
  | ProviderUnavailable last_error

record chatToolCall =
  ccID :: string
  ccName :: string
  ccArguments :: string

record chatChoice =
  chContent :: string
  chReasoningContent :: string
  chToolCalls :: "chatToolCall list"
  chFinishReason :: string

record chatResponse =
  caChoices :: "chatChoice list"
  caUsage :: TokenUsage
  caError :: "(string \<times> string) option"

definition to_tool_call :: "chatToolCall \<Rightarrow> ToolCall" where
  "to_tool_call tc = \<lparr>tcID = ccID tc, tcName = ccName tc, tcArguments = ccArguments tc\<rparr>"

text \<open>The latency is measured with the clock and left at 0 here.\<close>

definition chat_result :: "chatResponse \<Rightarrow> GenerateResponse" where
  "chat_result r = (case caChoices r of
     [] \<Rightarrow> \<lparr>gsContent = [], gsToolCalls = [], gsUsage = caUsage r, gsFinishReason = [], gsLatency = 0\<rparr>
   | choice # _ \<Rightarrow>
       \<lparr>gsContent = (if chContent choice = [] \<and> chReasoningContent choice \<noteq> []
                    then chReasoningContent choice else chContent choice),
        gsToolCalls = map to_tool_call (chToolCalls choice), gsUsage = caUsage r,
        gsFinishReason = chFinishReason choice, gsLatency = 0\<rparr>)"

definition read_chat :: "(string \<Rightarrow> string + chatResponse) \<Rightarrow> string \<Rightarrow> provider_error + GenerateResponse" where
  "read_chat decode body = (case decode body of
     Inl err \<Rightarrow> Inl (UnmarshalFailed err)
   | Inr r \<Rightarrow> (case caError r of
         Some (msg, ty) \<Rightarrow> Inl (APIError msg ty)
       | None \<Rightarrow> Inr (chat_result r)))"

text \<open>What one exchange means: a final answer, or an error to remember before the next attempt.\<close>

definition judge :: "(string \<Rightarrow> provider_error + 'r) \<Rightarrow> http_outcome \<Rightarrow> last_error + (provider_error + 'r)" where
  "judge read outcome = (case outcome of
     TransportError e \<Rightarrow> Inl (LastTransport e)
   | Response status body (Some e) \<Rightarrow> Inl (LastRead e)
   | Response status body None \<Rightarrow>
       if status = 200 then Inr (read body)
       else if status = 401 \<or> status = 403 then Inr (Inl (AuthenticationFailed status))
       else if status = 429 then Inl LastRateLimited
       else if status \<ge> 500 then Inl (LastStatus status)
       else Inr (Inl (BadRequest status body)))"

fun generate_loop :: "transport \<Rightarrow> (string \<Rightarrow> provider_error + 'r) \<Rightarrow> http_request \<Rightarrow> nat \<Rightarrow> nat \<Rightarrow> nat \<Rightarrow> last_error \<Rightarrow>
    provider_error + 'r" where
  "generate_loop T read request attempts attempt 0 lastErr = Inl (RequestFailed attempts lastErr)"
| "generate_loop T read request attempts attempt (Suc left) lastErr =
     (if attempt > 0 \<and> done_within T attempt (backoff attempt) then Inl ContextDone
      else case new_request T (hrURL request) of
        Some e \<Rightarrow> Inl (CreateRequestFailed e)
      | None \<Rightarrow> (case judge read (send T attempt request) of
            Inr final \<Rightarrow> final
          | Inl err \<Rightarrow> generate_loop T read request attempts (Suc attempt) left err))"

definition openAICompatibleGenerate :: "stdlib \<Rightarrow> (chatRequest \<Rightarrow> string + string) \<Rightarrow> (string \<Rightarrow> string + chatResponse) \<Rightarrow>
    transport \<Rightarrow> string \<Rightarrow> string \<Rightarrow> string \<Rightarrow> (string \<times> string) list \<Rightarrow> GenerateRequest \<Rightarrow> 64 word \<Rightarrow>
    provider_error + GenerateResponse" where
  "openAICompatibleGenerate L marshal decode T baseURL apiKey model headers req maxRetries =
     (case marshal (build_chat_request L model req) of
        Inl err \<Rightarrow> Inl (MarshalFailed err)
      | Inr payload \<Rightarrow> generate_loop T (read_chat decode) (chat_http_request True baseURL apiKey headers payload)
                        (attempts_of maxRetries) 0 (attempts_of maxRetries) NoError)"


section \<open>Streaming: the connection (openAICompatibleStream)\<close>

text \<open>
  A stream body is what it delivers and the error its reading ends with. A response that is not
  going to be read has its body closed; reading it afterwards is an error of \<open>net/http\<close>.
\<close>

type_synonym stream_body = "string \<times> string option"

definition closed_body :: stream_body where
  "closed_body = ([], Some ''http: read on closed response body'')"

text \<open>The connect loop: the last response if any, whether it was a 200, and the last error.\<close>

fun connect_loop :: "transport \<Rightarrow> http_request \<Rightarrow> nat \<Rightarrow> nat \<Rightarrow> stream_body option \<Rightarrow> last_error \<Rightarrow>
    provider_error + (stream_body option \<times> bool \<times> last_error)" where
  "connect_loop T request attempt 0 resp lastErr = Inr (resp, False, lastErr)"
| "connect_loop T request attempt (Suc left) resp lastErr =
     (if attempt > 0 \<and> done_within T attempt (backoff attempt) then Inl ContextDone
      else case new_request T (hrURL request) of
        Some e \<Rightarrow> Inl (CreateRequestFailed e)
      | None \<Rightarrow> (case send T attempt request of
            TransportError e \<Rightarrow> connect_loop T request (Suc attempt) left None (LastTransport e)
          | Response status body err \<Rightarrow>
              if status = 200 then Inr (Some (body, err), True, NoError)
              else if status = 401 \<or> status = 403 then Inl (AuthenticationFailed status)
              else if status < 500 \<and> status \<noteq> 429 then Inl (BadRequest status [])
              else connect_loop T request (Suc attempt) left (Some closed_body) (LastStatus status)))"

definition openAICompatibleConnect :: "stdlib \<Rightarrow> (streamChatRequest \<Rightarrow> string + string) \<Rightarrow> transport \<Rightarrow>
    string \<Rightarrow> string \<Rightarrow> string \<Rightarrow> (string \<times> string) list \<Rightarrow> GenerateRequest \<Rightarrow> 64 word \<Rightarrow> provider_error + stream_body" where
  "openAICompatibleConnect L marshal T baseURL apiKey model headers req maxRetries =
     (case marshal \<lparr>srRequest = build_chat_request L model req, srStream = True, srIncludeUsage = True\<rparr> of
        Inl err \<Rightarrow> Inl (MarshalFailed err)
      | Inr payload \<Rightarrow>
          (case connect_loop T (chat_http_request False baseURL apiKey headers payload) 0 (attempts_of maxRetries) None NoError of
             Inl err \<Rightarrow> Inl err
           | Inr (None, gotOK, lastErr) \<Rightarrow> Inl (ProviderUnavailable lastErr)
           | Inr (Some body, gotOK, lastErr) \<Rightarrow> Inr body))"

section \<open>Streaming: reading server-sent events\<close>

text \<open>
  \<open>bufio.Scanner\<close> with its default split: lines end at a newline, one trailing carriage return is
  dropped, an unterminated last line counts unless it is empty, and a line of 65536 bytes or more
  ends the scan with an error.
\<close>

definition drop_cr :: "string \<Rightarrow> string" where
  "drop_cr l = (if l \<noteq> [] \<and> last l = CHR 0x0D then butlast l else l)"

definition raw_lines :: "string \<Rightarrow> string list" where
  "raw_lines s = (let ls = Split s (CHR 0x0A) in if last ls = [] then butlast ls else ls)"

definition scan_lines :: "stream_body \<Rightarrow> string list \<times> string option" where
  "scan_lines body =
     (let ls = raw_lines (fst body) in
      (map drop_cr (takeWhile (\<lambda>l. length l < 65536) ls),
       if list_ex (\<lambda>l. 65536 \<le> length l) ls then Some ''bufio.Scanner: token too long'' else snd body))"

text \<open>
  The goroutine's loop: a line is skipped, ends the stream, yields a chunk, or makes the goroutine panic. Sending the \<open>n\<close>-th
  chunk either succeeds or is overtaken by the end of the context, whose error is then sent if
  the channel has room; a reading error is sent at the end in the same way. A panic ends the whole process: nothing
  is sent and nobody is left to receive. The list of a stream then ends with the panic as an error, so that a
  theorem about complete answers cannot apply to it.
\<close>

record consumer =
  cs_cancelled :: "nat \<Rightarrow> bool"
  cs_room :: "nat \<Rightarrow> bool"
  cs_err :: string

datatype line_effect = SkipLine | StopStream | EmitChunk StreamChunk | PanicLine string

definition zero_usage :: TokenUsage where
  "zero_usage = \<lparr>tuPromptTokens = 0, tuCompletionTokens = 0, tuTotalTokens = 0\<rparr>"

definition error_chunk :: "string \<Rightarrow> StreamChunk" where
  "error_chunk e = \<lparr>scContent = [], scToolCalls = [], scFinishReason = [], scUsage = zero_usage, scError = Some e\<rparr>"

definition sendErrorChunk :: "consumer \<Rightarrow> nat \<Rightarrow> string \<Rightarrow> StreamChunk list" where
  "sendErrorChunk cs n e = (if cs_room cs n then [error_chunk e] else [])"

fun sse_loop :: "('s \<Rightarrow> string \<Rightarrow> 's \<times> line_effect) \<Rightarrow> string \<Rightarrow> consumer \<Rightarrow> nat \<Rightarrow> 's \<Rightarrow> string list \<Rightarrow> string option \<Rightarrow>
    StreamChunk list" where
  "sse_loop step what cs n s [] err = (case err of
     None \<Rightarrow> []
   | Some e \<Rightarrow> sendErrorChunk cs n (what @ e))"
| "sse_loop step what cs n s (line # ls) err = (case step s line of
     (s', SkipLine) \<Rightarrow> sse_loop step what cs n s' ls err
   | (s', StopStream) \<Rightarrow> []
   | (s', PanicLine reason) \<Rightarrow> [error_chunk (''panic: '' @ reason)]
   | (s', EmitChunk sc) \<Rightarrow>
       if cs_cancelled cs n then sendErrorChunk cs n (cs_err cs)
       else sc # sse_loop step what cs (Suc n) s' ls err)"

record toolCallDelta =
  dlIndex :: int
  dlID :: string
  dlName :: string
  dlArguments :: string

record streamChoice =
  soContent :: string
  soToolCalls :: "toolCallDelta list"
  soFinishReason :: "string option"

record streamChunk =
  stChoices :: "streamChoice list"
  stUsage :: "TokenUsage option"

record tool_accum =
  taCalls :: "(int, ToolCall) gomap"
  taCount :: int

text \<open>
  An \<open>int\<close> has 64 bits, so adding one to the largest gives the smallest. \<open>make\<close> panics when the requested capacity
  needs more than the \<open>2 ^ 48\<close> bytes of the address space (on 64-bit Linux); a \<open>ToolCall\<close> is three strings of 16 bytes.
  Running out of memory below that is not modelled.
\<close>

definition int64_add :: "int \<Rightarrow> int \<Rightarrow> int" where
  "int64_add a b = (a + b + 2 ^ 63) mod 2 ^ 64 - 2 ^ 63"

definition make_fits :: "int \<Rightarrow> bool" where
  "make_fits cap \<longleftrightarrow> 0 \<le> cap \<and> cap * 48 \<le> 2 ^ 48"

definition add_delta :: "toolCallDelta \<Rightarrow> tool_accum \<Rightarrow> tool_accum" where
  "add_delta tc acc = (case gm_get (taCalls acc) (dlIndex tc) of
     Some existing \<Rightarrow>
       acc\<lparr>taCalls := gm_put (dlIndex tc)
          \<lparr>tcID = (if dlID tc \<noteq> [] then dlID tc else tcID existing),
           tcName = (if dlName tc \<noteq> [] then dlName tc else tcName existing),
           tcArguments = tcArguments existing @ dlArguments tc\<rparr> (taCalls acc)\<rparr>
   | None \<Rightarrow>
       acc\<lparr>taCalls := gm_put (dlIndex tc) \<lparr>tcID = dlID tc, tcName = dlName tc, tcArguments = dlArguments tc\<rparr> (taCalls acc),
           taCount := (if dlIndex tc \<ge> taCount acc then int64_add (dlIndex tc) 1 else taCount acc)\<rparr>)"

definition accumulated :: "tool_accum \<Rightarrow> ToolCall list" where
  "accumulated acc = List.map_filter (\<lambda>i. gm_get (taCalls acc) (int i)) [0..<nat (taCount acc)]"

text \<open>The chunk of an event; \<open>None\<close> when the slice for the calls cannot be made.\<close>

definition openai_chunk :: "streamChunk \<Rightarrow> tool_accum \<Rightarrow> tool_accum \<times> StreamChunk option" where
  "openai_chunk chunk acc =
     (let usage = (case stUsage chunk of Some u \<Rightarrow> u | None \<Rightarrow> zero_usage) in
      case stChoices chunk of
        [] \<Rightarrow> (acc, Some \<lparr>scContent = [], scToolCalls = [], scFinishReason = [], scUsage = usage, scError = None\<rparr>)
      | choice # _ \<Rightarrow>
          (let acc' = fold add_delta (soToolCalls choice) acc in
           (acc', if taCount acc' > 0 \<and> \<not> make_fits (taCount acc') then None
                  else Some
                  \<lparr>scContent = soContent choice,
                   scToolCalls = (if taCount acc' > 0 then accumulated acc' else []),
                   scFinishReason = (case soFinishReason choice of Some r \<Rightarrow> r | None \<Rightarrow> []),
                   scUsage = usage, scError = None\<rparr>)))"

definition openai_line :: "(string \<Rightarrow> string + streamChunk) \<Rightarrow> tool_accum \<Rightarrow> string \<Rightarrow> tool_accum \<times> line_effect" where
  "openai_line decode acc line =
     (if line = [] then (acc, SkipLine)
      else if \<not> HasPrefix line ''data: '' then (acc, SkipLine)
      else if TrimPrefix line ''data: '' = ''[DONE]'' then (acc, StopStream)
      else case decode (TrimPrefix line ''data: '') of
        Inl err \<Rightarrow> (acc, SkipLine)
      | Inr chunk \<Rightarrow>
          (case openai_chunk chunk acc of
             (acc', Some sc) \<Rightarrow> (acc', EmitChunk sc)
           | (acc', None) \<Rightarrow> (acc', PanicLine ''runtime error: makeslice: cap out of range'')))"

definition no_calls :: tool_accum where
  "no_calls = \<lparr>taCalls = [], taCount = 0\<rparr>"

definition read_openai_stream :: "(string \<Rightarrow> string + streamChunk) \<Rightarrow> consumer \<Rightarrow> stream_body \<Rightarrow> StreamChunk list" where
  "read_openai_stream decode cs body =
     (case scan_lines body of (ls, err) \<Rightarrow> sse_loop (openai_line decode) ''stream read error: '' cs 0 no_calls ls err)"

text \<open>The whole call: the error it returns, or the chunks its channel carries.\<close>

definition openAICompatibleStream :: "stdlib \<Rightarrow> (streamChatRequest \<Rightarrow> string + string) \<Rightarrow> (string \<Rightarrow> string + streamChunk) \<Rightarrow>
    transport \<Rightarrow> consumer \<Rightarrow> string \<Rightarrow> string \<Rightarrow> string \<Rightarrow> (string \<times> string) list \<Rightarrow> GenerateRequest \<Rightarrow> 64 word \<Rightarrow>
    provider_error + StreamChunk list" where
  "openAICompatibleStream L marshal decode T cs baseURL apiKey model headers req maxRetries =
     map_sum id (read_openai_stream decode cs) (openAICompatibleConnect L marshal T baseURL apiKey model headers req maxRetries)"

section \<open>Embeddings (openAICompatibleEmbed)\<close>

record embedRequest =
  erModel :: string
  erInput :: "string list"
  erDimensions :: int

record embedResponse =
  epData :: "(int \<times> gofloat list) list"
  epError :: "(string \<times> string) option"

definition place_embedding :: "int \<times> gofloat list \<Rightarrow> gofloat list list \<Rightarrow> gofloat list list" where
  "place_embedding d results =
     (if fst d < 0 \<or> fst d \<ge> int (length results) then results else results[nat (fst d) := snd d])"

definition order_embeddings :: "(int \<times> gofloat list) list \<Rightarrow> gofloat list list" where
  "order_embeddings data = fold place_embedding data (replicate (length data) [])"

definition openAICompatibleEmbed :: "(embedRequest \<Rightarrow> string + string) \<Rightarrow> (string \<Rightarrow> string + embedResponse) \<Rightarrow> transport \<Rightarrow>
    string \<Rightarrow> string \<Rightarrow> string \<Rightarrow> (string \<times> string) list \<Rightarrow> string list \<Rightarrow> int \<Rightarrow> (provider_error + last_error) + gofloat list list" where
  "openAICompatibleEmbed marshal decode T baseURL apiKey model headers texts dimensions =
     (if length texts = 0 then Inl (Inl NoInputTexts)
      else case marshal \<lparr>erModel = model, erInput = texts, erDimensions = (if dimensions > 0 then dimensions else 0)\<rparr> of
        Inl err \<Rightarrow> Inl (Inl (MarshalFailed err))
      | Inr payload \<Rightarrow>
          (let request = \<lparr>hrURL = TrimRightSlash baseURL @ ''/embeddings'',
                          hrSets = [(''Content-Type'', ''application/json''), (''Authorization'', ''Bearer '' @ apiKey)] @ headers,
                          hrPayload = payload\<rparr> in
           case new_request T (hrURL request) of
             Some e \<Rightarrow> Inl (Inl (CreateRequestFailed e))
           | None \<Rightarrow> (case send T 0 request of
                 TransportError e \<Rightarrow> Inl (Inr (LastTransport e))
               | Response status body (Some e) \<Rightarrow> Inl (Inr (LastRead e))
               | Response status body None \<Rightarrow>
                   if status \<noteq> 200 then Inl (Inl (StatusNotOK status body))
                   else (case decode body of
                     Inl err \<Rightarrow> Inl (Inl (UnmarshalFailed err))
                   | Inr r \<Rightarrow> (case epError r of
                         Some (msg, ty) \<Rightarrow> Inl (Inl (APIError msg ty))
                       | None \<Rightarrow> Inr (order_embeddings (epData r)))))))"

section \<open>The provider type\<close>

record OpenAICompatibleProvider =
  opBaseURL :: string
  opApiKey :: string
  opModelName :: string
  opIdPrefix :: string
  opCapabilities :: "string list"
  opEmbedModel :: string
  opErrName :: string

definition newOpenAICompatible :: "string \<Rightarrow> string \<Rightarrow> string \<Rightarrow> string \<Rightarrow> string \<Rightarrow> string list \<Rightarrow> string \<Rightarrow> OpenAICompatibleProvider" where
  "newOpenAICompatible baseURL defaultURL apiKey modelName idPrefix caps embedModel =
     \<lparr>opBaseURL = (if baseURL = [] then defaultURL else baseURL), opApiKey = apiKey, opModelName = modelName,
      opIdPrefix = idPrefix, opCapabilities = caps, opEmbedModel = embedModel, opErrName = idPrefix\<rparr>"

definition NewOpenAIProvider :: "string \<Rightarrow> string \<Rightarrow> string \<Rightarrow> OpenAICompatibleProvider" where
  "NewOpenAIProvider baseURL apiKey modelName = newOpenAICompatible baseURL ''https://api.openai.com/v1'' apiKey modelName ''openai''
     [''text_generation'', ''tool_calling'', ''json_mode'', ''vision'', ''embedding''] ''text-embedding-3-small''"

definition NewModelScopeProvider :: "string \<Rightarrow> string \<Rightarrow> string \<Rightarrow> OpenAICompatibleProvider" where
  "NewModelScopeProvider baseURL apiKey modelName =
     newOpenAICompatible baseURL ''https://api-inference.modelscope.cn/v1'' apiKey modelName ''modelscope''
       [''text_generation'', ''tool_calling''] []"

definition NewSiliconFlowProvider :: "string \<Rightarrow> string \<Rightarrow> string \<Rightarrow> OpenAICompatibleProvider" where
  "NewSiliconFlowProvider baseURL apiKey modelName =
     newOpenAICompatible baseURL ''https://api.siliconflow.cn/v1'' apiKey modelName ''siliconflow''
       [''text_generation'', ''tool_calling''] []"

definition OpenAIProviderID :: "OpenAICompatibleProvider \<Rightarrow> string" where
  "OpenAIProviderID p = opIdPrefix p @ ''/'' @ opModelName p"

definition OpenAIProviderGenerate :: "stdlib \<Rightarrow> (chatRequest \<Rightarrow> string + string) \<Rightarrow> (string \<Rightarrow> string + chatResponse) \<Rightarrow>
    transport \<Rightarrow> OpenAICompatibleProvider \<Rightarrow> GenerateRequest \<Rightarrow> provider_error + GenerateResponse" where
  "OpenAIProviderGenerate L marshal decode T p req =
     (if opApiKey p = [] then Inl (APIKeyNotConfigured (opErrName p))
      else openAICompatibleGenerate L marshal decode T (opBaseURL p) (opApiKey p) (opModelName p) [] req 0)"

definition OpenAIProviderGenerateStream :: "stdlib \<Rightarrow> (streamChatRequest \<Rightarrow> string + string) \<Rightarrow> (string \<Rightarrow> string + streamChunk) \<Rightarrow>
    transport \<Rightarrow> consumer \<Rightarrow> OpenAICompatibleProvider \<Rightarrow> GenerateRequest \<Rightarrow> provider_error + StreamChunk list" where
  "OpenAIProviderGenerateStream L marshal decode T cs p req =
     (if opApiKey p = [] then Inl (APIKeyNotConfigured (opErrName p))
      else openAICompatibleStream L marshal decode T cs (opBaseURL p) (opApiKey p) (opModelName p) [] req 0)"

definition OpenAIProviderEmbed :: "(embedRequest \<Rightarrow> string + string) \<Rightarrow> (string \<Rightarrow> string + embedResponse) \<Rightarrow> transport \<Rightarrow>
    OpenAICompatibleProvider \<Rightarrow> string list \<Rightarrow> (provider_error + last_error) + gofloat list list" where
  "OpenAIProviderEmbed marshal decode T p texts =
     (if opEmbedModel p = [] then Inl (Inl CapabilityNotSupported)
      else if opApiKey p = [] then Inl (Inl (APIKeyNotConfigured (opErrName p)))
      else openAICompatibleEmbed marshal decode T (opBaseURL p) (opApiKey p) (opEmbedModel p) [] texts 0)"

end
