(* ===== verification/Anthropic.thy ===== *)
theory Anthropic
  imports Providers
begin

text \<open>
  \<open>ai/providers/anthropic.go\<close> and \<open>anthropic_streaming.go\<close>: the Messages API of Anthropic, with the
  request conversion, the retrying call and the event stream, the provider type \<open>ClaudeProvider\<close>
  of \<open>providers.go\<close> and the factory (\<open>factory.go\<close>). Transport, consumer, retry loop and event loop
  are those of \<open>Providers\<close>, which the source repeats line by line.
\<close>

section \<open>Requests\<close>

record anthropicMessage =
  amRole :: string
  amContent :: string

record anthropicToolDefinition =
  atName :: string
  atDescription :: string
  atInputSchema :: "JSONSchema option"

record anthropicMessagesRequest =
  aqModel :: string
  aqMaxTokens :: int
  aqSystem :: string
  aqMessages :: "anthropicMessage list"
  aqTools :: "anthropicToolDefinition list"
  aqToolChoice :: anthropic_choice
  aqDisableParallelUse :: "bool option"
  aqStream :: bool
  aqTemperature :: "gofloat option"

definition systemParts :: "Message list \<Rightarrow> string list" where
  "systemParts ms = map (\<lambda>m. FlattenToText (msgContents m)) (filter (\<lambda>m. msgRole m = ''system'') ms)"

definition convMessages :: "Message list \<Rightarrow> anthropicMessage list" where
  "convMessages ms = map (\<lambda>m. \<lparr>amRole = msgRole m, amContent = FlattenToText (msgContents m)\<rparr>)
                         (filter (\<lambda>m. msgRole m \<noteq> ''system'') ms)"

definition build_messages_request :: "bool \<Rightarrow> string \<Rightarrow> GenerateRequest \<Rightarrow> anthropicMessagesRequest" where
  "build_messages_request stream model req =
     \<lparr>aqModel = model,
      aqMaxTokens = (if grMaxTokens req > 0 then grMaxTokens req else 4096),
      aqSystem = Join (systemParts (grMessages req)) [CHR 0x0A],
      aqMessages = convMessages (grMessages req),
      aqTools = map (\<lambda>t. \<lparr>atName = tdName t, atDescription = tdDescription t, atInputSchema = tdParameters t\<rparr>) (grTools req),
      aqToolChoice = mapToolChoiceToAnthropic (grToolChoice req),
      aqDisableParallelUse = (if grParallelToolCalls req = Some False then Some True else None),
      aqStream = stream,
      aqTemperature = (if f_lt (FFin 0) (grTemperature req) then Some (grTemperature req) else None)\<rparr>"

definition anthropic_http_request :: "string \<Rightarrow> string \<Rightarrow> string \<Rightarrow> http_request" where
  "anthropic_http_request baseURL apiKey payload =
     \<lparr>hrURL = TrimRightSlash baseURL @ ''/messages'',
      hrSets = [(''Content-Type'', ''application/json''), (''x-api-key'', apiKey), (''anthropic-version'', ''2023-06-01'')],
      hrPayload = payload\<rparr>"

section \<open>Generate\<close>

record anthropicContentBlock =
  abType :: string
  abText :: string
  abID :: string
  abName :: string
  abInput :: string

record anthropicUsage =
  auInputTokens :: "64 word"
  auOutputTokens :: "64 word"

record anthropicMessagesResponse =
  arContent :: "anthropicContentBlock list"
  arStopReason :: string
  arUsage :: anthropicUsage
  arError :: "(string \<times> string) option"

definition block_tool_call :: "anthropicContentBlock \<Rightarrow> ToolCall" where
  "block_tool_call b = \<lparr>tcID = abID b, tcName = abName b, tcArguments = abInput b\<rparr>"

definition add_block :: "anthropicContentBlock \<Rightarrow> GenerateResponse \<Rightarrow> GenerateResponse" where
  "add_block b r =
     (if abType b = ''text'' then r\<lparr>gsContent := gsContent r @ abText b\<rparr>
      else if abType b = ''tool_use'' then r\<lparr>gsToolCalls := gsToolCalls r @ [block_tool_call b]\<rparr>
      else r)"

definition messages_result :: "anthropicMessagesResponse \<Rightarrow> GenerateResponse" where
  "messages_result r = fold add_block (arContent r)
     \<lparr>gsContent = [], gsToolCalls = [],
      gsUsage = \<lparr>tuPromptTokens = sint (auInputTokens (arUsage r)), tuCompletionTokens = sint (auOutputTokens (arUsage r)),
                 tuTotalTokens = sint (auInputTokens (arUsage r) + auOutputTokens (arUsage r))\<rparr>,
      gsFinishReason = arStopReason r, gsLatency = 0\<rparr>"

definition read_messages :: "(string \<Rightarrow> string + anthropicMessagesResponse) \<Rightarrow> string \<Rightarrow> provider_error + GenerateResponse" where
  "read_messages decode body = (case decode body of
     Inl err \<Rightarrow> Inl (UnmarshalFailed err)
   | Inr r \<Rightarrow> (case arError r of
         Some (msg, ty) \<Rightarrow> Inl (APIError msg ty)
       | None \<Rightarrow> Inr (messages_result r)))"

definition anthropicMessagesGenerate :: "(anthropicMessagesRequest \<Rightarrow> string + string) \<Rightarrow> (string \<Rightarrow> string + anthropicMessagesResponse) \<Rightarrow>
    transport \<Rightarrow> string \<Rightarrow> string \<Rightarrow> string \<Rightarrow> GenerateRequest \<Rightarrow> 64 word \<Rightarrow> provider_error + GenerateResponse" where
  "anthropicMessagesGenerate marshal decode T baseURL apiKey model req maxRetries =
     (case marshal (build_messages_request False model req) of
        Inl err \<Rightarrow> Inl (MarshalFailed err)
      | Inr payload \<Rightarrow> generate_loop T (read_messages decode) (anthropic_http_request baseURL apiKey payload)
                        (attempts_of maxRetries) 0 (attempts_of maxRetries) NoError)"

section \<open>Streaming\<close>

definition anthropicMessagesConnect :: "(anthropicMessagesRequest \<Rightarrow> string + string) \<Rightarrow> transport \<Rightarrow>
    string \<Rightarrow> string \<Rightarrow> string \<Rightarrow> GenerateRequest \<Rightarrow> 64 word \<Rightarrow> provider_error + stream_body" where
  "anthropicMessagesConnect marshal T baseURL apiKey model req maxRetries =
     (case marshal (build_messages_request True model req) of
        Inl err \<Rightarrow> Inl (MarshalFailed err)
      | Inr payload \<Rightarrow>
          (case connect_loop T (anthropic_http_request baseURL apiKey payload) 0 (attempts_of maxRetries) None NoError of
             Inl err \<Rightarrow> Inl err
           | Inr (Some body, True, lastErr) \<Rightarrow> Inr body
           | Inr (_, _, lastErr) \<Rightarrow> Inl (ProviderUnavailable lastErr)))"

text \<open>
  The events carry JSON payloads read into three structs: the index and block of
  \<open>content_block_start\<close>, the index and delta of \<open>content_block_delta\<close>, the stop reason and usage of
  \<open>message_delta\<close>.
\<close>

record anthropicDelta =
  adType :: string
  adText :: string
  adPartialJSON :: string

record event_decoders =
  dec_start :: "string \<Rightarrow> string + (int \<times> anthropicContentBlock option)"
  dec_delta :: "string \<Rightarrow> string + (int \<times> anthropicDelta)"
  dec_message_delta :: "string \<Rightarrow> string + (string \<times> anthropicUsage option)"

record anthropicStreamToolAccum =
  acID :: string
  acName :: string
  acJSON :: string

record anthropic_state =
  asAccum :: "(int, anthropicStreamToolAccum) gomap"
  asOrder :: "int list"
  asEvent :: string

definition accum_call :: "anthropicStreamToolAccum \<Rightarrow> ToolCall" where
  "accum_call tc = \<lparr>tcID = acID tc, tcName = acName tc, tcArguments = acJSON tc\<rparr>"

definition buildToolCalls :: "(int, anthropicStreamToolAccum) gomap \<Rightarrow> int list \<Rightarrow> ToolCall list" where
  "buildToolCalls accum order =
     (if length accum = 0 then [] else List.map_filter (\<lambda>idx. map_option accum_call (gm_get accum idx)) order)"

definition plain_chunk :: StreamChunk where
  "plain_chunk = \<lparr>scContent = [], scToolCalls = [], scFinishReason = [], scUsage = zero_usage, scError = None\<rparr>"

definition current_calls :: "anthropic_state \<Rightarrow> ToolCall list" where
  "current_calls s = (if length (asAccum s) > 0 then buildToolCalls (asAccum s) (asOrder s) else [])"

definition block_start :: "event_decoders \<Rightarrow> string \<Rightarrow> anthropic_state \<Rightarrow> anthropic_state" where
  "block_start D data s = (case dec_start D data of
     Inr (idx, Some b) \<Rightarrow>
       if abType b = ''tool_use''
       then s\<lparr>asAccum := gm_put idx \<lparr>acID = abID b, acName = abName b, acJSON = []\<rparr> (asAccum s), asOrder := asOrder s @ [idx]\<rparr>
       else s
   | _ \<Rightarrow> s)"

definition block_delta :: "event_decoders \<Rightarrow> string \<Rightarrow> anthropic_state \<Rightarrow> anthropic_state \<times> line_effect" where
  "block_delta D data s = (case dec_delta D data of
     Inl err \<Rightarrow> (s, SkipLine)
   | Inr (idx, d) \<Rightarrow>
       if adType d = ''text_delta'' then (s, EmitChunk (plain_chunk\<lparr>scContent := adText d, scToolCalls := current_calls s\<rparr>))
       else if adType d = ''input_json_delta'' then
         (case gm_get (asAccum s) idx of
            Some a \<Rightarrow> (s\<lparr>asAccum := gm_put idx (a\<lparr>acJSON := acJSON a @ adPartialJSON d\<rparr>) (asAccum s)\<rparr>, SkipLine)
          | None \<Rightarrow> (s, SkipLine))
       else (s, EmitChunk (plain_chunk\<lparr>scToolCalls := current_calls s\<rparr>)))"

definition message_delta :: "event_decoders \<Rightarrow> string \<Rightarrow> anthropic_state \<Rightarrow> line_effect" where
  "message_delta D data s = (case dec_message_delta D data of
     Inl err \<Rightarrow> SkipLine
   | Inr (stop, usage) \<Rightarrow>
       EmitChunk (plain_chunk\<lparr>scFinishReason := stop, scToolCalls := current_calls s,
         scUsage := (case usage of
            Some u \<Rightarrow> \<lparr>tuPromptTokens = 0, tuCompletionTokens = sint (auOutputTokens u), tuTotalTokens = 0\<rparr>
          | None \<Rightarrow> zero_usage)\<rparr>))"

definition anthropic_data :: "event_decoders \<Rightarrow> string \<Rightarrow> anthropic_state \<Rightarrow> anthropic_state \<times> line_effect" where
  "anthropic_data D data s =
     (if asEvent s = ''message_start'' then (s, SkipLine)
      else if asEvent s = ''ping'' then (s, SkipLine)
      else if asEvent s = ''message_stop'' then (s, StopStream)
      else if asEvent s = ''content_block_start'' then (block_start D data s, SkipLine)
      else if asEvent s = ''content_block_stop'' then
        (if length (asAccum s) > 0 \<and> buildToolCalls (asAccum s) (asOrder s) \<noteq> []
         then (s, EmitChunk (plain_chunk\<lparr>scToolCalls := buildToolCalls (asAccum s) (asOrder s)\<rparr>))
         else (s, SkipLine))
      else if asEvent s = ''content_block_delta'' then block_delta D data s
      else if asEvent s = ''message_delta'' then (s, message_delta D data s)
      else (s, SkipLine))"

definition anthropic_line :: "event_decoders \<Rightarrow> anthropic_state \<Rightarrow> string \<Rightarrow> anthropic_state \<times> line_effect" where
  "anthropic_line D s line =
     (if line = [] then (s\<lparr>asEvent := []\<rparr>, SkipLine)
      else if HasPrefix line ''event: '' then (s\<lparr>asEvent := TrimPrefix line ''event: ''\<rparr>, SkipLine)
      else if \<not> HasPrefix line ''data: '' then (s, SkipLine)
      else anthropic_data D (TrimPrefix line ''data: '') s)"

definition no_events :: anthropic_state where
  "no_events = \<lparr>asAccum = [], asOrder = [], asEvent = []\<rparr>"

definition read_anthropic_stream :: "event_decoders \<Rightarrow> consumer \<Rightarrow> stream_body \<Rightarrow> StreamChunk list" where
  "read_anthropic_stream D cs body =
     (case scan_lines body of (ls, err) \<Rightarrow> sse_loop (anthropic_line D) ''anthropic stream read error: '' cs 0 no_events ls err)"

definition anthropicMessagesStream :: "(anthropicMessagesRequest \<Rightarrow> string + string) \<Rightarrow> event_decoders \<Rightarrow> transport \<Rightarrow> consumer \<Rightarrow>
    string \<Rightarrow> string \<Rightarrow> string \<Rightarrow> GenerateRequest \<Rightarrow> 64 word \<Rightarrow> provider_error + StreamChunk list" where
  "anthropicMessagesStream marshal D T cs baseURL apiKey model req maxRetries =
     map_sum id (read_anthropic_stream D cs) (anthropicMessagesConnect marshal T baseURL apiKey model req maxRetries)"

section \<open>ClaudeProvider and the factory\<close>

record ClaudeProvider =
  clBaseURL :: string
  clApiKey :: string
  clModelName :: string

definition NewClaudeProvider :: "string \<Rightarrow> string \<Rightarrow> string \<Rightarrow> ClaudeProvider" where
  "NewClaudeProvider baseURL apiKey modelName =
     \<lparr>clBaseURL = (if baseURL = [] then ''https://api.anthropic.com/v1'' else baseURL), clApiKey = apiKey, clModelName = modelName\<rparr>"

definition ClaudeID :: "ClaudeProvider \<Rightarrow> string" where
  "ClaudeID p = ''anthropic/'' @ clModelName p"

definition ClaudeCapabilities :: "ClaudeProvider \<Rightarrow> string list" where
  "ClaudeCapabilities p = [''text_generation'', ''tool_calling'', ''vision'', ''streaming'']"

definition ClaudeGenerate :: "(anthropicMessagesRequest \<Rightarrow> string + string) \<Rightarrow> (string \<Rightarrow> string + anthropicMessagesResponse) \<Rightarrow>
    transport \<Rightarrow> ClaudeProvider \<Rightarrow> GenerateRequest \<Rightarrow> provider_error + GenerateResponse" where
  "ClaudeGenerate marshal decode T p req =
     (if clApiKey p = [] then Inl (APIKeyNotConfigured ''claude'')
      else anthropicMessagesGenerate marshal decode T (clBaseURL p) (clApiKey p) (clModelName p) req 0)"

definition ClaudeGenerateStream :: "(anthropicMessagesRequest \<Rightarrow> string + string) \<Rightarrow> event_decoders \<Rightarrow> transport \<Rightarrow> consumer \<Rightarrow>
    ClaudeProvider \<Rightarrow> GenerateRequest \<Rightarrow> provider_error + StreamChunk list" where
  "ClaudeGenerateStream marshal D T cs p req =
     (if clApiKey p = [] then Inl (APIKeyNotConfigured ''claude'')
      else anthropicMessagesStream marshal D T cs (clBaseURL p) (clApiKey p) (clModelName p) req 0)"

definition ClaudeEmbed :: "ClaudeProvider \<Rightarrow> string list \<Rightarrow> provider_error + gofloat list list" where
  "ClaudeEmbed p texts = Inl CapabilityNotSupported"

datatype any_provider = OpenAICompatible OpenAICompatibleProvider | Claude ClaudeProvider

definition Create :: "string \<Rightarrow> string \<Rightarrow> string \<Rightarrow> string \<Rightarrow> any_provider" where
  "Create name baseURL apiKey model =
     (if name = ''modelscope'' then OpenAICompatible (NewModelScopeProvider baseURL apiKey model)
      else if name = ''siliconflow'' then OpenAICompatible (NewSiliconFlowProvider baseURL apiKey model)
      else if name = ''claude'' then Claude (NewClaudeProvider baseURL apiKey model)
      else OpenAICompatible (NewOpenAIProvider baseURL apiKey model))"

end
