(* ===== verification/Event_Stream.thy ===== *)
theory Event_Stream
  imports Providers
begin

text \<open>
  Bodies of server-sent events as a backend may write them, apart from how the code reads them: lines that end with a
  newline or a carriage return and a newline, among them blank lines that end events, comments and other fields.
\<close>

section \<open>Lines\<close>

text \<open>The text starts with these lines; what follows them may be anything.\<close>

inductive text_lines :: "string list \<Rightarrow> string \<Rightarrow> bool" where
  tail: "text_lines [] s"
| line: "CHR 0x0A \<notin> set l \<Longrightarrow> l = [] \<or> last l \<noteq> CHR 0x0D \<Longrightarrow> length l < 65535 \<Longrightarrow>
    nl = [CHR 0x0A] \<or> nl = [CHR 0x0D, CHR 0x0A] \<Longrightarrow> text_lines ls s \<Longrightarrow> text_lines (l # ls) (l @ nl @ s)"

lemma raw_lines_line: "CHR 0x0A \<notin> set l \<Longrightarrow> raw_lines (l @ CHR 0x0A # s) = l # raw_lines s"
proof -
  assume "CHR 0x0A \<notin> set l"
  then have "Split (l @ CHR 0x0A # s) (CHR 0x0A) = l # Split s (CHR 0x0A)" by (rule Split_append_sep)
  then show ?thesis by (simp add: raw_lines_def Let_def)
qed

lemma scan_line:
  assumes "CHR 0x0A \<notin> set l" "l = [] \<or> last l \<noteq> CHR 0x0D" "length l < 65535" "nl = [CHR 0x0A] \<or> nl = [CHR 0x0D, CHR 0x0A]"
  shows "scan_lines (l @ nl @ s, err) = (l # fst (scan_lines (s, err)), snd (scan_lines (s, err)))"
proof -
  have "\<exists>k. raw_lines (l @ nl @ s) = k # raw_lines s \<and> length k < 65536 \<and> drop_cr k = l"
    using assms(4)
  proof
    assume "nl = [CHR 0x0A]"
    then show ?thesis using assms(1-3) raw_lines_line[of l s] by (auto simp: drop_cr_def)
  next
    assume "nl = [CHR 0x0D, CHR 0x0A]"
    then show ?thesis using assms(1,3) raw_lines_line[of "l @ [CHR 0x0D]" s] by (auto simp: drop_cr_def)
  qed
  then show ?thesis by (auto simp: scan_lines_def Let_def)
qed

lemma scan_text:
  "text_lines ls s \<Longrightarrow> \<exists>ls' err'. scan_lines (s, err) = (ls @ ls', err')"
proof (induction rule: text_lines.induct)
  case (tail s)
  show ?case by (metis append_Nil prod.collapse)
next
  case (line l nl ls s)
  then show ?case using scan_line[of l nl s err] by auto
qed

lemma scan_exact:
  "\<forall>l \<in> set ls. CHR 0x0A \<notin> set l \<and> (l = [] \<or> last l \<noteq> CHR 0x0D) \<and> length l < 65535 \<Longrightarrow>
   scan_lines (concat (map (\<lambda>l. l @ [CHR 0x0A]) ls), err) = (ls, err)"
proof (induction ls)
  case Nil
  show ?case by (simp add: scan_lines_def raw_lines_def)
next
  case (Cons l ls)
  then show ?case using scan_line[of l "[CHR 0x0A]" "concat (map (\<lambda>l. l @ [CHR 0x0A]) ls)" err] by simp
qed

section \<open>Events of the OpenAI protocol\<close>

text \<open>
  The data lines of the body are these payloads and then \<open>[DONE]\<close>; all other lines, such as blank ones and comments,
  may stand anywhere between them.
\<close>

definition event_stream :: "string list \<Rightarrow> string \<Rightarrow> bool" where
  "event_stream ps body \<longleftrightarrow> ''[DONE]'' \<notin> set ps \<and>
     (\<exists>ls. text_lines ls body \<and> filter (\<lambda>l. HasPrefix l ''data: '') ls = map (\<lambda>p. ''data: '' @ p) (ps @ [''[DONE]'']))"

text \<open>The usual layout, one line and a blank line for each event.\<close>

definition event_bytes :: "string list \<Rightarrow> string" where
  "event_bytes ps = concat (map (\<lambda>p. ''data: '' @ p @ [CHR 0x0A, CHR 0x0A]) (ps @ [''[DONE]'']))"

definition payload_ok :: "string \<Rightarrow> bool" where
  "payload_ok p \<longleftrightarrow> p \<noteq> [] \<and> CHR 0x0A \<notin> set p \<and> last p \<noteq> CHR 0x0D \<and> length p < 65000 \<and> p \<noteq> ''[DONE]''"

lemma field_line:
  assumes "CHR 0x0A \<notin> set k" "k \<noteq> []" "last k \<noteq> CHR 0x0D" "CHR 0x0A \<notin> set p" "p = [] \<or> last p \<noteq> CHR 0x0D" "length k + length p < 65535" "text_lines ls s"
  shows "text_lines ((k @ p) # ls) (k @ p @ CHR 0x0A # s)"
  using text_lines.line[of "k @ p" "[CHR 0x0A]" ls s] assms by (auto simp: last_append)

lemma blank_line_text: "text_lines ls s \<Longrightarrow> text_lines ([] # ls) (CHR 0x0A # s)"
  using text_lines.line[of "[]" "[CHR 0x0A]" ls s] by simp

lemma data_event_text:
  assumes "CHR 0x0A \<notin> set p" "p \<noteq> []" "last p \<noteq> CHR 0x0D" "length p < 65000" "text_lines ls s"
  shows "text_lines ((''data: '' @ p) # [] # ls) (''data: '' @ p @ CHR 0x0A # CHR 0x0A # s)"
  using assms by (intro field_line blank_line_text) simp_all

lemma data_events_text:
  "list_all payload_ok ps \<Longrightarrow> text_lines ls s \<Longrightarrow>
   text_lines (concat (map (\<lambda>p. [''data: '' @ p, []]) ps) @ ls) (concat (map (\<lambda>p. ''data: '' @ p @ [CHR 0x0A, CHR 0x0A]) ps) @ s)"
proof (induction ps)
  case (Cons p ps)
  then have "text_lines ((''data: '' @ p) # [] # (concat (map (\<lambda>p. [''data: '' @ p, []]) ps) @ ls))
      (''data: '' @ p @ CHR 0x0A # CHR 0x0A # (concat (map (\<lambda>p. ''data: '' @ p @ [CHR 0x0A, CHR 0x0A]) ps) @ s))"
    by (intro data_event_text) (simp_all add: payload_ok_def)
  then show ?case by simp
qed simp

lemma data_lines_filter:
  "filter (\<lambda>l. HasPrefix l ''data: '') (concat (map (\<lambda>p. [''data: '' @ p, []]) ps)) = map (\<lambda>p. ''data: '' @ p) ps"
  using HasPrefix_append[of "''data: ''"] by (induction ps) (simp_all add: HasPrefix_def)

lemma event_bytes_stream: "list_all payload_ok ps \<Longrightarrow> event_stream ps (event_bytes ps)"
proof -
  assume ok: "list_all payload_ok ps"
  let ?ls = "\<lambda>ps. concat (map (\<lambda>p. [''data: '' @ p, []]) ps)"
  have "text_lines (?ls ps @ [''data: '' @ ''[DONE]'', []]) (concat (map (\<lambda>p. ''data: '' @ p @ [CHR 0x0A, CHR 0x0A]) ps) @ ''data: '' @ ''[DONE]'' @ CHR 0x0A # CHR 0x0A # [])"
    using ok by (intro data_events_text data_event_text text_lines.tail) simp_all
  then have "text_lines (?ls (ps @ [''[DONE]''])) (event_bytes ps)" by (simp add: event_bytes_def)
  then show ?thesis
    unfolding event_stream_def using ok data_lines_filter[of "ps @ [''[DONE]'']"]
    by (intro conjI exI[of _ "?ls (ps @ [''[DONE]''])"]) (auto simp: list_all_iff payload_ok_def simp del: map_append)
qed

end
