(* ===== verification/Providers_Properties.thy ===== *)
theory Providers_Properties
  imports Anthropic Event_Stream
begin

text \<open>
  Properties of the model backends: which attempt decides a retried call, the waiting times, what a
  failed stream connection gives, how the deltas of a streamed tool call add up and which index breaks it, and
  how embeddings and images travel.
\<close>

section \<open>Retries\<close>

text \<open>
  The contract of a retried call, stated without the code: which exchanges are worth another
  attempt, what the others mean, what attempt \<open>k\<close> settles and the error it leaves behind otherwise.
\<close>

definition retryable :: "http_outcome \<Rightarrow> bool" where
  "retryable outcome = (case outcome of
     TransportError e \<Rightarrow> True
   | Response status body err \<Rightarrow> err \<noteq> None \<or> status = 429 \<or> status \<ge> 500)"

definition verdict :: "(string \<Rightarrow> provider_error + 'r) \<Rightarrow> http_outcome \<Rightarrow> provider_error + 'r" where
  "verdict read outcome = (case outcome of
     TransportError e \<Rightarrow> Inl ContextDone
   | Response status body err \<Rightarrow>
       if status = 200 then read body
       else if status \<in> {401, 403} then Inl (AuthenticationFailed status)
       else Inl (BadRequest status body))"

definition settles :: "transport \<Rightarrow> (string \<Rightarrow> provider_error + 'r) \<Rightarrow> http_request \<Rightarrow> nat \<Rightarrow> (provider_error + 'r) option" where
  "settles T read request k =
     (if k > 0 \<and> done_within T k (backoff k) then Some (Inl ContextDone)
      else case new_request T (hrURL request) of
        Some e \<Rightarrow> Some (Inl (CreateRequestFailed e))
      | None \<Rightarrow> if retryable (send T k request) then None else Some (verdict read (send T k request)))"

definition left_error :: "http_outcome \<Rightarrow> last_error" where
  "left_error outcome = (case outcome of
     TransportError e \<Rightarrow> LastTransport e
   | Response status body (Some e) \<Rightarrow> LastRead e
   | Response status body None \<Rightarrow> if status = 429 then LastRateLimited else LastStatus status)"

definition retried :: "transport \<Rightarrow> (string \<Rightarrow> provider_error + 'r) \<Rightarrow> http_request \<Rightarrow> nat \<Rightarrow> provider_error + 'r" where
  "retried T read request attempts = (case find (\<lambda>k. settles T read request k \<noteq> None) [0..<attempts] of
     Some k \<Rightarrow> the (settles T read request k)
   | None \<Rightarrow> Inl (RequestFailed attempts (left_error (send T (attempts - 1) request))))"

lemma judge_contract:
  "judge read outcome = (if retryable outcome then Inl (left_error outcome) else Inr (verdict read outcome))"
  by (auto simp: judge_def retryable_def verdict_def left_error_def split: http_outcome.splits option.splits)

lemma generate_loop_step:
  "generate_loop T read request attempts k (Suc left) lastErr =
     (case settles T read request k of
        Some r \<Rightarrow> r
      | None \<Rightarrow> generate_loop T read request attempts (Suc k) left (left_error (send T k request)))"
  by (auto simp: settles_def judge_contract split: option.splits)

lemma generate_loop_find:
  "generate_loop T read request attempts k (Suc left) lastErr =
     (case find (\<lambda>k. settles T read request k \<noteq> None) [k..<Suc (k + left)] of
        Some j \<Rightarrow> the (settles T read request j)
      | None \<Rightarrow> Inl (RequestFailed attempts (left_error (send T (k + left) request))))"
proof (induction left arbitrary: k lastErr)
  case 0
  show ?case by (auto simp add: generate_loop_step simp del: generate_loop.simps(2) split: option.split)
next
  case (Suc left)
  have upt: "[k..<Suc (k + Suc left)] = k # [Suc k..<Suc (Suc k + left)]" by (simp add: upt_rec del: upt_Suc)
  show ?case unfolding generate_loop_step[of T read request attempts k] upt
    by (cases "settles T read request k") (simp_all add: Suc.IH del: upt_Suc generate_loop.simps(2) split: option.split)
qed

lemma attempts_pos: "attempts_of r > 0"
  by (simp add: attempts_of_def)

lemma generate_loop_retried:
  "generate_loop T read request (attempts_of r) 0 (attempts_of r) NoError = retried T read request (attempts_of r)"
proof -
  obtain n where "attempts_of r = Suc n" using attempts_pos[of r] gr0_conv_Suc by blast
  then show ?thesis by (simp only: generate_loop_find retried_def) (simp split: option.split)
qed

text \<open>C12. Both providers answer with the outcome of the first attempt that settles the call: a 200
  response, a status that is not retried, a request that cannot be built, or the end of the context
  during the wait before it. Transport and reading errors, 429 and every status from 500 on are
  passed over; when all of the \<open>maxRetries + 1\<close> attempts are, the call fails with the number of
  attempts and the error of the last one.\<close>

theorem generate_first_settled:
  "openAICompatibleGenerate L marshal decode T baseURL apiKey model headers req maxRetries =
     (case marshal (build_chat_request L model req) of
        Inl err \<Rightarrow> Inl (MarshalFailed err)
      | Inr payload \<Rightarrow> retried T (read_chat decode) (chat_http_request True baseURL apiKey headers payload) (attempts_of maxRetries)) \<and>
   anthropicMessagesGenerate marshal' decode' T baseURL apiKey model req maxRetries =
     (case marshal' (build_messages_request False model req) of
        Inl err \<Rightarrow> Inl (MarshalFailed err)
      | Inr payload \<Rightarrow> retried T (read_messages decode') (anthropic_http_request baseURL apiKey payload) (attempts_of maxRetries))"
  by (simp_all add: openAICompatibleGenerate_def anthropicMessagesGenerate_def generate_loop_retried split: sum.split)

section \<open>Waiting times\<close>

lemma backoff_int:
  "backoff a = (let b = word_of_int (2 ^ (a - 1) * 1000000000) in if sint b > 30000000000 then 30000000000 else b)"
proof -
  have "push_bit (a - 1) 1 * second_ns = word_of_int (2 ^ (a - 1) * 1000000000)"
    by (simp add: second_ns_def push_bit_eq_mult)
  moreover have "30 * second_ns = 30000000000" by (simp add: second_ns_def)
  ultimately show ?thesis by (simp only: backoff_def Let_def) simp
qed

lemma sint_small: "- (2 ^ 63) \<le> i \<Longrightarrow> i < 2 ^ 63 \<Longrightarrow> sint (word_of_int i :: 64 word) = i"
  by (simp add: sint_sbintrunc' signed_take_bit_int_eq_self)

lemma backoff_le: "sint (backoff a) \<le> 30000000000"
  by (simp add: backoff_int Let_def)

lemma backoff_early:
  assumes "1 \<le> a" "a \<le> 34"
  shows "sint (backoff a) = min (2 ^ (a - 1)) 30 * 1000000000"
proof -
  have "(2 :: int) ^ (a - 1) \<le> 2 ^ 33" using assms by (intro power_increasing) auto
  then have "sint (word_of_int (2 ^ (a - 1) * 1000000000) :: 64 word) = 2 ^ (a - 1) * 1000000000"
    by (intro sint_small) (simp_all add: order_trans[of _ 0])
  then show ?thesis by (simp only: backoff_int Let_def) (auto simp: min_def)
qed

lemma backoff_late: "56 \<le> a \<Longrightarrow> backoff a = 0"
proof -
  assume "56 \<le> a"
  then have k: "a - 1 = 55 + (a - 56)" by simp
  have "(2 :: int) ^ (55 + (a - 56)) * 1000000000 = 2 ^ 64 * (2 ^ (a - 56) * 1953125)"
    by (simp only: power_add) simp
  then have "(word_of_int (2 ^ (a - 1) * 1000000000) :: 64 word) = word_of_int (2 ^ 64) * word_of_int (2 ^ (a - 56) * 1953125)"
    by (simp only: k of_int_mult)
  also have "(word_of_int (2 ^ 64) :: 64 word) = 0" by simp
  finally have "word_of_int (2 ^ (a - 1) * 1000000000) = (0 :: 64 word)" by (simp only: mult_zero_left)
  then show ?thesis by (simp only: backoff_int Let_def) simp
qed

lemma backoff_35: "sint (backoff 35) < 0"
  by code_simp

text \<open>The wait before retry \<open>a\<close> is never more than 30 seconds, and for the first 34 retries it is
  exactly \<open>2 ^ (a - 1)\<close> seconds capped at 30. From the 35th on the product of the shift and the second
  overflows 64 bits: that wait is negative, and from the 56th on it is zero, so the cap no longer
  holds the retries apart.\<close>

theorem backoff_schedule:
  "sint (backoff a) \<le> 30 * 1000000000 \<and>
   (1 \<le> a \<and> a \<le> 34 \<longrightarrow> sint (backoff a) = min (2 ^ (a - 1)) 30 * 1000000000) \<and>
   sint (backoff 35) < 0 \<and> (56 \<le> a \<longrightarrow> backoff a = 0)"
  using backoff_le[of a] backoff_early[of a] backoff_late[of a] backoff_35 by simp

theorem backoff_schedule_witness:
  "sint (backoff 4) = 8000000000 \<and> sint (backoff 34) = 30000000000 \<and> backoff 60 = 0"
  using backoff_schedule[of 4] backoff_schedule[of 34] backoff_schedule[of 60] by simp

section \<open>A stream that never connects\<close>

lemma connect_loop_refused:
  assumes "\<And>u. new_request T u = None" "\<And>k n. \<not> done_within T k n"
    and "\<And>k r. send T k r = Response (status k) body err" "\<And>k. status k = 429 \<or> status k \<ge> 500"
  shows "connect_loop T request k (Suc left) resp lastErr = Inr (Some closed_body, False, LastStatus (status (k + left)))"
proof (induction left arbitrary: k resp lastErr)
  case 0
  show ?case using assms(4)[of k] by (auto simp: assms(1-3))
next
  case (Suc left)
  show ?case using assms(4)[of k] Suc.IH[of "Suc k"]
    by (subst connect_loop.simps(2)) (auto simp: assms(1-3) simp del: connect_loop.simps)
qed

lemma read_closed: "cs_room cs 0 \<Longrightarrow>
    read_openai_stream decode cs closed_body = [error_chunk ''stream read error: http: read on closed response body'']"
  by (simp add: read_openai_stream_def scan_lines_def raw_lines_def closed_body_def sendErrorChunk_def)

text \<open>When every attempt to open a stream is answered by 429 or a status from 500 on, the Anthropic
  provider returns an error that carries the last status, but the OpenAI-compatible provider
  returns a channel and no error: it goes on to read the body it has already closed, and the only
  thing the consumer sees is a reading error without the status.\<close>

theorem refused_stream_reported_late:
  assumes "\<And>u. new_request T u = None" "\<And>k n. \<not> done_within T k n" "cs_room cs 0"
    and "\<And>k r. send T k r = Response (status k) body err" "\<And>k. status k = 429 \<or> status k \<ge> 500"
  shows "openAICompatibleStream L (\<lambda>_. Inr p) decode T cs baseURL apiKey model headers req maxRetries =
           Inr [error_chunk ''stream read error: http: read on closed response body''] \<and>
         anthropicMessagesStream (\<lambda>_. Inr p) D T cs baseURL apiKey model req maxRetries =
           Inl (ProviderUnavailable (LastStatus (status (attempts_of maxRetries - 1))))"
proof -
  obtain n where n: "attempts_of maxRetries = Suc n" using attempts_pos gr0_conv_Suc by blast
  note refused = connect_loop_refused[where T = T and status = status, OF assms(1) assms(2) assms(4) assms(5)]
  have "openAICompatibleStream L (\<lambda>_. Inr p) decode T cs baseURL apiKey model headers req maxRetries =
           Inr [error_chunk ''stream read error: http: read on closed response body'']"
    using read_closed[OF assms(3)]
    by (simp add: openAICompatibleStream_def openAICompatibleConnect_def n refused del: connect_loop.simps)
  moreover have "anthropicMessagesStream (\<lambda>_. Inr p) D T cs baseURL apiKey model req maxRetries =
           Inl (ProviderUnavailable (LastStatus (status (attempts_of maxRetries - 1))))"
    by (simp add: anthropicMessagesStream_def anthropicMessagesConnect_def n refused del: connect_loop.simps)
  ultimately show ?thesis ..
qed

definition busy_transport :: transport where
  "busy_transport = \<lparr>new_request = \<lambda>_. None, send = \<lambda>_ _. Response 503 [] None, done_within = \<lambda>_ _. False\<rparr>"

definition patient_consumer :: consumer where
  "patient_consumer = \<lparr>cs_cancelled = \<lambda>_. False, cs_room = \<lambda>_. True, cs_err = ''context canceled''\<rparr>"

definition empty_request :: GenerateRequest where
  "empty_request = \<lparr>grMessages = [], grTools = [], grMaxTokens = 0, grTemperature = FFin 0, grJSONSchema = None,
     grToolChoice = NoChoice, grParallelToolCalls = None\<rparr>"

definition no_decoders :: event_decoders where
  "no_decoders = \<lparr>dec_start = \<lambda>_. Inl [], dec_delta = \<lambda>_. Inl [], dec_message_delta = \<lambda>_. Inl []\<rparr>"

theorem refused_stream_reported_late_witness:
  "openAICompatibleStream plain_lib (\<lambda>_. Inr ''{}'') (\<lambda>_. Inl ''none'') busy_transport patient_consumer ''http://m'' ''k'' ''m'' [] empty_request 0 =
     Inr [error_chunk ''stream read error: http: read on closed response body''] \<and>
   anthropicMessagesStream (\<lambda>_. Inr ''{}'') no_decoders busy_transport patient_consumer ''http://m'' ''k'' ''m'' empty_request 0 =
     Inl (ProviderUnavailable (LastStatus 503))"
  using refused_stream_reported_late[of busy_transport patient_consumer "\<lambda>_. 503" "[]" None]
  by (simp add: busy_transport_def patient_consumer_def)

section \<open>Streamed tool calls\<close>

text \<open>What the deltas of one index amount to, and the calls of a whole list of deltas by index.\<close>

definition last_set :: "string list \<Rightarrow> string" where
  "last_set xs = fold (\<lambda>x acc. if x \<noteq> [] then x else acc) xs []"

definition merged_call :: "toolCallDelta list \<Rightarrow> ToolCall" where
  "merged_call ds = \<lparr>tcID = last_set (map dlID ds), tcName = last_set (map dlName ds), tcArguments = concat (map dlArguments ds)\<rparr>"

definition deltas_at :: "toolCallDelta list \<Rightarrow> int \<Rightarrow> toolCallDelta list" where
  "deltas_at ds i = filter (\<lambda>d. dlIndex d = i) ds"

definition merged_calls :: "toolCallDelta list \<Rightarrow> ToolCall list" where
  "merged_calls ds = map (\<lambda>i. merged_call (deltas_at ds i)) (sorted_list_of_set (set (filter (\<lambda>i. 0 \<le> i) (map dlIndex ds))))"

lemma last_set_snoc: "last_set (xs @ [x]) = (if x \<noteq> [] then x else last_set xs)"
  by (simp add: last_set_def)

lemma deltas_at_snoc: "deltas_at (ds @ [d]) i = (if dlIndex d = i then deltas_at ds i @ [d] else deltas_at ds i)"
  by (simp add: deltas_at_def)

lemma last_set_Nil [simp]: "last_set [] = []"
  by (simp add: last_set_def)

lemma add_delta_get: "gm_get (taCalls (add_delta d acc)) i =
   (if dlIndex d \<noteq> i then gm_get (taCalls acc) i
    else Some (case gm_get (taCalls acc) i of
       None \<Rightarrow> \<lparr>tcID = dlID d, tcName = dlName d, tcArguments = dlArguments d\<rparr>
     | Some c \<Rightarrow> \<lparr>tcID = (if dlID d \<noteq> [] then dlID d else tcID c), tcName = (if dlName d \<noteq> [] then dlName d else tcName c),
                  tcArguments = tcArguments c @ dlArguments d\<rparr>))"
  by (auto simp: add_delta_def split: option.split)

lemma int64_add_one: "0 \<le> i \<Longrightarrow> i < 2 ^ 63 - 1 \<Longrightarrow> int64_add i 1 = i + 1"
  by (simp add: int64_add_def)

lemma add_delta_count: "taCount (add_delta d acc) =
   (if gm_get (taCalls acc) (dlIndex d) = None \<and> taCount acc \<le> dlIndex d then int64_add (dlIndex d) 1 else taCount acc)"
  by (auto simp: add_delta_def split: option.split)

text \<open>The first index for which the slice of calls cannot be made, and events whose calls stay below it.\<close>

definition call_limit :: int where
  "call_limit = 2 ^ 48 div 48"

lemma make_fits_limit: "0 \<le> cap \<Longrightarrow> make_fits cap \<longleftrightarrow> cap \<le> call_limit"
  by (auto simp: make_fits_def call_limit_def)

definition indices_fit :: "toolCallDelta list \<Rightarrow> bool" where
  "indices_fit ds \<longleftrightarrow> (\<forall>d \<in> set ds. dlIndex d < call_limit)"

lemma accum_get:
  "gm_get (taCalls (fold add_delta ds no_calls)) i = (if deltas_at ds i = [] then None else Some (merged_call (deltas_at ds i)))"
proof (induction ds rule: rev_induct)
  case (snoc d ds)
  then show ?case by (simp add: add_delta_get deltas_at_snoc merged_call_def last_set_snoc)
qed (simp add: no_calls_def deltas_at_def)

lemma deltas_at_empty: "deltas_at ds i = [] \<longleftrightarrow> i \<notin> dlIndex ` set ds"
  by (auto simp: deltas_at_def filter_empty_conv)

lemma accum_count:
  "indices_fit ds \<Longrightarrow> 0 \<le> taCount (fold add_delta ds no_calls) \<and> taCount (fold add_delta ds no_calls) \<le> call_limit \<and>
     (\<forall>d \<in> set ds. dlIndex d < taCount (fold add_delta ds no_calls))"
proof (induction ds rule: rev_induct)
  case (snoc d ds)
  then have IH: "0 \<le> taCount (fold add_delta ds no_calls)" "taCount (fold add_delta ds no_calls) \<le> call_limit"
    "\<forall>d \<in> set ds. dlIndex d < taCount (fold add_delta ds no_calls)" and d: "dlIndex d < call_limit"
    by (simp_all add: indices_fit_def)
  have "gm_get (taCalls (fold add_delta ds no_calls)) (dlIndex d) \<noteq> None \<Longrightarrow> dlIndex d < taCount (fold add_delta ds no_calls)"
    using IH(3) by (auto simp: accum_get deltas_at_empty split: if_splits)
  moreover have "0 \<le> dlIndex d \<Longrightarrow> int64_add (dlIndex d) 1 = dlIndex d + 1" using d by (intro int64_add_one) (simp_all add: call_limit_def)
  ultimately show ?case using IH d by (auto simp: add_delta_count)
qed (simp add: no_calls_def call_limit_def)

lemma int_filter_upt:
  assumes "\<And>i. i \<in> S \<Longrightarrow> i < int n"
  shows "map int (filter (\<lambda>k. int k \<in> S) [0..<n]) = sorted_list_of_set {i \<in> S. 0 \<le> i}"
proof -
  have set: "set (map int (filter (\<lambda>k. int k \<in> S) [0..<n])) = {i \<in> S. 0 \<le> i}" (is "?A = ?B")
  proof
    show "?B \<subseteq> ?A"
    proof
      fix i assume "i \<in> ?B"
      then have "int (nat i) = i" "nat i < n" using assms[of i] by auto
      with \<open>i \<in> ?B\<close> show "i \<in> ?A" by (auto simp: image_iff intro!: bexI[of _ "nat i"])
    qed
  qed auto
  have "sorted (map int (filter (\<lambda>k. int k \<in> S) [0..<n]))" by (simp add: sorted_map sorted_wrt_filter)
  moreover have "distinct (map int (filter (\<lambda>k. int k \<in> S) [0..<n]))" by (simp add: distinct_map)
  ultimately show ?thesis unfolding set[symmetric] by (rule sorted_list_of_set.idem_if_sorted_distinct[symmetric])
qed

lemma accumulated_merged: "indices_fit ds \<Longrightarrow> accumulated (fold add_delta ds no_calls) = merged_calls ds"
proof -
  assume fit: "indices_fit ds"
  let ?acc = "fold add_delta ds no_calls" and ?S = "dlIndex ` set ds"
  have "accumulated ?acc = map (\<lambda>i. merged_call (deltas_at ds i)) (map int (filter (\<lambda>k. int k \<in> ?S) [0..<nat (taCount ?acc)]))"
    by (simp add: accumulated_def List.map_filter_def accum_get deltas_at_empty o_def cong: map_cong)
  also have "map int (filter (\<lambda>k. int k \<in> ?S) [0..<nat (taCount ?acc)]) = sorted_list_of_set {i \<in> ?S. 0 \<le> i}"
    using accum_count[OF fit] by (intro int_filter_upt) auto
  also have "{i \<in> ?S. 0 \<le> i} = set (filter (\<lambda>i. 0 \<le> i) (map dlIndex ds))" by auto
  finally show ?thesis by (simp add: merged_calls_def)
qed

lemma merged_calls_empty: "indices_fit ds \<Longrightarrow> taCount (fold add_delta ds no_calls) = 0 \<Longrightarrow> merged_calls ds = []"
  using accumulated_merged[of ds] by (simp add: accumulated_def List.map_filter_def)

definition chunk_deltas :: "streamChunk \<Rightarrow> toolCallDelta list" where
  "chunk_deltas c = (case stChoices c of [] \<Rightarrow> [] | choice # _ \<Rightarrow> soToolCalls choice)"

text \<open>What the consumer should see: each chunk's own text, reason and usage, and the calls so far.\<close>

definition chunk_seen :: "toolCallDelta list \<Rightarrow> streamChunk \<Rightarrow> StreamChunk" where
  "chunk_seen ds c =
     \<lparr>scContent = (case stChoices c of [] \<Rightarrow> [] | choice # _ \<Rightarrow> soContent choice),
      scToolCalls = (if stChoices c = [] then [] else merged_calls ds),
      scFinishReason = (case stChoices c of [] \<Rightarrow> [] | choice # _ \<Rightarrow> (case soFinishReason choice of None \<Rightarrow> [] | Some r \<Rightarrow> r)),
      scUsage = (case stUsage c of None \<Rightarrow> zero_usage | Some u \<Rightarrow> u), scError = None\<rparr>"

fun chunks_seen :: "toolCallDelta list \<Rightarrow> streamChunk list \<Rightarrow> StreamChunk list" where
  "chunks_seen ds [] = []"
| "chunks_seen ds (c # cs) = chunk_seen (ds @ chunk_deltas c) c # chunks_seen (ds @ chunk_deltas c) cs"

lemma openai_chunk_seen:
  assumes "indices_fit (ds @ chunk_deltas c)"
  shows "openai_chunk c (fold add_delta ds no_calls) = (fold add_delta (ds @ chunk_deltas c) no_calls, Some (chunk_seen (ds @ chunk_deltas c) c))"
proof (cases "stChoices c")
  case (Cons choice rest)
  let ?acc = "fold add_delta (ds @ soToolCalls choice) no_calls"
  have fit: "indices_fit (ds @ soToolCalls choice)" using assms Cons by (simp add: chunk_deltas_def)
  have calls: "(if taCount ?acc > 0 then accumulated ?acc else []) = merged_calls (ds @ soToolCalls choice)"
    using accum_count[OF fit] merged_calls_empty[OF fit] accumulated_merged[OF fit] by (cases "taCount ?acc = 0") (auto split: if_splits)
  have "make_fits (taCount ?acc)" using accum_count[OF fit] make_fits_limit by blast
  moreover have "fold add_delta (soToolCalls choice) (fold add_delta ds no_calls) = ?acc" by simp
  ultimately show ?thesis using Cons calls
    by (simp only: openai_chunk_def chunk_deltas_def chunk_seen_def Let_def list.case list.distinct if_False option.case_eq_if simp_thms)
qed (simp add: openai_chunk_def chunk_deltas_def chunk_seen_def split: option.split)

lemma openai_line_data:
  "decode p = Inr c \<Longrightarrow> p \<noteq> ''[DONE]'' \<Longrightarrow>
   openai_line decode acc (''data: '' @ p) = (fst (openai_chunk c acc), case snd (openai_chunk c acc) of
     Some sc \<Rightarrow> EmitChunk sc | None \<Rightarrow> PanicLine ''runtime error: makeslice: cap out of range'')"
  using TrimPrefix_append[of "''data: ''" p] HasPrefix_append[of "''data: ''" p]
  by (simp add: openai_line_def split: prod.split option.split)

lemma openai_line_done: "openai_line decode acc (''data: '' @ ''[DONE]'') = (acc, StopStream)"
  by (simp add: openai_line_def HasPrefix_def TrimPrefix_def)

lemma openai_line_other: "\<not> HasPrefix l ''data: '' \<Longrightarrow> openai_line decode acc l = (acc, SkipLine)"
  by (simp add: openai_line_def)

abbreviation data_lines :: "string list \<Rightarrow> string list" where
  "data_lines ls \<equiv> filter (\<lambda>l. HasPrefix l ''data: '') ls"

text \<open>The loop reads past the events \<open>chunks\<close> and whatever stands between them, up to the data line after them.\<close>

lemma sse_loop_events:
  assumes "\<And>n. \<not> cs_cancelled cs n"
  shows "data_lines ls = map (\<lambda>c. ''data: '' @ enc c) chunks @ (''data: '' @ p) # rest \<Longrightarrow>
    \<forall>c \<in> set chunks. decode (enc c) = Inr c \<and> enc c \<noteq> ''[DONE]'' \<Longrightarrow> indices_fit (ds @ concat (map chunk_deltas chunks)) \<Longrightarrow>
    \<exists>ls' n'. data_lines ls' = rest \<and> sse_loop (openai_line decode) what cs n (fold add_delta ds no_calls) (ls @ later) err =
      chunks_seen ds chunks @ sse_loop (openai_line decode) what cs n'
        (fold add_delta (ds @ concat (map chunk_deltas chunks)) no_calls) ((''data: '' @ p) # ls' @ later) err"
proof (induction ls arbitrary: chunks n ds)
  case (Cons l ls)
  show ?case
  proof (cases "HasPrefix l ''data: ''")
    case False
    then show ?thesis using Cons.IH[of chunks ds n] Cons.prems by (simp add: openai_line_other)
  next
    case True
    show ?thesis
    proof (cases chunks)
      case Nil
      then show ?thesis using True Cons.prems(1) by (intro exI[of _ ls] exI[of _ n]) simp
    next
      case chunks: (Cons c cs')
      then have l: "l = ''data: '' @ enc c" and ls: "data_lines ls = map (\<lambda>c. ''data: '' @ enc c) cs' @ (''data: '' @ p) # rest"
        using True Cons.prems(1) by simp_all
      have fit: "indices_fit (ds @ chunk_deltas c)" "indices_fit ((ds @ chunk_deltas c) @ concat (map chunk_deltas cs'))"
        using Cons.prems(3) chunks by (auto simp: indices_fit_def)
      have "openai_line decode (fold add_delta ds no_calls) l =
          (fold add_delta (ds @ chunk_deltas c) no_calls, EmitChunk (chunk_seen (ds @ chunk_deltas c) c))"
        unfolding l using Cons.prems(2) chunks
        by (subst openai_line_data[where c = c]) (simp_all add: openai_chunk_seen[OF fit(1)] del: fold_append)
      moreover obtain ls' n' where "data_lines ls' = rest"
        "sse_loop (openai_line decode) what cs (Suc n) (fold add_delta (ds @ chunk_deltas c) no_calls) (ls @ later) err =
          chunks_seen (ds @ chunk_deltas c) cs' @ sse_loop (openai_line decode) what cs n'
            (fold add_delta ((ds @ chunk_deltas c) @ concat (map chunk_deltas cs')) no_calls) ((''data: '' @ p) # ls' @ later) err"
        using Cons.IH[OF ls _ fit(2), of "Suc n"] Cons.prems(2) chunks by auto
      ultimately show ?thesis using assms[of n] chunks
        by (intro exI[of _ ls'] exI[of _ n'])
          (simp only: append_Cons sse_loop.simps prod.case line_effect.case list.map concat.simps chunks_seen.simps append_assoc if_False simp_thms)
    qed
  qed
qed simp

lemma event_stream_done: "event_stream (map enc chunks) body \<Longrightarrow> c \<in> set chunks \<Longrightarrow> enc c \<noteq> ''[DONE]''"
  unfolding event_stream_def by (metis image_eqI set_map)

lemma read_event_stream:
  assumes "event_stream (map enc chunks) body" "\<forall>c \<in> set chunks. decode (enc c) = Inr c" "\<forall>c \<in> set chunks. indices_fit (chunk_deltas c)"
    and "\<forall>n. \<not> cs_cancelled cs n"
  shows "read_openai_stream decode cs (body, err) = chunks_seen [] chunks"
proof -
  obtain ls where ls: "text_lines ls body" "data_lines ls = map (\<lambda>c. ''data: '' @ enc c) chunks @ (''data: '' @ ''[DONE]'') # []"
    using assms(1) by (auto simp: event_stream_def o_def)
  obtain ls' err' where scan: "scan_lines (body, err) = (ls @ ls', err')" using scan_text[OF ls(1)] by blast
  have "\<forall>c \<in> set chunks. decode (enc c) = Inr c \<and> enc c \<noteq> ''[DONE]''" using event_stream_done[OF assms(1)] assms(2) by blast
  moreover have "indices_fit ([] @ concat (map chunk_deltas chunks))" using assms(3) by (auto simp: indices_fit_def)
  ultimately obtain ls'' n' where "sse_loop (openai_line decode) ''stream read error: '' cs 0 (fold add_delta [] no_calls) (ls @ ls') err' =
      chunks_seen [] chunks @ sse_loop (openai_line decode) ''stream read error: '' cs n'
        (fold add_delta ([] @ concat (map chunk_deltas chunks)) no_calls) ((''data: '' @ ''[DONE]'') # ls'' @ ls') err'"
    using sse_loop_events[OF _ ls(2), of cs decode "[]" "''stream read error: ''" 0 ls' err'] assms(4) by blast
  then show ?thesis
    unfolding read_openai_stream_def scan prod.case sse_loop.simps openai_line_done line_effect.case by simp
qed

text \<open>C13. 
  A backend can crash the process with one number. An event of a stream whose one tool call has an index from
  \<open>call_limit\<close> on makes the goroutine panic, which nothing recovers, after the events before it were delivered; with the
  largest index the count of calls overflows, and the chunk carries no calls at all.
\<close>

theorem tool_index_crashes:
  assumes "event_stream (map enc (before @ [c])) body" "\<forall>c \<in> set (before @ [c]). decode (enc c) = Inr c" "\<forall>c \<in> set before. indices_fit (chunk_deltas c)"
    and "\<forall>n. \<not> cs_cancelled cs n" and "chunk_deltas c = [d]" and "call_limit \<le> dlIndex d" and "dlIndex d < 2 ^ 63"
  shows "read_openai_stream decode cs (body, err) = chunks_seen [] before @
    (if dlIndex d = 2 ^ 63 - 1 then [(chunk_seen [] c)\<lparr>scToolCalls := []\<rparr>]
     else [error_chunk ''panic: runtime error: makeslice: cap out of range''])"
proof -
  let ?ds = "concat (map chunk_deltas before)"
  obtain ls where ls: "text_lines ls body"
    "data_lines ls = map (\<lambda>c. ''data: '' @ enc c) before @ (''data: '' @ enc c) # [''data: '' @ ''[DONE]'']"
    using assms(1) by (auto simp: event_stream_def o_def)
  obtain ls' err' where scan: "scan_lines (body, err) = (ls @ ls', err')" using scan_text[OF ls(1)] by blast
  have ok: "\<forall>c \<in> set before. decode (enc c) = Inr c \<and> enc c \<noteq> ''[DONE]''" "decode (enc c) = Inr c" "enc c \<noteq> ''[DONE]''"
    using event_stream_done[OF assms(1)] assms(2) by simp_all
  have fit: "indices_fit ?ds" using assms(3) by (auto simp: indices_fit_def)
  then have fit': "indices_fit ([] @ ?ds)" by simp
  obtain ls'' n' where rest: "data_lines ls'' = [''data: '' @ ''[DONE]'']"
    and loop: "sse_loop (openai_line decode) ''stream read error: '' cs 0 (fold add_delta [] no_calls) (ls @ ls') err' =
      chunks_seen [] before @ sse_loop (openai_line decode) ''stream read error: '' cs n'
        (fold add_delta ([] @ ?ds) no_calls) ((''data: '' @ enc c) # ls'' @ ls') err'"
    using sse_loop_events[OF _ ls(2) ok(1) fit', of cs "''stream read error: ''" 0 ls' err'] assms(4) by blast
  let ?acc = "fold add_delta ?ds no_calls"
  obtain choice others where choice: "stChoices c = choice # others" "soToolCalls choice = [d]"
    using assms(5) by (auto simp: chunk_deltas_def split: list.splits)
  have new: "deltas_at ?ds (dlIndex d) = []" using fit assms(6) unfolding deltas_at_empty indices_fit_def image_iff by (metis not_le)
  then have count: "taCount (add_delta d ?acc) = int64_add (dlIndex d) 1"
    using accum_count[OF fit] assms(6) by (auto simp: add_delta_count accum_get)
  have finished: "sse_loop (openai_line decode) ''stream read error: '' cs n s (ls'' @ ls') err' = []" for n s
    using rest
  proof (induction ls'')
    case (Cons l ls)
    then show ?case
      using openai_line_done[of decode s] by (cases "HasPrefix l ''data: ''") (simp_all add: openai_line_other)
  qed simp
  have "sse_loop (openai_line decode) ''stream read error: '' cs n' ?acc ((''data: '' @ enc c) # ls'' @ ls') err' =
      (if dlIndex d = 2 ^ 63 - 1 then [(chunk_seen [] c)\<lparr>scToolCalls := []\<rparr>]
       else [error_chunk ''panic: runtime error: makeslice: cap out of range''])"
  proof (cases "dlIndex d = 2 ^ 63 - 1")
    case True
    then have "taCount (add_delta d ?acc) < 0" unfolding count by (simp add: int64_add_def)
    then have "openai_chunk c ?acc = (add_delta d ?acc, Some ((chunk_seen [] c)\<lparr>scToolCalls := []\<rparr>))"
      by (simp add: openai_chunk_def chunk_seen_def choice Let_def split: option.split)
    then show ?thesis
      unfolding sse_loop.simps openai_line_data[where decode = decode, OF ok(2,3)] using True assms(4) finished by simp
  next
    case False
    have "0 \<le> call_limit" by (simp add: call_limit_def)
    with False have "taCount (add_delta d ?acc) = dlIndex d + 1" unfolding count using assms(6,7) by (intro int64_add_one) simp_all
    moreover from this have "\<not> make_fits (taCount (add_delta d ?acc))"
      using make_fits_limit[of "dlIndex d + 1"] assms(6) \<open>0 \<le> call_limit\<close> by simp
    ultimately have "snd (openai_chunk c ?acc) = None"
      using assms(6) \<open>0 \<le> call_limit\<close> by (simp add: openai_chunk_def choice Let_def)
    then show ?thesis
      unfolding sse_loop.simps openai_line_data[where decode = decode, OF ok(2,3)] using False by simp
  qed
  then show ?thesis using loop by (simp add: read_openai_stream_def scan)
qed

definition sample_chunk :: streamChunk where
  "sample_chunk = \<lparr>stChoices = [\<lparr>soContent = ''hi'', soToolCalls = [\<lparr>dlIndex = 1, dlID = ''c1'', dlName = [], dlArguments = ''{''\<rparr>],
     soFinishReason = None\<rparr>], stUsage = None\<rparr>"

definition wild_chunk :: "int \<Rightarrow> streamChunk" where
  "wild_chunk i = \<lparr>stChoices = [\<lparr>soContent = [], soToolCalls = [\<lparr>dlIndex = i, dlID = ''c1'', dlName = ''f'', dlArguments = []\<rparr>],
     soFinishReason = None\<rparr>], stUsage = None\<rparr>"

theorem tool_index_crashes_witness:
  "read_openai_stream (\<lambda>p. Inr (if p = ''x'' then sample_chunk else wild_chunk 6000000000000)) patient_consumer (event_bytes [''x'', ''y''], None) =
     chunks_seen [] [sample_chunk] @ [error_chunk ''panic: runtime error: makeslice: cap out of range'']"
proof -
  let ?enc = "\<lambda>c. if c = sample_chunk then ''x'' else ''y''" and ?c = "wild_chunk 6000000000000"
  let ?d = "\<lparr>dlIndex = 6000000000000, dlID = ''c1'', dlName = ''f'', dlArguments = []\<rparr>"
  have other: "?c \<noteq> sample_chunk" by (simp add: sample_chunk_def wild_chunk_def)
  then have "event_stream (map ?enc ([sample_chunk] @ [?c])) (event_bytes [''x'', ''y''])"
    using event_bytes_stream[of "[''x'', ''y'']"] by (simp add: payload_ok_def)
  moreover have "chunk_deltas ?c = [?d]" "indices_fit (chunk_deltas sample_chunk)"
    by (simp_all add: chunk_deltas_def wild_chunk_def sample_chunk_def indices_fit_def call_limit_def)
  ultimately show ?thesis
    using tool_index_crashes[of ?enc "[sample_chunk]" ?c "event_bytes [''x'', ''y'']" "\<lambda>p. Inr (if p = ''x'' then sample_chunk else ?c)" patient_consumer ?d None]
      other by (simp add: patient_consumer_def call_limit_def)
qed

section \<open>The end of a stream\<close>

definition plain_step :: "('s \<Rightarrow> string \<Rightarrow> 's \<times> line_effect) \<Rightarrow> bool" where
  "plain_step step \<longleftrightarrow> (\<forall>s l sc. snd (step s l) = EmitChunk sc \<longrightarrow> scError sc = None)"

lemma openai_plain: "plain_step (openai_line decode)"
  by (auto simp: plain_step_def openai_line_def openai_chunk_def Let_def split: sum.splits list.splits)

lemma anthropic_plain: "plain_step (anthropic_line D)"
  by (auto simp: plain_step_def anthropic_line_def anthropic_data_def block_delta_def message_delta_def plain_chunk_def
      split: sum.splits if_splits option.splits)

lemma sendErrorChunk_errors: "length (sendErrorChunk cs n e) \<le> 1" "x \<in> set (sendErrorChunk cs n e) \<Longrightarrow> scError x \<noteq> None"
  by (auto simp: sendErrorChunk_def error_chunk_def split: if_splits)

lemma sse_loop_ends:
  assumes "plain_step step"
  shows "\<exists>good bad. sse_loop step what cs n s ls err = good @ bad \<and> length good \<le> length ls \<and> length bad \<le> 1 \<and>
    (\<forall>c \<in> set good. scError c = None) \<and> (\<forall>c \<in> set bad. scError c \<noteq> None)"
proof (induction ls arbitrary: n s)
  case Nil
  show ?case
    by (rule exI[of _ "[]"], rule exI[of _ "sse_loop step what cs n s [] err"]) (use sendErrorChunk_errors in \<open>auto split: option.split\<close>)
next
  case (Cons l ls)
  obtain s' eff where st: "step s l = (s', eff)" by (rule prod.exhaust)
  show ?case
  proof (cases eff)
    case SkipLine
    with st Cons.IH[of n s'] show ?thesis by (auto intro: le_SucI)
  next
    case StopStream
    with st show ?thesis by simp
  next
    case (PanicLine reason)
    with st show ?thesis by (intro exI[of _ "[]"] exI[of _ "[error_chunk (''panic: '' @ reason)]"]) (simp add: error_chunk_def)
  next
    case (EmitChunk sc)
    then have sc: "scError sc = None" using assms st unfolding plain_step_def by (metis snd_conv)
    show ?thesis
    proof (cases "cs_cancelled cs n")
      case True
      with st EmitChunk show ?thesis
        using sendErrorChunk_errors by (intro exI[of _ "[]"] exI[of _ "sendErrorChunk cs n (cs_err cs)"]) auto
    next
      case False
      obtain good bad where "sse_loop step what cs (Suc n) s' ls err = good @ bad" "length good \<le> length ls" "length bad \<le> 1"
        "\<forall>c \<in> set good. scError c = None" "\<forall>c \<in> set bad. scError c \<noteq> None"
        using Cons.IH[of "Suc n" s'] by blast
      with st EmitChunk False sc show ?thesis by (intro exI[of _ "sc # good"] exI[of _ bad]) auto
    qed
  qed
qed

text \<open>
  Whatever bytes a backend sends and whatever its decoders make of them, the channel of a stream
  is closed after at most one chunk per line of the body and one error; an error chunk is always the last.
\<close>
theorem streams_end_with_their_error:
  "\<forall>out \<in> {read_openai_stream decode cs body, read_anthropic_stream D cs body}.
     \<exists>good bad. out = good @ bad \<and> length good \<le> length (Split (fst body) (CHR 0x0A)) \<and> length bad \<le> 1 \<and>
       (\<forall>c \<in> set good. scError c = None) \<and> (\<forall>c \<in> set bad. scError c \<noteq> None)"
proof -
  have "length (fst (scan_lines body)) \<le> length (Split (fst body) (CHR 0x0A))"
    using length_takeWhile_le[of "\<lambda>l. length l < 65536" "raw_lines (fst body)"]
    by (auto simp: scan_lines_def raw_lines_def Let_def split: if_splits)
  then have "\<exists>good bad. sse_loop step what cs 0 s (fst (scan_lines body)) err = good @ bad \<and>
      length good \<le> length (Split (fst body) (CHR 0x0A)) \<and> length bad \<le> 1 \<and>
      (\<forall>c \<in> set good. scError c = None) \<and> (\<forall>c \<in> set bad. scError c \<noteq> None)" if "plain_step step" for step :: "'s \<Rightarrow> _" and what s err
    using sse_loop_ends[OF that, of what cs 0 s "fst (scan_lines body)" err] le_trans by blast
  from this[OF openai_plain[of decode]] this[OF anthropic_plain[of D]]
  show ?thesis unfolding read_openai_stream_def read_anthropic_stream_def by (simp add: case_prod_beta)
qed

theorem streams_end_with_their_error_witness:
  "length (read_openai_stream (\<lambda>_. Inl []) patient_consumer (''data: x'', Some ''reset'')) \<le> 2"
proof -
  obtain good bad where "read_openai_stream (\<lambda>_. Inl []) patient_consumer (''data: x'', Some ''reset'') = good @ bad"
    "length good \<le> length (Split ''data: x'' (CHR 0x0A))" "length bad \<le> 1"
    using streams_end_with_their_error[of "\<lambda>_. Inl []" patient_consumer "(''data: x'', Some ''reset'')" no_decoders] by auto
  then show ?thesis by simp
qed

text \<open>An event named \<open>error\<close> is skipped like an unknown one: the stream then ends as if it were complete.\<close>

lemma anthropic_error_event_skipped:
  "anthropic_line D s ''event: error'' = (s\<lparr>asEvent := ''error''\<rparr>, SkipLine) \<and>
   anthropic_line D (s\<lparr>asEvent := ''error''\<rparr>) (''data: '' @ payload) = (s\<lparr>asEvent := ''error''\<rparr>, SkipLine)"
  by (simp add: anthropic_line_def anthropic_data_def HasPrefix_def TrimPrefix_def)

section \<open>Embeddings and images\<close>

lemma place_embedding_length [simp]: "length (place_embedding d r) = length r"
  by (simp add: place_embedding_def)

lemma fold_place_length [simp]: "length (fold place_embedding data r) = length r"
  by (induction data arbitrary: r) simp_all

lemma fold_place_other: "i \<notin> fst ` set data \<Longrightarrow> 0 \<le> i \<Longrightarrow> fold place_embedding data r ! nat i = r ! nat i"
  by (induction data arbitrary: r) (auto simp: place_embedding_def nth_list_update)

lemma fold_place_nth:
  "distinct (map fst data) \<Longrightarrow> (i, e) \<in> set data \<Longrightarrow> 0 \<le> i \<Longrightarrow> i < int (length r) \<Longrightarrow> fold place_embedding data r ! nat i = e"
proof (induction data arbitrary: r)
  case (Cons d data)
  show ?case
  proof (cases "d = (i, e)")
    case True
    then have "i \<notin> fst ` set data" using Cons.prems(1) by (simp add: image_iff)
    then have "fold place_embedding data (place_embedding d r) ! nat i = place_embedding d r ! nat i"
      using Cons.prems(3) by (rule fold_place_other)
    also have "\<dots> = e" using True Cons.prems by (simp add: place_embedding_def)
    finally show ?thesis by simp
  qed (use Cons in auto)
qed simp

text \<open>When the indices of an embedding response are distinct and in range, the vectors are returned at
  the positions their indices name, whatever order the service sends them in.\<close>

theorem embeddings_in_input_order:
  assumes "distinct (map fst data)" "\<forall>d \<in> set data. 0 \<le> fst d \<and> fst d < int (length data)"
  shows "length (order_embeddings data) = length data \<and> (\<forall>(i, e) \<in> set data. order_embeddings data ! nat i = e)"
  using assms fold_place_nth[of data] by (fastforce simp: order_embeddings_def)

theorem embeddings_in_input_order_witness:
  "order_embeddings [(1, [FFin 2]), (0, [FFin 1])] ! 0 = [FFin 1] \<and> order_embeddings [(1, [FFin 2]), (0, [FFin 1])] ! 1 = [FFin 2]"
  using embeddings_in_input_order[of "[(1, [FFin 2]), (0, [FFin 1])]"] by simp

lemma OpenAI_image: "contentsToOpenAI [NewImageBlockBase64 media d] =
    ContentBlocks [\<lparr>obType = ''image_url'', obText = [], obImageURL = Some (ImageRef (NewImageBlockBase64 media d))\<rparr>]"
  by (simp add: contentsToOpenAI_def openai_block_def NewImageBlockBase64_def)

lemma ImageRef_inline: "length d1 = length d2 \<Longrightarrow>
    ImageRef (NewImageBlockBase64 media d1) = ImageRef (NewImageBlockBase64 media d2) \<longleftrightarrow> d1 = d2"
  by (cases d1; cases d2) (simp_all add: ImageRef_def NewImageBlockBase64_def Let_def)

lemma flatten_inline: "flatten_block (NewImageBlockBase64 media d) =
    ''[Image: base64 '' @ media @ '' ('' @ show_nat (length d) @ '' bytes)]''"
  by (simp add: flatten_block_def NewImageBlockBase64_def)

text \<open>The request to Claude does not depend on the bytes of an inline image: two images of the same
  media type and encoded length give the same request, although the provider advertises vision and
  the OpenAI-compatible request keeps such images apart.\<close>

theorem claude_requests_forget_images:
  assumes "length d1 = length d2" "d1 \<noteq> d2"
  shows "build_messages_request stream model (req\<lparr>grMessages := [\<lparr>msgRole = ''user'', msgContents = [NewImageBlockBase64 media d1], msgName = [], msgExecutionID = []\<rparr>]\<rparr>) =
         build_messages_request stream model (req\<lparr>grMessages := [\<lparr>msgRole = ''user'', msgContents = [NewImageBlockBase64 media d2], msgName = [], msgExecutionID = []\<rparr>]\<rparr>) \<and>
         contentsToOpenAI [NewImageBlockBase64 media d1] \<noteq> contentsToOpenAI [NewImageBlockBase64 media d2] \<and>
         ''vision'' \<in> set (ClaudeCapabilities p)"
  using assms
  by (auto simp: OpenAI_image ImageRef_inline flatten_inline build_messages_request_def systemParts_def convMessages_def
      FlattenToText_def ClaudeCapabilities_def)

theorem claude_requests_forget_images_witness:
  "build_messages_request False ''m'' (empty_request\<lparr>grMessages := [\<lparr>msgRole = ''user'', msgContents = [NewImageBlockBase64 ''image/png'' ''AAAA''], msgName = [], msgExecutionID = []\<rparr>]\<rparr>) =
   build_messages_request False ''m'' (empty_request\<lparr>grMessages := [\<lparr>msgRole = ''user'', msgContents = [NewImageBlockBase64 ''image/png'' ''BBBB''], msgName = [], msgExecutionID = []\<rparr>]\<rparr>)"
  using claude_requests_forget_images[of "''AAAA''" "''BBBB''"] by simp

end
