(* ===== verification/Claude_Stream.thy ===== *)
theory Claude_Stream
  imports Providers_Properties
begin

text \<open>
  What a consumer of a Claude stream sees (\<open>ai/providers/anthropic_streaming.go\<close>): the events of the
  protocol as a datatype, the tool calls they amount to, and the proof that the reader delivers them.
\<close>

section \<open>Events and what they amount to\<close>

text \<open>
  A block that is not a tool call is text or the model's thinking; a delta that is neither text nor input belongs to such
  a block; any other event, such as \<open>error\<close>, has a name of its own.
\<close>

datatype claude_event =
    MessageStart
  | ToolStart int string string
  | OtherStart int
  | TextDelta int string
  | JSONDelta int string
  | OtherDelta int
  | BlockStop
  | Ping
  | MessageDelta string "anthropicUsage option"
  | OtherEvent string

fun event_name :: "claude_event \<Rightarrow> string" where
  "event_name MessageStart = ''message_start''"
| "event_name (ToolStart i ident name) = ''content_block_start''"
| "event_name (OtherStart i) = ''content_block_start''"
| "event_name (TextDelta i t) = ''content_block_delta''"
| "event_name (JSONDelta i j) = ''content_block_delta''"
| "event_name (OtherDelta i) = ''content_block_delta''"
| "event_name BlockStop = ''content_block_stop''"
| "event_name Ping = ''ping''"
| "event_name (MessageDelta stop usage) = ''message_delta''"
| "event_name (OtherEvent name) = name"

definition known_events :: "string list" where
  "known_events = [''message_start'', ''ping'', ''message_stop'', ''content_block_start'', ''content_block_stop'',
     ''content_block_delta'', ''message_delta'']"

text \<open>The decoders read the payload \<open>enc e\<close> of the event \<open>e\<close>.\<close>

fun reads :: "event_decoders \<Rightarrow> string \<Rightarrow> claude_event \<Rightarrow> bool" where
  "reads D p (ToolStart i ident name) \<longleftrightarrow>
     (\<exists>b. dec_start D p = Inr (i, Some b) \<and> abType b = ''tool_use'' \<and> abID b = ident \<and> abName b = name)"
| "reads D p (OtherStart i) \<longleftrightarrow> (\<exists>b. dec_start D p = Inr (i, b) \<and> (\<forall>x. b = Some x \<longrightarrow> abType x \<noteq> ''tool_use''))"
| "reads D p (TextDelta i t) \<longleftrightarrow> (\<exists>d. dec_delta D p = Inr (i, d) \<and> adType d = ''text_delta'' \<and> adText d = t)"
| "reads D p (JSONDelta i j) \<longleftrightarrow> (\<exists>d. dec_delta D p = Inr (i, d) \<and> adType d = ''input_json_delta'' \<and> adPartialJSON d = j)"
| "reads D p (OtherDelta i) \<longleftrightarrow> (\<exists>d. dec_delta D p = Inr (i, d) \<and> adType d \<notin> {''text_delta'', ''input_json_delta''})"
| "reads D p (OtherEvent name) \<longleftrightarrow> name \<notin> set known_events"
| "reads D p (MessageDelta stop usage) \<longleftrightarrow> dec_message_delta D p = Inr (stop, usage)"
| "reads D p _ \<longleftrightarrow> True"

fun tool_starts :: "claude_event list \<Rightarrow> (int \<times> string \<times> string) list" where
  "tool_starts [] = []"
| "tool_starts (ToolStart i ident name # es) = (i, ident, name) # tool_starts es"
| "tool_starts (_ # es) = tool_starts es"

fun json_at :: "int \<Rightarrow> claude_event list \<Rightarrow> string" where
  "json_at i [] = []"
| "json_at i (JSONDelta k j # es) = (if k = i then j else []) @ json_at i es"
| "json_at i (_ # es) = json_at i es"

definition calls_of :: "claude_event list \<Rightarrow> ToolCall list" where
  "calls_of es = map (\<lambda>(i, ident, name). \<lparr>tcID = ident, tcName = name, tcArguments = json_at i es\<rparr>) (tool_starts es)"

text \<open>
  The index of a tool block is new: it has not been the index of a tool block or of a fragment of input. Fragments for a
  block that is no tool call are allowed; they are lost.
\<close>

fun used :: "claude_event list \<Rightarrow> int set" where
  "used [] = {}"
| "used (ToolStart i ident name # es) = insert i (used es)"
| "used (JSONDelta i j # es) = insert i (used es)"
| "used (_ # es) = used es"

fun protocol :: "int set \<Rightarrow> claude_event list \<Rightarrow> bool" where
  "protocol seen [] \<longleftrightarrow> True"
| "protocol seen (ToolStart i ident name # es) \<longleftrightarrow> i \<notin> seen \<and> protocol (insert i seen) es"
| "protocol seen (JSONDelta i j # es) \<longleftrightarrow> protocol (insert i seen) es"
| "protocol seen (_ # es) \<longleftrightarrow> protocol seen es"

fun event_chunks :: "claude_event list \<Rightarrow> claude_event \<Rightarrow> StreamChunk list" where
  "event_chunks before (TextDelta i t) = [plain_chunk\<lparr>scContent := t, scToolCalls := calls_of before\<rparr>]"
| "event_chunks before (OtherDelta i) = [plain_chunk\<lparr>scToolCalls := calls_of before\<rparr>]"
| "event_chunks before BlockStop = (if calls_of before = [] then [] else [plain_chunk\<lparr>scToolCalls := calls_of before\<rparr>])"
| "event_chunks before (MessageDelta stop usage) = [plain_chunk\<lparr>scFinishReason := stop, scToolCalls := calls_of before,
     scUsage := (case usage of Some u \<Rightarrow> \<lparr>tuPromptTokens = 0, tuCompletionTokens = sint (auOutputTokens u), tuTotalTokens = 0\<rparr>
       | None \<Rightarrow> zero_usage)\<rparr>]"
| "event_chunks before _ = []"

fun stream_chunks :: "claude_event list \<Rightarrow> claude_event list \<Rightarrow> StreamChunk list" where
  "stream_chunks before [] = []"
| "stream_chunks before (e # es) = event_chunks before e @ stream_chunks (before @ [e]) es"

section \<open>The accumulator\<close>

lemma tool_starts_append: "tool_starts (a @ b) = tool_starts a @ tool_starts b"
  by (induction a rule: tool_starts.induct) auto

lemma json_at_append: "json_at i (a @ b) = json_at i a @ json_at i b"
  by (induction a rule: json_at.induct) auto

lemma used_append: "used (a @ b) = used a \<union> used b"
  by (induction a rule: used.induct) auto

lemma json_unused: "i \<notin> used es \<Longrightarrow> json_at i es = []"
  by (induction es rule: used.induct) auto

lemma starts_used: "fst ` set (tool_starts es) \<subseteq> used es"
  by (induction es rule: used.induct) auto

definition accumulates :: "claude_event list \<Rightarrow> anthropic_state \<Rightarrow> bool" where
  "accumulates es s \<longleftrightarrow> asOrder s = map fst (tool_starts es) \<and> distinct (map fst (tool_starts es)) \<and>
     (\<forall>i ident name. (i, ident, name) \<in> set (tool_starts es) \<longrightarrow>
        gm_get (asAccum s) i = Some \<lparr>acID = ident, acName = name, acJSON = json_at i es\<rparr>) \<and>
     (\<forall>i. i \<notin> fst ` set (tool_starts es) \<longrightarrow> gm_get (asAccum s) i = None)"

lemma map_filter_all: "(\<And>x. x \<in> set xs \<Longrightarrow> f x = Some (g x)) \<Longrightarrow> List.map_filter f xs = map g xs"
  by (induction xs) (auto simp: List.map_filter_simps)

lemma gm_empty_iff: "m = [] \<longleftrightarrow> (\<forall>k. gm_get m k = None)"
proof (cases m)
  case (Cons x m')
  then have "gm_get m (fst x) \<noteq> None" by (cases x) simp
  with Cons show ?thesis by auto
qed simp

lemma accumulates_empty:
  assumes "accumulates es s"
  shows "asAccum s = [] \<longleftrightarrow> tool_starts es = []"
proof (cases "tool_starts es")
  case Nil
  with assms show ?thesis using gm_empty_iff[of "asAccum s"] by (simp add: accumulates_def)
next
  case (Cons x xs)
  then have "gm_get (asAccum s) (fst x) \<noteq> None" using assms by (cases x) (auto simp: accumulates_def)
  with Cons show ?thesis by auto
qed

lemma built_calls:
  assumes "accumulates es s"
  shows "buildToolCalls (asAccum s) (asOrder s) = calls_of es" "current_calls s = calls_of es"
proof -
  have get: "gm_get (asAccum s) (fst x) = Some \<lparr>acID = fst (snd x), acName = snd (snd x), acJSON = json_at (fst x) es\<rparr>"
    if "x \<in> set (tool_starts es)" for x
    using assms that by (cases x) (auto simp: accumulates_def)
  have "List.map_filter (\<lambda>idx. map_option accum_call (gm_get (asAccum s) idx)) (map fst xs) =
      map (\<lambda>(i, ident, name). \<lparr>tcID = ident, tcName = name, tcArguments = json_at i es\<rparr>) xs"
    if "set xs \<subseteq> set (tool_starts es)" for xs
    using that get by (induction xs) (auto simp: List.map_filter_simps accum_call_def)
  moreover have "asOrder s = map fst (tool_starts es)" using assms by (simp add: accumulates_def)
  ultimately have all: "List.map_filter (\<lambda>idx. map_option accum_call (gm_get (asAccum s) idx)) (asOrder s) = calls_of es"
    by (simp add: calls_of_def)
  show b: "buildToolCalls (asAccum s) (asOrder s) = calls_of es"
    using all accumulates_empty[OF assms] by (simp add: buildToolCalls_def calls_of_def)
  then show "current_calls s = calls_of es"
    using accumulates_empty[OF assms] by (simp add: current_calls_def calls_of_def)
qed

lemma accumulates_start: "accumulates [] no_events"
  by (simp add: accumulates_def no_events_def)

lemma accumulates_event [simp]: "accumulates es (s\<lparr>asEvent := x\<rparr>) = accumulates es s"
  by (simp add: accumulates_def)

lemma accumulates_other:
  assumes "accumulates es s" and "tool_starts [e] = []" and "\<And>i. i \<in> fst ` set (tool_starts es) \<Longrightarrow> json_at i [e] = []"
  shows "accumulates (es @ [e]) s"
  using assms by (force simp: accumulates_def tool_starts_append json_at_append)

definition effect_of :: "StreamChunk list \<Rightarrow> line_effect" where
  "effect_of cs = (case cs of [] \<Rightarrow> SkipLine | c # _ \<Rightarrow> EmitChunk c)"

lemma tool_start_step:
  assumes "accumulates es s" and "i \<notin> used es"
  shows "accumulates (es @ [ToolStart i ident name])
    (s\<lparr>asAccum := gm_put i \<lparr>acID = ident, acName = name, acJSON = []\<rparr> (asAccum s), asOrder := asOrder s @ [i]\<rparr>)"
  using assms(1) json_unused[OF assms(2)] starts_used[of es] assms(2)
  by (force simp: accumulates_def tool_starts_append json_at_append)

lemma fragment_step:
  assumes "accumulates es s" and "(i, ident, name) \<in> set (tool_starts es)"
  shows "gm_get (asAccum s) i = Some \<lparr>acID = ident, acName = name, acJSON = json_at i es\<rparr>"
    and "accumulates (es @ [JSONDelta i j])
      (s\<lparr>asAccum := gm_put i \<lparr>acID = ident, acName = name, acJSON = json_at i es @ j\<rparr> (asAccum s)\<rparr>)"
proof -
  show "gm_get (asAccum s) i = Some \<lparr>acID = ident, acName = name, acJSON = json_at i es\<rparr>" using assms by (simp add: accumulates_def)
  have uniq: "ident' = ident \<and> name' = name" if "(i, ident', name') \<in> set (tool_starts es)" for ident' name'
    using assms that eq_key_imp_eq_value[of "tool_starts es" i "(ident, name)" "(ident', name')"] by (simp add: accumulates_def)
  have parts: "tool_starts (es @ [JSONDelta i j]) = tool_starts es"
    "json_at k (es @ [JSONDelta i j]) = json_at k es @ (if k = i then j else [])" for k
    by (simp_all add: tool_starts_append json_at_append)
  have "i \<in> fst ` set (tool_starts es)" using assms(2) by force
  then show "accumulates (es @ [JSONDelta i j])
      (s\<lparr>asAccum := gm_put i \<lparr>acID = ident, acName = name, acJSON = json_at i es @ j\<rparr> (asAccum s)\<rparr>)"
    using assms(1) uniq unfolding accumulates_def parts by auto
qed

lemma data_step:
  assumes "accumulates es s" and "reads D p e" and "protocol (used es) [e]" and "asEvent s = event_name e"
  shows "\<exists>s'. anthropic_data D p s = (s', effect_of (event_chunks es e)) \<and> accumulates (es @ [e]) s'"
proof -
  note other = accumulates_other[OF assms(1), of e] and calls = built_calls[OF assms(1)]
  show ?thesis
  proof (cases e)
    case (ToolStart i ident name)
    let ?s' = "s\<lparr>asAccum := gm_put i \<lparr>acID = ident, acName = name, acJSON = []\<rparr> (asAccum s), asOrder := asOrder s @ [i]\<rparr>"
    have "anthropic_data D p s = (?s', SkipLine)"
      using assms(2,4) ToolStart by (auto simp: anthropic_data_def block_start_def)
    with tool_start_step[OF assms(1), of i ident name] assms(3) ToolStart show ?thesis by (auto simp: effect_of_def)
  next
    case (OtherStart i)
    then have "anthropic_data D p s = (s, SkipLine)"
      using assms(2,4) by (auto simp: anthropic_data_def block_start_def split: option.split)
    with other OtherStart show ?thesis by (auto simp: effect_of_def)
  next
    case (JSONDelta i j)
    show ?thesis
    proof (cases "i \<in> fst ` set (tool_starts es)")
      case True
      then obtain ident name where i: "(i, ident, name) \<in> set (tool_starts es)" by auto
      let ?s' = "s\<lparr>asAccum := gm_put i \<lparr>acID = ident, acName = name, acJSON = json_at i es @ j\<rparr> (asAccum s)\<rparr>"
      have "anthropic_data D p s = (?s', SkipLine)"
        using assms(2,4) JSONDelta fragment_step(1)[OF assms(1) i] by (auto simp: anthropic_data_def block_delta_def)
      with fragment_step(2)[OF assms(1) i, of j] JSONDelta show ?thesis by (auto simp: effect_of_def)
    next
      case False
      then have "gm_get (asAccum s) i = None" using assms(1) by (simp add: accumulates_def)
      then have "anthropic_data D p s = (s, SkipLine)"
        using assms(2,4) JSONDelta by (auto simp: anthropic_data_def block_delta_def)
      moreover have "accumulates (es @ [e]) s" using False JSONDelta by (intro other) auto
      ultimately show ?thesis using JSONDelta by (auto simp: effect_of_def)
    qed
  next
    case (TextDelta i t)
    then have "anthropic_data D p s = (s, effect_of (event_chunks es e))"
      using assms(2,4) calls by (auto simp: anthropic_data_def block_delta_def effect_of_def)
    with other TextDelta show ?thesis by auto
  next
    case (OtherDelta i)
    then have "anthropic_data D p s = (s, effect_of (event_chunks es e))"
      using assms(2,4) calls by (auto simp: anthropic_data_def block_delta_def effect_of_def)
    with other OtherDelta show ?thesis by auto
  next
    case BlockStop
    have "calls_of es = [] \<longleftrightarrow> asAccum s = []" using accumulates_empty[OF assms(1)] by (simp add: calls_of_def)
    with BlockStop have "anthropic_data D p s = (s, effect_of (event_chunks es e))"
      using assms(4) calls by (auto simp: anthropic_data_def effect_of_def)
    with other BlockStop show ?thesis by auto
  next
    case (MessageDelta stop usage)
    then have "anthropic_data D p s = (s, effect_of (event_chunks es e))"
      using assms(2,4) calls by (auto simp: anthropic_data_def message_delta_def effect_of_def)
    with other MessageDelta show ?thesis by auto
  next
    case (OtherEvent name)
    then have "anthropic_data D p s = (s, SkipLine)" using assms(2,4) by (simp add: anthropic_data_def known_events_def)
    with other OtherEvent show ?thesis by (auto simp: effect_of_def)
  qed (use assms(4) other in \<open>auto simp: anthropic_data_def effect_of_def\<close>)
qed

section \<open>The whole stream\<close>

text \<open>
  The lines of a stream: an event is its name, its payload and a blank line; between events there may be blank lines, comments
  and other fields. What follows \<open>message_stop\<close> may be anything.
\<close>

inductive claude_lines :: "(string \<times> string) list \<Rightarrow> string list \<Rightarrow> bool" where
  message_stop: "claude_lines [] (''event: message_stop'' # (''data: '' @ q) # ls)"
| event: "claude_lines es ls \<Longrightarrow> claude_lines ((name, p) # es) ((''event: '' @ name) # (''data: '' @ p) # [] # ls)"
| other: "\<not> HasPrefix l ''event: '' \<Longrightarrow> \<not> HasPrefix l ''data: '' \<Longrightarrow> claude_lines es ls \<Longrightarrow> claude_lines es (l # ls)"

definition claude_stream :: "(claude_event \<Rightarrow> string) \<Rightarrow> claude_event list \<Rightarrow> string \<Rightarrow> bool" where
  "claude_stream enc es body \<longleftrightarrow>
     (\<exists>ls. text_lines ls body \<and> claude_lines (map (\<lambda>e. (event_name e, enc e)) es) ls)"

lemma event_line: "anthropic_line D s (''event: '' @ name) = (s\<lparr>asEvent := name\<rparr>, SkipLine)"
  using TrimPrefix_append[of "''event: ''" name] HasPrefix_append[of "''event: ''" name] by (simp add: anthropic_line_def)

lemma data_line: "anthropic_line D s (''data: '' @ p) = anthropic_data D p s"
  using TrimPrefix_append[of "''data: ''" p] HasPrefix_append[of "''data: ''" p] by (simp add: anthropic_line_def HasPrefix_def)

lemma blank_line: "anthropic_line D s [] = (s\<lparr>asEvent := []\<rparr>, SkipLine)"
  by (simp add: anthropic_line_def)

lemma other_line: "\<not> HasPrefix l ''event: '' \<Longrightarrow> \<not> HasPrefix l ''data: '' \<Longrightarrow>
    \<exists>name. anthropic_line D s l = (s\<lparr>asEvent := name\<rparr>, SkipLine)"
  by (cases s) (auto simp: anthropic_line_def)

lemma event_loop:
  assumes "\<And>n. \<not> cs_cancelled cs n" and "accumulates es s" and "reads D p e" and "protocol (used es) [e]"
  shows "\<exists>s' n'. accumulates (es @ [e]) s' \<and>
    sse_loop (anthropic_line D) what cs n s ((''event: '' @ event_name e) # (''data: '' @ p) # [] # ls) err =
      event_chunks es e @ sse_loop (anthropic_line D) what cs n' s' ls err"
proof -
  obtain s' where s': "anthropic_data D p (s\<lparr>asEvent := event_name e\<rparr>) = (s', effect_of (event_chunks es e))" "accumulates (es @ [e]) s'"
    using data_step[of es "s\<lparr>asEvent := event_name e\<rparr>" D p e] assms(2-4) by auto
  have "event_chunks es e = [] \<or> (\<exists>c. event_chunks es e = [c])" by (cases e) auto
  then show ?thesis
  proof
    assume "event_chunks es e = []"
    with s' show ?thesis
      by (intro exI[of _ "s'\<lparr>asEvent := []\<rparr>"] exI[of _ n])
        (simp add: event_line[simplified] data_line[simplified] blank_line effect_of_def)
  next
    assume "\<exists>c. event_chunks es e = [c]"
    with s' assms(1) show ?thesis
      by (intro exI[of _ "s'\<lparr>asEvent := []\<rparr>"] exI[of _ "Suc n"])
        (auto simp: event_line[simplified] data_line[simplified] blank_line effect_of_def)
  qed
qed

lemma protocol_snoc: "protocol (used es) (e # rest) \<Longrightarrow> protocol (used es) [e] \<and> protocol (used (es @ [e])) rest"
  by (cases e) (auto simp: used_append)

lemma whole_loop:
  assumes "\<And>n. \<not> cs_cancelled cs n"
  shows "claude_lines xs ls \<Longrightarrow> xs = map (\<lambda>e. (event_name e, enc e)) es \<Longrightarrow> accumulates before s \<Longrightarrow>
    \<forall>e \<in> set es. reads D (enc e) e \<Longrightarrow> protocol (used before) es \<Longrightarrow>
    sse_loop (anthropic_line D) what cs n s (ls @ later) err = stream_chunks before es"
proof (induction arbitrary: es before s n rule: claude_lines.induct)
  case (message_stop q ls)
  then show ?case
    using event_line[of D s "''message_stop''"] data_line[of D "s\<lparr>asEvent := ''message_stop''\<rparr>" q] by (simp add: anthropic_data_def)
next
  case (event xs ls name p)
  then obtain e es' where es: "es = e # es'" "name = event_name e" "p = enc e" "xs = map (\<lambda>e. (event_name e, enc e)) es'" by auto
  have pr: "protocol (used before) [e]" "protocol (used (before @ [e])) es'" using protocol_snoc event.prems(4) es(1) by blast+
  have "reads D (enc e) e" using event.prems(3) es(1) by simp
  from event_loop[OF assms event.prems(2) this pr(1), of what n "ls @ later" err]
  obtain s' n' where s': "accumulates (before @ [e]) s'"
    "sse_loop (anthropic_line D) what cs n s ((''event: '' @ event_name e) # (''data: '' @ enc e) # [] # ls @ later) err =
     event_chunks before e @ sse_loop (anthropic_line D) what cs n' s' (ls @ later) err" by blast
  moreover have "sse_loop (anthropic_line D) what cs n' s' (ls @ later) err = stream_chunks (before @ [e]) es'"
    using event.IH[OF es(4) s'(1) _ pr(2)] event.prems(3) es(1) by simp
  ultimately show ?case unfolding es(1-3) append_Cons stream_chunks.simps by simp
next
  case (other l xs ls)
  then obtain name where "anthropic_line D s l = (s\<lparr>asEvent := name\<rparr>, SkipLine)" using other_line by blast
  with other.IH[of es before "s\<lparr>asEvent := name\<rparr>" n] other.prems show ?case by simp
qed

lemma read_claude_stream:
  assumes "claude_stream enc es body" and "\<forall>e \<in> set es. reads D (enc e) e" and "protocol {} es"
    and "\<forall>n. \<not> cs_cancelled cs n"
  shows "read_anthropic_stream D cs (body, err) = stream_chunks [] es"
proof -
  obtain ls where ls: "text_lines ls body" "claude_lines (map (\<lambda>e. (event_name e, enc e)) es) ls"
    using assms(1) by (auto simp: claude_stream_def)
  obtain ls' err' where scan: "scan_lines (body, err) = (ls @ ls', err')" using scan_text[OF ls(1)] by blast
  show ?thesis
    using whole_loop[OF _ ls(2) refl accumulates_start assms(2), of cs "''anthropic stream read error: ''" 0 ls' err'] assms(3,4)
    by (simp add: read_anthropic_stream_def scan)
qed


text \<open>The usual layout.\<close>

definition claude_bytes :: "(claude_event \<Rightarrow> string) \<Rightarrow> claude_event list \<Rightarrow> string" where
  "claude_bytes enc es = concat (map (\<lambda>(name, p). ''event: '' @ name @ CHR 0x0A # ''data: '' @ p @ [CHR 0x0A, CHR 0x0A])
     (map (\<lambda>e. (event_name e, enc e)) es @ [(''message_stop'', ''{}'')]))"

lemma named_event_text:
  assumes "payload_ok name" "payload_ok p" "text_lines ls s"
  shows "text_lines ((''event: '' @ name) # (''data: '' @ p) # [] # ls) (''event: '' @ name @ CHR 0x0A # ''data: '' @ p @ CHR 0x0A # CHR 0x0A # s)"
  using assms unfolding payload_ok_def by (intro field_line data_event_text) simp_all

lemma claude_bytes_stream:
  assumes "list_all payload_ok (map enc es)" and "list_all payload_ok (map event_name es)"
  shows "claude_stream enc es (claude_bytes enc es)"
proof -
  have "\<exists>ls. text_lines ls (claude_bytes enc es) \<and> claude_lines (map (\<lambda>e. (event_name e, enc e)) es) ls"
    using assms
  proof (induction es)
    case Nil
    have "text_lines ((''event: '' @ ''message_stop'') # (''data: '' @ ''{}'') # [] # [])
        (''event: '' @ ''message_stop'' @ CHR 0x0A # ''data: '' @ ''{}'' @ CHR 0x0A # CHR 0x0A # [])"
      by (intro named_event_text text_lines.tail) (simp_all add: payload_ok_def)
    then have "text_lines [''event: message_stop'', ''data: {}'', []] (claude_bytes enc [])" by (simp add: claude_bytes_def)
    with claude_lines.message_stop[of "''{}''" "[[]]"] show ?case by auto
  next
    case (Cons e es)
    then obtain ls where ls: "text_lines ls (claude_bytes enc es)" "claude_lines (map (\<lambda>e. (event_name e, enc e)) es) ls" by auto
    have bytes: "claude_bytes enc (e # es) = ''event: '' @ event_name e @ CHR 0x0A # ''data: '' @ enc e @ CHR 0x0A # CHR 0x0A # claude_bytes enc es"
      by (simp add: claude_bytes_def)
    have ok: "payload_ok (event_name e)" "payload_ok (enc e)" using Cons.prems by simp_all
    show ?case
    proof (intro exI conjI)
      show "text_lines ((''event: '' @ event_name e) # (''data: '' @ enc e) # [] # ls) (claude_bytes enc (e # es))"
        unfolding bytes by (rule named_event_text[OF ok ls(1)])
      show "claude_lines (map (\<lambda>e. (event_name e, enc e)) (e # es)) ((''event: '' @ event_name e) # (''data: '' @ enc e) # [] # ls)"
        unfolding list.map by (rule claude_lines.event[OF ls(2)])
    qed
  qed
  then show ?thesis by (simp add: claude_stream_def)
qed

text \<open>A stream as Claude sends it: text and then a tool call.\<close>

definition demo_events :: "claude_event list" where
  "demo_events = [MessageStart, OtherStart 0, Ping, TextDelta 0 ''hi'', BlockStop, ToolStart 1 ''c'' ''f'',
     JSONDelta 1 ''{'', JSONDelta 1 ''}'', BlockStop, MessageDelta ''tool_use'' None]"

fun demo_payload :: "claude_event \<Rightarrow> string" where
  "demo_payload (OtherStart i) = ''text''"
| "demo_payload (ToolStart i ident name) = ''tool''"
| "demo_payload (TextDelta i t) = ''hi''"
| "demo_payload (JSONDelta i j) = j"
| "demo_payload _ = ''x''"

definition demo_decoders :: event_decoders where
  "demo_decoders = \<lparr>
     dec_start = \<lambda>p. Inr (if p = ''tool'' then (1, Some \<lparr>abType = ''tool_use'', abText = [], abID = ''c'', abName = ''f'', abInput = []\<rparr>)
       else (0, Some \<lparr>abType = ''text'', abText = [], abID = [], abName = [], abInput = []\<rparr>)),
     dec_delta = \<lambda>p. Inr (if p = ''hi'' then (0, \<lparr>adType = ''text_delta'', adText = p, adPartialJSON = []\<rparr>)
       else (1, \<lparr>adType = ''input_json_delta'', adText = [], adPartialJSON = p\<rparr>)),
     dec_message_delta = \<lambda>_. Inr (''tool_use'', None)\<rparr>"


end
