(* ===== verification/Provider_Chain.thy ===== *)
theory Provider_Chain
  imports Planner_Properties Claude_Stream
begin

text \<open>
  The chain planner, router, provider, wire: a provider made by the factory is registered with the
  router and used by a planning round. Shown is that a streamed round makes the same plan as an
  unstreamed one that gets the same text, whatever pieces it comes in, and what the planner reports when the backend
  refuses to stream.
\<close>

section \<open>Providers as the router sees them\<close>

text \<open>
  What lies beyond the sources: JSON encoders and decoders of the two protocols, the HTTP transport,
  the reader of the stream, and the text of an error.
\<close>

record wire =
  wLib :: stdlib
  wChat :: "chatRequest \<Rightarrow> string + string"
  wReadChat :: "string \<Rightarrow> string + chatResponse"
  wStreamChat :: "streamChatRequest \<Rightarrow> string + string"
  wReadChunk :: "string \<Rightarrow> string + streamChunk"
  wMessages :: "anthropicMessagesRequest \<Rightarrow> string + string"
  wReadMessages :: "string \<Rightarrow> string + anthropicMessagesResponse"
  wEvents :: event_decoders
  wTransport :: transport
  wConsumer :: consumer
  wErrorText :: "provider_error \<Rightarrow> string"

definition with_text :: "(provider_error \<Rightarrow> string) \<Rightarrow> provider_error + 'r \<Rightarrow> string + 'r" where
  "with_text f r = map_sum f id r"

text \<open>Both provider types implement \<open>ModelProvider\<close> and \<open>StreamingModelProvider\<close>.\<close>

definition provider_of :: "wire \<Rightarrow> any_provider \<Rightarrow> ModelProvider" where
  "provider_of W p = (case p of
     OpenAICompatible o' \<Rightarrow>
       \<lparr>pvID = OpenAIProviderID o', pvCapabilities = opCapabilities o',
        pvGenerate = \<lambda>req. with_text (wErrorText W)
          (OpenAIProviderGenerate (wLib W) (wChat W) (wReadChat W) (wTransport W) o' req),
        pvStream = Some (\<lambda>req. with_text (wErrorText W)
          (OpenAIProviderGenerateStream (wLib W) (wStreamChat W) (wReadChunk W) (wTransport W) (wConsumer W) o' req))\<rparr>
   | Claude c \<Rightarrow>
       \<lparr>pvID = ClaudeID c, pvCapabilities = ClaudeCapabilities c,
        pvGenerate = \<lambda>req. with_text (wErrorText W)
          (ClaudeGenerate (wMessages W) (wReadMessages W) (wTransport W) c req),
        pvStream = Some (\<lambda>req. with_text (wErrorText W)
          (ClaudeGenerateStream (wMessages W) (wEvents W) (wTransport W) (wConsumer W) c req))\<rparr>)"

lemma created_generates_text: "''text_generation'' \<in> set (pvCapabilities (provider_of W (Create name baseURL apiKey model)))"
  by (simp add: Create_def provider_of_def ClaudeCapabilities_def newOpenAICompatible_def NewOpenAIProvider_def
      NewModelScopeProvider_def NewSiliconFlowProvider_def)

definition sole_router :: "wire \<Rightarrow> any_provider \<Rightarrow> DefaultRouter" where
  "sole_router W p = fst (RouterRegister (provider_of W p) NewDefaultRouter)"

lemma Route_sole: "Route (sole_router W (Create name baseURL apiKey model)) [''text_generation''] no_constraints =
    Inr (provider_of W (Create name baseURL apiKey model))"
  using created_generates_text[of W name baseURL apiKey model]
  by (simp add: Route_def sole_router_def RouterRegister_def NewDefaultRouter_def gm_put_def gm_vals_def hasAllCapabilities_def
      no_constraints_def)

lemma Create_openai: "name \<noteq> ''claude'' \<Longrightarrow> \<exists>p. Create name baseURL apiKey model = OpenAICompatible p \<and> opApiKey p = apiKey"
  by (simp add: Create_def newOpenAICompatible_def NewOpenAIProvider_def NewModelScopeProvider_def NewSiliconFlowProvider_def)

definition sole_planner :: "wire \<Rightarrow> any_provider \<Rightarrow> ExecutionLimits option \<Rightarrow> LLMPlanner" where
  "sole_planner W p limits = NewLLMPlanner (sole_router W p) limits"

section \<open>One round\<close>

definition chunk_text :: "streamChunk \<Rightarrow> string" where
  "chunk_text c = (case stChoices c of [] \<Rightarrow> [] | choice # _ \<Rightarrow> soContent choice)"

lemma drain_seen: "drain ev (chunks_seen ds chunks) =
    (map (Pair ev) (filter (\<lambda>t. t \<noteq> []) (map chunk_text chunks)), Inr (concat (map chunk_text chunks)))"
  by (induction chunks arbitrary: ds) (auto simp: chunk_seen_def chunk_text_def)

lemma attempts_once: "attempts_of 0 = Suc 0"
  by (simp add: attempts_of_def)

text \<open>The backend answers every streaming request with these events, and every other with this text.\<close>

definition answers_stream :: "wire \<Rightarrow> OpenAICompatibleProvider \<Rightarrow> (streamChunk \<Rightarrow> string) \<Rightarrow> streamChunk list \<Rightarrow> bool" where
  "answers_stream W p enc chunks \<longleftrightarrow>
     (\<forall>c \<in> set chunks. wReadChunk W (enc c) = Inr c \<and> indices_fit (chunk_deltas c)) \<and>
     (\<forall>q. \<exists>s body. wStreamChat W q = Inr s \<and>
        send (wTransport W) 0 (chat_http_request False (opBaseURL p) (opApiKey p) [] s) = Response 200 body None \<and>
        event_stream (map enc chunks) body)"

definition claude_answers_stream :: "wire \<Rightarrow> ClaudeProvider \<Rightarrow> (claude_event \<Rightarrow> string) \<Rightarrow> claude_event list \<Rightarrow> bool" where
  "claude_answers_stream W p enc es \<longleftrightarrow> protocol {} es \<and> (\<forall>e \<in> set es. reads (wEvents W) (enc e) e) \<and>
     (\<forall>q. aqStream q \<longrightarrow> (\<exists>s body. wMessages W q = Inr s \<and>
        send (wTransport W) 0 (anthropic_http_request (clBaseURL p) (clApiKey p) s) = Response 200 body None \<and>
        claude_stream enc es body))"

fun claude_texts :: "claude_event list \<Rightarrow> string list" where
  "claude_texts [] = []"
| "claude_texts (TextDelta i t # es) = t # claude_texts es"
| "claude_texts (_ # es) = claude_texts es"

definition streams_text :: "wire \<Rightarrow> any_provider \<Rightarrow> string list \<Rightarrow> bool" where
  "streams_text W p ts \<longleftrightarrow> (\<forall>u. new_request (wTransport W) u = None) \<and> (\<forall>n. \<not> cs_cancelled (wConsumer W) n) \<and>
     (case p of
        OpenAICompatible o' \<Rightarrow> \<exists>enc chunks. ts = map chunk_text chunks \<and> answers_stream W o' enc chunks
      | Claude c \<Rightarrow> \<exists>enc es. ts = claude_texts es \<and> claude_answers_stream W c enc es)"

definition generates_text :: "wire \<Rightarrow> any_provider \<Rightarrow> string \<Rightarrow> bool" where
  "generates_text W p content \<longleftrightarrow> (\<forall>u. new_request (wTransport W) u = None) \<and>
     (case p of
        OpenAICompatible o' \<Rightarrow> \<forall>q. \<exists>s body r. wChat W q = Inr s \<and>
          send (wTransport W) 0 (chat_http_request True (opBaseURL o') (opApiKey o') [] s) = Response 200 body None \<and>
          wReadChat W body = Inr r \<and> caError r = None \<and> gsContent (chat_result r) = content
      | Claude c \<Rightarrow> \<forall>q. \<not> aqStream q \<longrightarrow> (\<exists>s body r. wMessages W q = Inr s \<and>
          send (wTransport W) 0 (anthropic_http_request (clBaseURL c) (clApiKey c) s) = Response 200 body None \<and>
          wReadMessages W body = Inr r \<and> arError r = None \<and> gsContent (messages_result r) = content))"

fun api_key :: "any_provider \<Rightarrow> string" where
  "api_key (OpenAICompatible p) = opApiKey p"
| "api_key (Claude c) = clApiKey c"

lemma created_key [simp]: "api_key (Create name baseURL apiKey model) = apiKey"
  by (simp add: Create_def newOpenAICompatible_def NewOpenAIProvider_def NewModelScopeProvider_def NewSiliconFlowProvider_def NewClaudeProvider_def)

lemma stream_answer:
  assumes "answers_stream W p enc chunks" and "opApiKey p \<noteq> []"
    and "\<forall>u. new_request (wTransport W) u = None" and "\<forall>n. \<not> cs_cancelled (wConsumer W) n"
  shows "OpenAIProviderGenerateStream (wLib W) (wStreamChat W) (wReadChunk W) (wTransport W) (wConsumer W) p req = Inr (chunks_seen [] chunks)"
proof -
  obtain s body where s: "wStreamChat W \<lparr>srRequest = build_chat_request (wLib W) (opModelName p) req, srStream = True, srIncludeUsage = True\<rparr> = Inr s"
    "send (wTransport W) 0 (chat_http_request False (opBaseURL p) (opApiKey p) [] s) = Response 200 body None" "event_stream (map enc chunks) body"
    using assms(1) unfolding answers_stream_def by blast
  have "openAICompatibleConnect (wLib W) (wStreamChat W) (wTransport W) (opBaseURL p) (opApiKey p) (opModelName p) [] req 0 = Inr (body, None)"
    by (simp add: openAICompatibleConnect_def s assms(3) attempts_once)
  moreover have "read_openai_stream (wReadChunk W) (wConsumer W) (body, None) = chunks_seen [] chunks"
    using assms(1,4) by (intro read_event_stream[OF s(3)]) (auto simp: answers_stream_def)
  ultimately show ?thesis using assms(2) by (simp add: OpenAIProviderGenerateStream_def openAICompatibleStream_def)
qed

lemma claude_stream_answer:
  assumes "claude_answers_stream W p enc es" and "clApiKey p \<noteq> []"
    and "\<forall>u. new_request (wTransport W) u = None" and "\<forall>n. \<not> cs_cancelled (wConsumer W) n"
  shows "ClaudeGenerateStream (wMessages W) (wEvents W) (wTransport W) (wConsumer W) p req = Inr (stream_chunks [] es)"
proof -
  have "aqStream (build_messages_request True (clModelName p) req)" by (simp add: build_messages_request_def)
  then obtain s body where s: "wMessages W (build_messages_request True (clModelName p) req) = Inr s"
    "send (wTransport W) 0 (anthropic_http_request (clBaseURL p) (clApiKey p) s) = Response 200 body None" "claude_stream enc es body"
    using assms(1) unfolding claude_answers_stream_def by blast
  have "anthropicMessagesConnect (wMessages W) (wTransport W) (clBaseURL p) (clApiKey p) (clModelName p) req 0 = Inr (body, None)"
    by (simp add: anthropicMessagesConnect_def s assms(3) attempts_once)
  moreover have "read_anthropic_stream (wEvents W) (wConsumer W) (body, None) = stream_chunks [] es"
    using assms(1,4) by (intro read_claude_stream[OF s(3)]) (auto simp: claude_answers_stream_def)
  ultimately show ?thesis using assms(2) by (simp add: ClaudeGenerateStream_def anthropicMessagesStream_def)
qed

lemma drain_claude: "drain ev (stream_chunks before es) =
    (map (Pair ev) (filter (\<lambda>t. t \<noteq> []) (claude_texts es)), Inr (concat (claude_texts es)))"
proof (induction es arbitrary: before)
  case (Cons e es)
  then show ?case by (cases e) (simp_all add: plain_chunk_def)
qed simp

lemma ask_streamed:
  assumes "streams_text W p ts" and "api_key p \<noteq> []"
  shows "ask_model cfg (provider_of W p) True req =
    ((evGenerating cfg, []) # map (Pair (evToken cfg)) (filter (\<lambda>t. t \<noteq> []) ts) @ [(evComplete cfg, [])], Inr (concat ts))"
proof (cases p)
  case (OpenAICompatible o')
  then obtain enc chunks where "ts = map chunk_text chunks" "answers_stream W o' enc chunks" using assms(1) by (auto simp: streams_text_def)
  with stream_answer[of W o' enc chunks req] assms OpenAICompatible show ?thesis
    by (simp add: ask_model_def provider_of_def with_text_def drain_seen streams_text_def)
next
  case (Claude c)
  then obtain enc es where "ts = claude_texts es" "claude_answers_stream W c enc es" using assms(1) by (auto simp: streams_text_def)
  with claude_stream_answer[of W c enc es req] assms Claude show ?thesis
    by (simp add: ask_model_def provider_of_def with_text_def drain_claude streams_text_def)
qed

lemma ask_unstreamed:
  assumes "generates_text W p content" and "api_key p \<noteq> []"
  shows "ask_model cfg (provider_of W p) False req = ([], Inr content)"
proof (cases p)
  case (OpenAICompatible o')
  obtain s body r where s: "wChat W (build_chat_request (wLib W) (opModelName o') req) = Inr s"
    "send (wTransport W) 0 (chat_http_request True (opBaseURL o') (opApiKey o') [] s) = Response 200 body None"
    "wReadChat W body = Inr r" "caError r = None" "gsContent (chat_result r) = content"
    using assms(1) unfolding generates_text_def OpenAICompatible any_provider.case by blast
  have "OpenAIProviderGenerate (wLib W) (wChat W) (wReadChat W) (wTransport W) o' req = Inr (chat_result r)"
    using assms s OpenAICompatible
    by (simp add: OpenAIProviderGenerate_def openAICompatibleGenerate_def attempts_once generates_text_def judge_def read_chat_def)
  then show ?thesis using s(5) OpenAICompatible by (simp add: ask_model_def provider_of_def with_text_def)
next
  case (Claude c)
  have "\<not> aqStream (build_messages_request False (clModelName c) req)" by (simp add: build_messages_request_def)
  then obtain s body r where s: "wMessages W (build_messages_request False (clModelName c) req) = Inr s"
    "send (wTransport W) 0 (anthropic_http_request (clBaseURL c) (clApiKey c) s) = Response 200 body None"
    "wReadMessages W body = Inr r" "arError r = None" "gsContent (messages_result r) = content"
    using assms(1) unfolding generates_text_def Claude any_provider.case by blast
  have "ClaudeGenerate (wMessages W) (wReadMessages W) (wTransport W) c req = Inr (messages_result r)"
    using assms s Claude
    by (simp add: ClaudeGenerate_def anthropicMessagesGenerate_def attempts_once generates_text_def judge_def read_messages_def)
  then show ?thesis using s(5) Claude by (simp add: ask_model_def provider_of_def with_text_def)
qed

lemma buildPrompt_progress [simp]: "buildPrompt tmpl (c\<lparr>pcProgressFn := b\<rparr>) = buildPrompt tmpl c"
  by (simp add: buildPrompt_def cong: option.case_cong)

lemma build_request_progress [simp]: "build_request (c\<lparr>pcProgressFn := b\<rparr>) prompt = build_request c prompt"
  by (simp add: build_request_def system_text_def cong: option.case_cong if_cong)

text \<open>C20. 
  A planning round over a provider from the factory, of either kind, makes the same plan and the
  same changes to the heap, or fails to parse or to validate it with the same error, whether it streams or not, when the backend
  answers both requests and the pieces of the streamed text, however it is cut, make up the text of the unstreamed answer.
  Only the progress events differ: none without streaming; with it the start, the non-empty pieces in order, and the end,
  unless the planner gives up before it asks. (What differs when the backend refuses is stated below.)
\<close>
theorem Plan_independent_of_streaming:
  assumes "apiKey \<noteq> []" and "streams_text W (Create name baseURL apiKey model) ts"
    and "generates_text W (Create name baseURL apiKey model) (concat ts)"
  shows "\<exists>h' tr r. Plan tmpl decode (sole_planner W (Create name baseURL apiKey model) limits) h (c\<lparr>pcProgressFn := True\<rparr>) = (h', tr, r) \<and>
    Plan tmpl decode (sole_planner W (Create name baseURL apiKey model) limits) h (c\<lparr>pcProgressFn := False\<rparr>) = (h', [], r) \<and>
    tr = (if pcSkills c = [] \<or> buildPrompt tmpl c = None then []
          else (''planning_generating'', []) # map (Pair ''planning_token'') (filter (\<lambda>t. t \<noteq> []) ts) @ [(''planning_complete'', [])])"
proof -
  let ?p = "Create name baseURL apiKey model"
  have s: "ask_model plan_config (provider_of W ?p) True req =
      ((''planning_generating'', []) # map (Pair ''planning_token'') (filter (\<lambda>t. t \<noteq> []) ts) @ [(''planning_complete'', [])], Inr (concat ts))" for req
    using ask_streamed[OF assms(2), of plan_config req] assms(1) by (simp add: plan_config_def)
  have g: "ask_model plan_config (provider_of W ?p) False req = ([], Inr (concat ts))" for req
    using ask_unstreamed[OF assms(3)] assms(1) by simp
  have route: "Route (lpRouter (sole_planner W ?p limits)) [''text_generation''] no_constraints = Inr (provider_of W ?p)"
    using Route_sole[of W name baseURL apiKey model] by (simp add: sole_planner_def NewLLMPlanner_def)
  show ?thesis
    by (auto simp: Plan_def llmPlanRound_def route s g split: option.splits prod.splits sum.splits)
qed

definition hi_wire :: wire where
  "hi_wire = \<lparr>wLib = plain_lib, wChat = \<lambda>_. Inr ''g'',
     wReadChat = \<lambda>_. Inr \<lparr>caChoices = [\<lparr>chContent = ''hi'', chReasoningContent = [], chToolCalls = [], chFinishReason = []\<rparr>],
       caUsage = usage0, caError = None\<rparr>,
     wStreamChat = \<lambda>_. Inr ''s'', wReadChunk = \<lambda>_. Inr sample_chunk, wMessages = \<lambda>_. Inl [], wReadMessages = \<lambda>_. Inl [],
     wEvents = no_decoders,
     wTransport = \<lparr>new_request = \<lambda>_. None,
       send = \<lambda>_ rq. Response 200 (if hrPayload rq = ''s'' then event_bytes [''x''] else ''b'') None, done_within = \<lambda>_ _. False\<rparr>,
     wConsumer = patient_consumer, wErrorText = \<lambda>_. ''error''\<rparr>"

theorem Plan_independent_of_streaming_witness:
  "\<exists>h' tr r. Plan (\<lambda>_. Some ''go'') demo_decode (sole_planner hi_wire (Create ''openai'' [] ''k'' ''m'') None) [] (demo_ctx\<lparr>pcProgressFn := True\<rparr>) = (h', tr, r) \<and>
     Plan (\<lambda>_. Some ''go'') demo_decode (sole_planner hi_wire (Create ''openai'' [] ''k'' ''m'') None) [] (demo_ctx\<lparr>pcProgressFn := False\<rparr>) = (h', [], r) \<and>
     tr = [(''planning_generating'', []), (''planning_token'', ''hi''), (''planning_complete'', [])]"
proof -
  let ?p = "Create ''openai'' [] ''k'' ''m''"
  have p: "?p = OpenAICompatible (NewOpenAIProvider [] ''k'' ''m'')" by (simp add: Create_def)
  have "event_stream [''x''] (event_bytes [''x''])" by (rule event_bytes_stream) (simp add: payload_ok_def)
  then have "answers_stream hi_wire (NewOpenAIProvider [] ''k'' ''m'') (\<lambda>_. ''x'') [sample_chunk]"
    by (simp add: answers_stream_def hi_wire_def chat_http_request_def chunk_deltas_def sample_chunk_def indices_fit_def call_limit_def)
  moreover have text_hi: "map chunk_text [sample_chunk] = [''hi'']" by (simp add: chunk_text_def sample_chunk_def)
  moreover have "(\<forall>u. new_request (wTransport hi_wire) u = None) \<and> (\<forall>n. \<not> cs_cancelled (wConsumer hi_wire) n)"
    by (simp add: hi_wire_def patient_consumer_def)
  ultimately have "streams_text hi_wire ?p [''hi'']" unfolding streams_text_def p any_provider.case by metis
  moreover have "generates_text hi_wire ?p (concat [''hi''])"
    by (simp add: p generates_text_def hi_wire_def chat_http_request_def chat_result_def)
  moreover have "pcSkills demo_ctx \<noteq> []" "buildPrompt (\<lambda>_. Some ''go'') demo_ctx = Some ''go''"
    by (simp_all add: planner_eval)
  ultimately show ?thesis
    using Plan_independent_of_streaming[of "''k''" hi_wire "''openai''" "[]" "''m''" "[''hi'']" "\<lambda>_. Some ''go''" demo_decode None "[]" demo_ctx]
    by (simp only: concat.simps) simp
qed

text \<open>
  The texts agree only if the answer has visible text: an answer that consists of reasoning alone is
  used as the response of an unstreamed call, and is lost when it is streamed.
\<close>

lemma reasoning_lost_in_streams:
  "gsContent (chat_result \<lparr>caChoices = [\<lparr>chContent = [], chReasoningContent = t, chToolCalls = [], chFinishReason = []\<rparr>],
     caUsage = u, caError = None\<rparr>) = t"
  by (simp add: chat_result_def)

section \<open>Retries that never happen\<close>

lemma generate_loop_first:
  assumes "new_request T = new_request T'" and "send T 0 = send T' 0"
  shows "generate_loop T read rq (Suc 0) 0 (Suc 0) NoError = generate_loop T' read rq (Suc 0) 0 (Suc 0) NoError"
  using assms by (simp split: option.split sum.split)

lemma connect_loop_first:
  assumes "new_request T = new_request T'" and "send T 0 = send T' 0"
  shows "connect_loop T rq 0 (Suc 0) resp e = connect_loop T' rq 0 (Suc 0) resp e"
  using assms by (cases "send T' 0 rq") (auto split: option.split)

text \<open>
  A provider behaves the same over any two transports that agree on the first exchange: neither
  type makes a second attempt, whatever the first one meets, because every method asks for no retries.
\<close>
theorem providers_never_retry:
  assumes "new_request T = new_request T'" and "send T 0 = send T' 0"
  shows "provider_of (W\<lparr>wTransport := T\<rparr>) p = provider_of (W\<lparr>wTransport := T'\<rparr>) p"
proof -
  note same = generate_loop_first[OF assms] connect_loop_first[OF assms]
  have "OpenAIProviderGenerate L m d T o' req = OpenAIProviderGenerate L m d T' o' req" for L m d o' req
    by (simp add: OpenAIProviderGenerate_def openAICompatibleGenerate_def attempts_once same del: generate_loop.simps split: sum.split)
  moreover have "OpenAIProviderGenerateStream L m d T cs o' req = OpenAIProviderGenerateStream L m d T' cs o' req" for L m d cs o' req
    by (simp add: OpenAIProviderGenerateStream_def openAICompatibleStream_def openAICompatibleConnect_def attempts_once same
        del: connect_loop.simps split: sum.split)
  moreover have "ClaudeGenerate m d T c req = ClaudeGenerate m d T' c req" for m d c req
    by (simp add: ClaudeGenerate_def anthropicMessagesGenerate_def attempts_once same del: generate_loop.simps split: sum.split)
  moreover have "ClaudeGenerateStream m d T cs c req = ClaudeGenerateStream m d T' cs c req" for m d cs c req
    by (simp add: ClaudeGenerateStream_def anthropicMessagesStream_def anthropicMessagesConnect_def attempts_once same
        del: connect_loop.simps split: sum.split)
  ultimately show ?thesis by (simp add: provider_of_def split: any_provider.split)
qed

theorem providers_never_retry_witness:
  "provider_of (hi_wire\<lparr>wTransport := busy_transport\<rparr>) (Create ''openai'' [] ''k'' ''m'') =
   provider_of (hi_wire\<lparr>wTransport := busy_transport\<lparr>send := \<lambda>k r. Response (if k = 0 then 503 else 200) [] None\<rparr>\<rparr>) (Create ''openai'' [] ''k'' ''m'')"
  by (rule providers_never_retry) (simp_all add: busy_transport_def)

section \<open>A backend that refuses\<close>

lemma connect_refused_once:
  assumes "\<forall>u. new_request T u = None" and "\<forall>r. send T 0 r = Response status body err" and "status = 429 \<or> status \<ge> 500"
  shows "connect_loop T request 0 (Suc 0) None NoError = Inr (Some closed_body, False, LastStatus status)"
  using assms by auto

text \<open>
  When the backend answers a streamed planning request with 429 or a status from 500 on, a
  planner over Claude reports that the provider is unavailable, with the status; over an OpenAI-compatible
  provider it reports a failure to read a closed body, and the status is nowhere in the result.
\<close>
theorem Plan_refusal_reported:
  assumes "\<forall>u. new_request (wTransport W) u = None" and "\<forall>r. send (wTransport W) 0 r = Response status body err"
    and "status = 429 \<or> status \<ge> 500" and "cs_room (wConsumer W) 0"
    and "\<forall>q. \<exists>s. wStreamChat W q = Inr s" and "\<forall>q. \<exists>s. wMessages W q = Inr s"
    and "apiKey \<noteq> []" and "pcSkills c \<noteq> []" and "buildPrompt tmpl c \<noteq> None" and "pcProgressFn c"
  shows "Plan tmpl decode (sole_planner W (Create name baseURL apiKey model) limits) h c =
    (h, [(''planning_generating'', [])], Inl (LLMFailed
      (if name = ''claude'' then wErrorText W (ProviderUnavailable (LastStatus status))
       else ''stream read error: http: read on closed response body'')))"
proof -
  let ?M = "provider_of W (Create name baseURL apiKey model)"
  let ?err = "if name = ''claude'' then wErrorText W (ProviderUnavailable (LastStatus status))
       else ''stream read error: http: read on closed response body''"
  note refused = connect_refused_once[OF assms(1-3)]
  have ask: "ask_model plan_config ?M True req = ([(''planning_generating'', [])], Inl ?err)" for req
  proof (cases "name = ''claude''")
    case True
    obtain s where "wMessages W (build_messages_request True model req) = Inr s" using assms(6) by blast
    with True assms(7) refused show ?thesis
      by (simp add: ask_model_def Create_def provider_of_def with_text_def ClaudeGenerateStream_def NewClaudeProvider_def
          anthropicMessagesStream_def anthropicMessagesConnect_def attempts_once plan_config_def del: connect_loop.simps)
  next
    case False
    then obtain p where p: "Create name baseURL apiKey model = OpenAICompatible p" "opApiKey p \<noteq> []"
      using assms(7) Create_openai by metis
    obtain s where "wStreamChat W \<lparr>srRequest = build_chat_request (wLib W) (opModelName p) req, srStream = True, srIncludeUsage = True\<rparr> = Inr s"
      using assms(5) by blast
    with False p refused read_closed[OF assms(4)] show ?thesis
      by (simp add: ask_model_def provider_of_def with_text_def OpenAIProviderGenerateStream_def openAICompatibleStream_def
          openAICompatibleConnect_def attempts_once plan_config_def error_chunk_def del: connect_loop.simps)
  qed
  have route: "Route (lpRouter (sole_planner W (Create name baseURL apiKey model) limits)) [''text_generation''] no_constraints = Inr ?M"
    using Route_sole by (simp add: sole_planner_def NewLLMPlanner_def)
  have wrap: "wrapErr plan_config = id" by (simp add: plan_config_def)
  define e where "e = ?err"
  obtain prompt where "buildPrompt tmpl c = Some prompt" using assms(9) by auto
  then show ?thesis
    unfolding e_def[symmetric] using assms(8,10) by (simp add: Plan_def llmPlanRound_def route ask[folded e_def] wrap)
qed

theorem Plan_refusal_reported_witness:
  "Plan (\<lambda>_. Some ''go'') demo_decode
     (sole_planner (hi_wire\<lparr>wTransport := busy_transport\<rparr>) (Create ''openai'' [] ''k'' ''m'') None) [] (demo_ctx\<lparr>pcProgressFn := True\<rparr>) =
   ([], [(''planning_generating'', [])], Inl (LLMFailed ''stream read error: http: read on closed response body''))"
proof -
  have "pcSkills demo_ctx \<noteq> []" "buildPrompt (\<lambda>_. Some ''go'') demo_ctx = Some ''go''" by (simp_all add: planner_eval)
  then show ?thesis
    using Plan_refusal_reported[of "hi_wire\<lparr>wTransport := busy_transport, wMessages := \<lambda>_. Inr []\<rparr>" 503 "[]" None "''k''" "demo_ctx\<lparr>pcProgressFn := True\<rparr>" "\<lambda>_. Some ''go''" demo_decode
      "''openai''" "[]" "''m''" None "[]"]
    by (simp add: hi_wire_def busy_transport_def patient_consumer_def sole_planner_def sole_router_def Create_def provider_of_def)
qed

end
