(* ===== verification/Go_Regexp.thy ===== *)
theory Go_Regexp
  imports Go_Strings
begin

text \<open>
  Package \<open>regexp\<close> as far as the safety filter uses it: greedy, leftmost-first matching of byte
  strings, with word boundaries at the two ends of a pattern. A matcher lists the lengths of all
  matches at a position in the order of preference; the first of them is the match of Go.
\<close>

section \<open>Expressions and their matches\<close>

datatype rx = Eps | Cls "char \<Rightarrow> bool" | Seq rx rx | Alt rx rx | Star rx

inductive matches :: "rx \<Rightarrow> string \<Rightarrow> bool" where
  Eps: "matches Eps []"
| Cls: "P c \<Longrightarrow> matches (Cls P) [c]"
| Seq: "matches a u \<Longrightarrow> matches b v \<Longrightarrow> matches (Seq a b) (u @ v)"
| AltL: "matches a u \<Longrightarrow> matches (Alt a b) u"
| AltR: "matches b u \<Longrightarrow> matches (Alt a b) u"
| Stop: "matches (Star a) []"
| More: "matches a u \<Longrightarrow> u \<noteq> [] \<Longrightarrow> matches (Star a) v \<Longrightarrow> matches (Star a) (u @ v)"

inductive_cases matches_EpsE [elim!]: "matches Eps u"
inductive_cases matches_ClsE [elim!]: "matches (Cls P) u"
inductive_cases matches_SeqE [elim!]: "matches (Seq a b) u"
inductive_cases matches_AltE [elim!]: "matches (Alt a b) u"
inductive_cases matches_StarE: "matches (Star a) u"

function star_ends :: "(string \<Rightarrow> nat list) \<Rightarrow> string \<Rightarrow> nat list" where
  "star_ends f s =
     concat (map (\<lambda>n. if 0 < n \<and> n \<le> length s then map (\<lambda>k. n + k) (star_ends f (drop n s)) else []) (f s)) @ [0]"
  by pat_completeness auto
termination by (relation "measure (\<lambda>(f, s). length s)") auto

declare star_ends.simps [simp del]

primrec ends :: "rx \<Rightarrow> string \<Rightarrow> nat list" where
  "ends Eps s = [0]"
| "ends (Cls P) s = (case s of [] \<Rightarrow> [] | c # t \<Rightarrow> if P c then [1] else [])"
| "ends (Seq a b) s = concat (map (\<lambda>n. map (\<lambda>k. n + k) (ends b (drop n s))) (ends a s))"
| "ends (Alt a b) s = ends a s @ ends b s"
| "ends (Star a) s = star_ends (ends a) s"

lemma star_ends_iff:
  assumes f: "\<And>s n. n \<in> set (f s) \<longleftrightarrow> n \<le> length s \<and> matches a (take n s)"
  shows "n \<in> set (star_ends f s) \<longleftrightarrow> n \<le> length s \<and> matches (Star a) (take n s)"
proof (induction s arbitrary: n rule: length_induct)
  case (1 s)
  have IH: "k \<in> set (star_ends f (drop m s)) \<longleftrightarrow> k \<le> length s - m \<and> matches (Star a) (take k (drop m s))"
    if "0 < m" "m \<le> length s" for k m
    using 1 that by auto
  show ?case
  proof
    assume "n \<in> set (star_ends f s)"
    then consider "n = 0"
      | m k where "m \<in> set (f s)" "0 < m" "m \<le> length s" "k \<in> set (star_ends f (drop m s))" "n = m + k"
      by (subst (asm) star_ends.simps) (auto split: if_splits)
    then show "n \<le> length s \<and> matches (Star a) (take n s)"
    proof cases
      case 2
      then have "matches a (take m s)" "matches (Star a) (take k (drop m s))" using f IH by auto
      then have "matches (Star a) (take m s @ take k (drop m s))" using 2 by (intro matches.More) auto
      then show ?thesis using 2 IH by (auto simp: take_add)
    qed (auto intro: matches.Stop)
  next
    assume n: "n \<le> length s \<and> matches (Star a) (take n s)"
    show "n \<in> set (star_ends f s)"
    proof (cases "n = 0")
      case False
      from n obtain u v where uv: "take n s = u @ v" "matches a u" "u \<noteq> []" "matches (Star a) v"
        using False by (auto elim: matches_StarE)
      have len: "length u + length v = n" using uv(1) n by (metis length_append length_take min_absorb2)
      have "u = take (length u) s" using uv(1) len by (metis append_eq_conv_conj le_add1 min.absorb1 take_take)
      then have "length u \<in> set (f s)" using f uv(2) len n by (metis le_add1 le_trans)
      moreover have "v = take (length v) (drop (length u) s)"
        using uv(1) len by (metis append_eq_conv_conj add_diff_cancel_left' drop_take)
      then have "length v \<in> set (star_ends f (drop (length u) s))"
        using IH uv(3,4) len n by (metis add_le_imp_le_diff add.commute le_add1 le_trans length_greater_0_conv)
      moreover have "0 < length u" "length u \<le> length s" using uv(3) len n by auto
      ultimately show ?thesis using len by (subst star_ends.simps) force
    qed (subst star_ends.simps, simp)
  qed
qed

lemma take_eq_append: "n \<le> length s \<Longrightarrow> take n s = u @ v \<Longrightarrow>
    u = take (length u) s \<and> v = take (length v) (drop (length u) s) \<and> length u + length v = n"
  by (metis add_diff_cancel_left' append_eq_conv_conj drop_take le_add1 length_append length_take min.absorb1 min_absorb2 take_take)

lemma ends_iff: "n \<in> set (ends r s) \<longleftrightarrow> n \<le> length s \<and> matches r (take n s)"
proof (induction r arbitrary: n s)
  case Eps
  show ?case by (auto intro: matches.Eps)
next
  case (Cls P)
  show ?case by (cases s) (auto intro: matches.Cls simp: take_Cons split: nat.splits if_splits)
next
  case (Seq a b)
  show ?case
  proof
    assume "n \<in> set (ends (Seq a b) s)"
    then obtain m k where "m \<in> set (ends a s)" "k \<in> set (ends b (drop m s))" "n = m + k" by auto
    then show "n \<le> length s \<and> matches (Seq a b) (take n s)"
      using Seq by (auto simp: take_add intro: matches.Seq)
  next
    assume n: "n \<le> length s \<and> matches (Seq a b) (take n s)"
    then obtain u v where "take n s = u @ v" "matches a u" "matches b v" by auto
    with n take_eq_append[of n s u v] have "length u \<in> set (ends a s)" "length v \<in> set (ends b (drop (length u) s))"
      "length u + length v = n"
      using Seq by auto
    then show "n \<in> set (ends (Seq a b) s)" by force
  qed
next
  case (Alt a b)
  then show ?case by (auto intro: matches.AltL matches.AltR)
next
  case (Star a)
  then show ?case using star_ends_iff[of "ends a" a] by simp
qed

section \<open>Patterns, search and replacement\<close>

text \<open>\<open>\b\<close> is a boundary between ASCII word bytes and others; the ends of the text count as others.\<close>

definition word_byte :: "char \<Rightarrow> bool" where
  "word_byte c \<longleftrightarrow> (let n = (of_char c :: nat) in
     (48 \<le> n \<and> n \<le> 57) \<or> (65 \<le> n \<and> n \<le> 90) \<or> n = 95 \<or> (97 \<le> n \<and> n \<le> 122))"

definition is_word :: "char option \<Rightarrow> bool" where
  "is_word x = (case x of None \<Rightarrow> False | Some c \<Rightarrow> word_byte c)"

definition boundary :: "char option \<Rightarrow> char option \<Rightarrow> bool" where
  "boundary x y \<longleftrightarrow> is_word x \<noteq> is_word y"

definition first_of :: "string \<Rightarrow> char option" where
  "first_of s = (case s of [] \<Rightarrow> None | c # t \<Rightarrow> Some c)"

definition last_of :: "char option \<Rightarrow> string \<Rightarrow> char option" where
  "last_of prev u = (if u = [] then prev else Some (last u))"

record pattern =
  body :: rx
  bounded :: bool

definition match_here :: "pattern \<Rightarrow> char option \<Rightarrow> string \<Rightarrow> string \<Rightarrow> bool" where
  "match_here p prev u rest \<longleftrightarrow> matches (body p) u \<and>
     (bounded p \<longrightarrow> boundary prev (first_of (u @ rest)) \<and> boundary (last_of prev u) (first_of rest))"

definition find_at :: "pattern \<Rightarrow> char option \<Rightarrow> string \<Rightarrow> nat option" where
  "find_at p prev s =
     (if bounded p \<and> \<not> boundary prev (first_of s) then None
      else find (\<lambda>n. bounded p \<longrightarrow> boundary (last_of prev (take n s)) (first_of (drop n s))) (ends (body p) s))"

fun match_from :: "pattern \<Rightarrow> char option \<Rightarrow> string \<Rightarrow> bool" where
  "match_from p prev [] = (find_at p prev [] \<noteq> None)"
| "match_from p prev (c # t) = (find_at p prev (c # t) \<noteq> None \<or> match_from p (Some c) t)"

definition MatchString :: "pattern \<Rightarrow> string \<Rightarrow> bool" where
  "MatchString p s = match_from p None s"

text \<open>
  The text cut into bytes that are kept and matches to be replaced, from left to right. An empty
  match would leave the byte in place; the patterns of the filter have none.
\<close>

function pieces :: "pattern \<Rightarrow> char option \<Rightarrow> string \<Rightarrow> (char + string) list" where
  "pieces p prev [] = []"
| "pieces p prev (c # t) = (case find_at p prev (c # t) of
     Some (Suc n) \<Rightarrow> Inr (c # take n t) # pieces p (Some (last (c # take n t))) (drop n t)
   | _ \<Rightarrow> Inl c # pieces p (Some c) t)"
  by pat_completeness auto
termination by (relation "measure (\<lambda>(p, prev, s). length s)") auto

definition refill :: "(string \<Rightarrow> string) \<Rightarrow> (char + string) list \<Rightarrow> string" where
  "refill f ps = concat (map (case_sum (\<lambda>c. [c]) f) ps)"

definition ReplaceAllStringFunc :: "pattern \<Rightarrow> string \<Rightarrow> (string \<Rightarrow> string) \<Rightarrow> string" where
  "ReplaceAllStringFunc p s f = refill f (pieces p None s)"

definition replaced :: "pattern \<Rightarrow> string \<Rightarrow> string list" where
  "replaced p s = List.map_filter (case_sum (\<lambda>c. None) Some) (pieces p None s)"

section \<open>What search finds\<close>

lemma last_of_simps [simp]: "last_of prev [] = prev" "last_of prev (c # u) = last_of (Some c) u"
  by (simp_all add: last_of_def)

lemma last_of_append: "last_of prev (u @ v) = last_of (last_of prev u) v"
  by (simp add: last_of_def)

lemma first_of_simps [simp]: "first_of [] = None" "first_of (c # s) = Some c"
  by (simp_all add: first_of_def)

lemma find_at_None_iff: "find_at p prev s = None \<longleftrightarrow> (\<forall>u rest. s = u @ rest \<longrightarrow> \<not> match_here p prev u rest)"
proof -
  have "(\<exists>u rest. s = u @ rest \<and> match_here p prev u rest) \<longleftrightarrow>
      (\<exists>n \<le> length s. match_here p prev (take n s) (drop n s))"
    by (metis append_eq_conv_conj append_take_drop_id le_add1 length_append)
  then show ?thesis by (auto simp: find_at_def match_here_def find_None_iff ends_iff)
qed

lemma find_at_SomeD: "find_at p prev s = Some n \<Longrightarrow> n \<le> length s \<and> match_here p prev (take n s) (drop n s)"
  by (auto simp: find_at_def match_here_def find_Some_iff ends_iff split: if_splits dest: nth_mem)

definition occurs :: "pattern \<Rightarrow> char option \<Rightarrow> string \<Rightarrow> bool" where
  "occurs p prev s \<longleftrightarrow> (\<exists>a u b. s = a @ u @ b \<and> match_here p (last_of prev a) u b)"

lemma occurs_Cons: "occurs p prev (c # s) \<longleftrightarrow> find_at p prev (c # s) \<noteq> None \<or> occurs p (Some c) s"
proof
  assume "occurs p prev (c # s)"
  then obtain a u b where m: "c # s = a @ u @ b" "match_here p (last_of prev a) u b" by (auto simp: occurs_def)
  show "find_at p prev (c # s) \<noteq> None \<or> occurs p (Some c) s"
  proof (cases a)
    case Nil
    with m find_at_None_iff[of p prev "c # s"] show ?thesis by auto
  next
    case (Cons d a')
    with m have "s = a' @ u @ b" "match_here p (last_of (Some c) a') u b" by auto
    then show ?thesis unfolding occurs_def by blast
  qed
next
  assume "find_at p prev (c # s) \<noteq> None \<or> occurs p (Some c) s"
  then show "occurs p prev (c # s)"
  proof
    assume "find_at p prev (c # s) \<noteq> None"
    then obtain u b where "c # s = [] @ u @ b" "match_here p (last_of prev []) u b" by (auto simp: find_at_None_iff)
    then show ?thesis unfolding occurs_def by blast
  next
    assume "occurs p (Some c) s"
    then obtain a u b where "c # s = (c # a) @ u @ b" "match_here p (last_of prev (c # a)) u b" by (auto simp: occurs_def)
    then show ?thesis unfolding occurs_def by blast
  qed
qed

lemma match_from_occurs: "match_from p prev s \<longleftrightarrow> occurs p prev s"
proof (induction s arbitrary: prev)
  case Nil
  show ?case by (auto simp: find_at_None_iff occurs_def)
qed (simp add: occurs_Cons)

lemma MatchString_occurs: "MatchString p s \<longleftrightarrow> occurs p None s"
  by (simp add: MatchString_def match_from_occurs)

lemma pieces_cases [consumes 1, case_names keep hit]:
  assumes "s \<noteq> []"
  obtains "pieces p prev s = Inl (hd s) # pieces p (Some (hd s)) (tl s)"
      "\<And>u rest. s = u @ rest \<Longrightarrow> u \<noteq> [] \<Longrightarrow> (\<And>v. matches (body p) v \<Longrightarrow> v \<noteq> []) \<Longrightarrow> \<not> match_here p prev u rest"
    | m rest where "s = m @ rest" "m \<noteq> []" "match_here p prev m rest"
      "pieces p prev s = Inr m # pieces p (Some (last m)) rest"
proof -
  obtain c t where s: "s = c # t" using assms by (cases s) auto
  show ?thesis
  proof (cases "find_at p prev s")
    case None
    then show ?thesis using s that(1) find_at_None_iff[of p prev s] by simp
  next
    case (Some k)
    show ?thesis
    proof (cases k)
      case 0
      then have "matches (body p) []" using find_at_SomeD[OF Some] by (simp add: match_here_def)
      then show ?thesis using s Some 0 by (intro that(1)) auto
    next
      case (Suc n)
      then show ?thesis using s Some find_at_SomeD[OF Some] by (intro that(2)[of "c # take n t" "drop n t"]) auto
    qed
  qed
qed

lemma refill_id: "refill (\<lambda>m. m) (pieces p prev s) = s"
proof (induction s arbitrary: prev rule: length_induct)
  case (1 s)
  show ?case
  proof (cases "s = []")
    case False
    then show ?thesis
    proof (cases rule: pieces_cases[of s p prev])
      case keep
      with 1 False show ?thesis by (cases s) (simp_all add: refill_def)
    next
      case (hit m rest)
      with 1 show ?thesis by (auto simp: refill_def)
    qed
  qed (simp add: refill_def)
qed

section \<open>Replacement by a bracketed token\<close>

text \<open>
  Replacing the matches of one bounded pattern by a token in square brackets leaves no match of a
  bounded pattern that had none before, and none of the replaced pattern itself, when its matches
  contain no bracket and do not occur inside the token.
\<close>

definition token :: "string \<Rightarrow> string" where
  "token w = ''['' @ w @ '']''"

definition foreign :: "string \<Rightarrow> pattern \<Rightarrow> bool" where
  "foreign w q \<longleftrightarrow> bounded q \<and> (\<forall>u. matches (body q) u \<longrightarrow>
     u \<noteq> [] \<and> CHR ''['' \<notin> set u \<and> CHR '']'' \<notin> set u \<and> \<not> sublist u w)"

lemma boundary_bracket [simp]:
  "boundary x (Some (CHR ''['')) \<longleftrightarrow> is_word x" "boundary (Some (CHR '']'')) x \<longleftrightarrow> is_word x"
  by (simp_all add: boundary_def is_word_def word_byte_def)

lemma split_around:
  assumes "a @ u @ b = x @ c # y" "c \<notin> set u" "u \<noteq> []"
  shows "(\<exists>b'. x = a @ u @ b') \<or> (\<exists>a'. a = x @ c # a' \<and> y = a' @ u @ b)"
proof -
  from assms(1) consider us where "a = x @ us" "us @ u @ b = c # y" | us where "a @ us = x" "u @ b = us @ c # y"
    by (auto simp: append_eq_append_conv2[of a "u @ b"])
  then show ?thesis
  proof cases
    case 1
    then have "us \<noteq> []" using assms(2,3) by (cases u) auto
    with 1 show ?thesis by (cases us) auto
  next
    case (2 us)
    then consider zs where "u = us @ zs" "zs @ b = c # y" | zs where "u @ zs = us"
      by (auto simp: append_eq_append_conv2)
    then show ?thesis
    proof cases
      case 1
      then have "zs = []" using assms(2) by (cases zs) auto
      with 1 2 show ?thesis by auto
    qed (use 2 in auto)
  qed
qed

lemma gap_prefix:
  assumes p: "bounded p" "\<And>v. matches (body p) v \<Longrightarrow> v \<noteq> []"
  shows "refill (\<lambda>_. token w) (pieces p prev s) = u @ b \<Longrightarrow> CHR ''['' \<notin> set u \<Longrightarrow>
    \<exists>b'. s = u @ b' \<and> (first_of b = first_of b' \<or> first_of b = Some (CHR ''['') \<and> boundary (last_of prev u) (first_of b'))"
proof (induction u arbitrary: prev s)
  case Nil
  show ?case
  proof (cases "s = []")
    case True
    then show ?thesis using Nil by (simp add: refill_def)
  next
    case False
    then show ?thesis
    proof (cases rule: pieces_cases[of s p prev])
      case keep
      then show ?thesis using Nil False by (auto simp: refill_def first_of_def split: list.split)
    next
      case (hit m rest)
      then show ?thesis using Nil p by (auto simp: refill_def token_def match_here_def)
    qed
  qed
next
  case (Cons c u)
  have "s \<noteq> []" using Cons.prems by (auto simp: refill_def)
  then show ?case
  proof (cases rule: pieces_cases[of s p prev])
    case keep
    then have "hd s = c" "refill (\<lambda>_. token w) (pieces p (Some c) (tl s)) = u @ b" using Cons.prems by (auto simp: refill_def)
    with Cons.IH[of "Some c" "tl s"] Cons.prems \<open>s \<noteq> []\<close> show ?thesis by (cases s) auto
  next
    case (hit m rest)
    then show ?thesis using Cons.prems by (auto simp: refill_def token_def)
  qed
qed

lemma occurs_after_token:
  assumes q: "foreign w q" and o: "occurs q prev (token w @ s)"
  shows "occurs q (Some (CHR '']'')) s"
proof -
  obtain a u b where m: "token w @ s = a @ u @ b" "match_here q (last_of prev a) u b" using o by (auto simp: occurs_def)
  have u: "u \<noteq> []" "CHR ''['' \<notin> set u" "CHR '']'' \<notin> set u" "\<not> sublist u w"
    using q m(2) by (auto simp: foreign_def match_here_def)
  have "a @ u @ b = (CHR ''['' # w) @ CHR '']'' # s" using m(1) by (simp add: token_def)
  from split_around[OF this u(3,1)] show ?thesis
  proof (elim disjE exE conjE)
    fix b' assume x: "CHR ''['' # w = a @ u @ b'"
    then have "a \<noteq> []" using u(1,2) by (cases u) auto
    then have "w = tl a @ u @ b'" using x by (cases a) auto
    then show ?thesis using u(4) by (auto simp: sublist_def)
  next
    fix a' assume "a = (CHR ''['' # w) @ CHR '']'' # a'" "s = a' @ u @ b"
    with m(2) show ?thesis unfolding occurs_def by (auto simp: last_of_append)
  qed
qed

lemma token_leaves_none:
  assumes p: "bounded p" "\<And>v. matches (body p) v \<Longrightarrow> v \<noteq> []" and q: "foreign w q"
  shows "q = p \<or> \<not> occurs q prev s \<Longrightarrow> prev' = prev \<or> prev' = Some (CHR '']'') \<and> boundary prev (first_of s) \<Longrightarrow>
    \<not> occurs q prev' (refill (\<lambda>_. token w) (pieces p prev s))"
proof (induction s arbitrary: prev prev' rule: length_induct)
  case (1 s)
  let ?out = "\<lambda>prev s. refill (\<lambda>_. token w) (pieces p prev s)"
  show ?case
  proof (cases "s = []")
    case True
    then show ?thesis using q by (auto simp: refill_def occurs_def foreign_def match_here_def)
  next
    case False
    then show ?thesis
    proof (cases rule: pieces_cases[of s p prev])
      case keep
      obtain c t where s: "s = c # t" using False by (cases s) auto
      have out: "?out prev s = c # ?out (Some c) t" using keep s by (simp add: refill_def)
      have "\<not> occurs q (Some c) t" if "q \<noteq> p" using 1(2) that s by (simp add: occurs_Cons)
      then have rest: "\<not> occurs q (Some c) (?out (Some c) t)" using 1(1) s by auto
      have "find_at q prev' (?out prev s) = None"
        unfolding find_at_None_iff
      proof (intro allI impI notI)
        fix u b assume ub: "?out prev s = u @ b" and m: "match_here q prev' u b"
        then have u: "matches (body q) u" "u \<noteq> []" "CHR ''['' \<notin> set u" using q by (auto simp: foreign_def match_here_def)
        from gap_prefix[OF p ub u(3)] obtain b' where b': "s = u @ b'"
          "first_of b = first_of b' \<or> first_of b = Some (CHR ''['') \<and> boundary (last_of prev u) (first_of b')" by blast
        have same: "last_of prev u = last_of prev' u" using u(2) by (simp add: last_of_def)
        have hd: "first_of (u @ b) = first_of (u @ b')" using u(2) by (cases u) auto
        have q': "bounded q" using q by (simp add: foreign_def)
        have "boundary prev (first_of (u @ b'))"
          using 1(3) m hd q' b'(1) by (auto simp: match_here_def)
        moreover have "boundary (last_of prev u) (first_of b')"
          using b'(2) m same q' by (auto simp: match_here_def)
        ultimately have "match_here q prev u b'" using u(1) by (simp add: match_here_def)
        moreover have "occurs q prev s" if "match_here q prev u b'"
          using that b'(1) unfolding occurs_def by (intro exI[of _ "[]"] exI[of _ u] exI[of _ b']) simp
        ultimately show False using 1(2) keep(2)[OF b'(1) u(2)] p(2) by blast
      qed
      then show ?thesis using rest out by (simp add: occurs_Cons)
    next
      case (hit m rest)
      have out: "?out prev s = token w @ ?out (Some (last m)) rest" using hit by (simp add: refill_def)
      have len: "length rest < length s" using hit by simp
      have b: "boundary (Some (last m)) (first_of rest)" using hit p by (simp add: match_here_def last_of_def)
      have "\<not> occurs q (Some (last m)) rest" if "q \<noteq> p"
      proof
        assume "occurs q (Some (last m)) rest"
        then obtain a u b where "rest = a @ u @ b" "match_here q (last_of (Some (last m)) a) u b" by (auto simp: occurs_def)
        then have "s = (m @ a) @ u @ b" "match_here q (last_of prev (m @ a)) u b"
          using hit by (auto simp: last_of_append) (simp add: last_of_def)
        then show False using 1(2) that unfolding occurs_def by blast
      qed
      then have "\<not> occurs q (Some (CHR '']'')) (?out (Some (last m)) rest)" using 1(1) len b by blast
      then show ?thesis using occurs_after_token[OF q] unfolding out by blast
    qed
  qed
qed

end
