(* ===== verification/Safety_Filter.thy ===== *)
theory Safety_Filter
  imports Go_Value Go_Regexp
begin

text \<open>
  \<open>ai/safety/safety.go\<close>: detection of harmful input, of leaked secrets in output, and masking of
  personal data, with the five regular expressions of \<open>NewFilter\<close> written out over \<open>Go_Regexp\<close>.
\<close>

section \<open>Building expressions\<close>

definition chr_in :: "string \<Rightarrow> rx" where
  "chr_in cs = Cls (\<lambda>c. c \<in> set cs)"

fun seqs :: "rx list \<Rightarrow> rx" where
  "seqs [] = Eps"
| "seqs [r] = r"
| "seqs (r # rs) = Seq r (seqs rs)"

definition opt :: "rx \<Rightarrow> rx" where "opt r = Alt r Eps"
definition plus_rx :: "rx \<Rightarrow> rx" where "plus_rx r = Seq r (Star r)"
definition times :: "nat \<Rightarrow> rx \<Rightarrow> rx" where "times n r = seqs (replicate n r)"
definition at_least :: "nat \<Rightarrow> rx \<Rightarrow> rx" where "at_least n r = Seq (times n r) (Star r)"

text \<open>
  The flag \<open>(?i)\<close> folds case over Unicode: besides both ASCII cases, \<open>k\<close> also stands for the Kelvin
  sign (bytes E2 84 AA) and \<open>s\<close> for the long s (bytes C5 BF), alone and in the range \<open>a-z\<close>.
\<close>

definition kelvin :: rx where "kelvin = seqs (map (\<lambda>n. chr_in [char_of n]) [0xE2, 0x84, 0xAA :: nat])"
definition long_s :: rx where "long_s = seqs (map (\<lambda>n. chr_in [char_of n]) [0xC5, 0xBF :: nat])"

definition ascii_letter :: "char \<Rightarrow> bool" where
  "ascii_letter c \<longleftrightarrow> (let n = (of_char c :: nat) in (65 \<le> n \<and> n \<le> 90) \<or> (97 \<le> n \<and> n \<le> 122))"

definition fold_class :: "(char \<Rightarrow> bool) \<Rightarrow> rx" where
  "fold_class extra = Alt (Cls (\<lambda>c. ascii_letter c \<or> extra c)) (Alt long_s kelvin)"

definition fold_chr :: "char \<Rightarrow> rx" where
  "fold_chr c =
     (if ascii_letter c then
        (let both = chr_in [c, char_of (of_char c - 32 :: nat)] in
         if c = CHR ''k'' then Alt both kelvin else if c = CHR ''s'' then Alt both long_s else both)
      else chr_in [c])"

definition fold_lit :: "string \<Rightarrow> rx" where "fold_lit w = seqs (map fold_chr w)"

definition digit_rx :: rx where "digit_rx = Cls is_digit"
definition space_rx :: rx where "space_rx = Cls (\<lambda>c. (of_char c :: nat) \<in> {9, 10, 12, 13, 32})"
definition nonspace_rx :: rx where "nonspace_rx = Cls (\<lambda>c. (of_char c :: nat) \<notin> {9, 10, 12, 13, 32})"

section \<open>Types\<close>

record SafetyVerdict =
  svSafe :: bool
  svCategory :: string
  svConfidence :: gofloat
  svReason :: string
  svMaskedText :: string

record FilterPolicy =
  fpTenantID :: string
  fpEnabledCategories :: "string list"
  fpBlockThreshold :: gofloat
  fpMaskPII :: bool

record Filter =
  fPolicy :: FilterPolicy
  emailRe :: pattern
  phoneRe :: pattern
  ssnRe :: pattern
  apiKeyRe :: pattern
  passwordRe :: pattern
  harmfulWords :: "string list"

definition email_rx :: rx where
  "email_rx = seqs
     [plus_rx (fold_class (\<lambda>c. is_digit c \<or> c \<in> set ''._%+-'')), chr_in ''@'',
      plus_rx (fold_class (\<lambda>c. is_digit c \<or> c \<in> set ''.-'')), chr_in ''.'',
      at_least 2 (fold_class (\<lambda>c. False))]"

definition phone_rx :: rx where
  "phone_rx = seqs [times 3 digit_rx, opt (chr_in ''-.''), times 3 digit_rx, opt (chr_in ''-.''), times 4 digit_rx]"

definition ssn_rx :: rx where
  "ssn_rx = seqs [times 3 digit_rx, chr_in ''-'', times 2 digit_rx, chr_in ''-'', times 4 digit_rx]"

definition api_key_rx :: rx where
  "api_key_rx = Seq
     (Alt (seqs [fold_lit ''api'', opt (chr_in ''_-''), fold_lit ''key'']) (Alt (fold_lit ''sk-'') (fold_lit ''obs_'')))
     (at_least 8 (fold_class (\<lambda>c. is_digit c \<or> c \<in> set ''-_'')))"

definition password_rx :: rx where
  "password_rx = seqs
     [Alt (fold_lit ''password'') (Alt (fold_lit ''passwd'') (fold_lit ''pwd'')),
      Star space_rx, chr_in '':='', Star space_rx, plus_rx nonspace_rx]"

definition NewFilter :: "FilterPolicy \<Rightarrow> Filter" where
  "NewFilter policy =
     \<lparr>fPolicy = policy,
      emailRe = \<lparr>body = email_rx, bounded = True\<rparr>,
      phoneRe = \<lparr>body = phone_rx, bounded = True\<rparr>,
      ssnRe = \<lparr>body = ssn_rx, bounded = True\<rparr>,
      apiKeyRe = \<lparr>body = api_key_rx, bounded = False\<rparr>,
      passwordRe = \<lparr>body = password_rx, bounded = False\<rparr>,
      harmfulWords = [''bomb'', ''kill'', ''attack'', ''weapon'', ''explosive'', ''hack'', ''exploit'', ''malware'', ''terrorist'']\<rparr>"

section \<open>Operations\<close>

definition hasCategory :: "Filter \<Rightarrow> string \<Rightarrow> bool" where
  "hasCategory f cat =
     (if length (fpEnabledCategories (fPolicy f)) = 0 then False else cat \<in> set (fpEnabledCategories (fPolicy f)))"

definition exceedsThreshold :: "Filter \<Rightarrow> gofloat \<Rightarrow> bool" where
  "exceedsThreshold f confidence =
     (let threshold = fpBlockThreshold (fPolicy f) in
      if f_lt threshold (FFin 0) \<or> f_eq threshold (FFin 0) then True
      else f_lt threshold confidence \<or> f_eq threshold confidence)"

text \<open>The \<open>float64\<close> values nearest to the confidences written in the source.\<close>

definition c080 :: gofloat where "c080 = FFin (3602879701896397 / 4503599627370496)"
definition c085 :: gofloat where "c085 = FFin (7656119366529843 / 9007199254740992)"
definition c090 :: gofloat where "c090 = FFin (8106479329266893 / 9007199254740992)"
definition c095 :: gofloat where "c095 = FFin (4278419646001971 / 4503599627370496)"

definition safe_verdict :: SafetyVerdict where
  "safe_verdict = \<lparr>svSafe = True, svCategory = [], svConfidence = FFin 0, svReason = [], svMaskedText = []\<rparr>"

definition unsafe_verdict :: "string \<Rightarrow> gofloat \<Rightarrow> string \<Rightarrow> SafetyVerdict" where
  "unsafe_verdict cat conf reason =
     \<lparr>svSafe = False, svCategory = cat, svConfidence = conf, svReason = reason, svMaskedText = []\<rparr>"

text \<open>\<open>ctx\<close> says whether a context was passed; without one the calls fail, here \<open>None\<close>.\<close>

definition CheckInput :: "stdlib \<Rightarrow> Filter \<Rightarrow> bool \<Rightarrow> string \<Rightarrow> SafetyVerdict option" where
  "CheckInput L f ctx text =
     (if \<not> ctx then None
      else if text = [] then Some safe_verdict
      else if hasCategory f ''harmful'' then
        (case find (\<lambda>word. Contains (to_lower L text) word \<and> exceedsThreshold f c080) (harmfulWords f) of
           Some word \<Rightarrow> Some (unsafe_verdict ''harmful'' c080 (''potentially harmful content detected: '' @ word))
         | None \<Rightarrow> Some safe_verdict)
      else Some safe_verdict)"

definition CheckOutput :: "Filter \<Rightarrow> bool \<Rightarrow> string \<Rightarrow> SafetyVerdict option" where
  "CheckOutput f ctx text =
     (if \<not> ctx then None
      else if text = [] then Some safe_verdict
      else if hasCategory f ''secret'' then
        (if MatchString (apiKeyRe f) text \<and> exceedsThreshold f c090
         then Some (unsafe_verdict ''secret'' c090 ''potential API key or secret detected'')
         else if MatchString (passwordRe f) text \<and> exceedsThreshold f c085
         then Some (unsafe_verdict ''secret'' c085 ''potential password detected'')
         else Some safe_verdict)
      else Some safe_verdict)"

definition pii_verdict :: "gofloat \<Rightarrow> string \<Rightarrow> string \<Rightarrow> SafetyVerdict" where
  "pii_verdict conf reason masked =
     \<lparr>svSafe = False, svCategory = ''pii'', svConfidence = conf, svReason = reason, svMaskedText = masked\<rparr>"

text \<open>The check in the email callback: an \<open>@\<close>, a dot, and both parts around the first \<open>@\<close> as expected.\<close>

definition is_email :: "string \<Rightarrow> bool" where
  "is_email match \<longleftrightarrow>
     Contains match ''@'' \<and> length (filter (\<lambda>c. c = CHR ''.'') match) \<ge> 1 \<and>
     (let part0 = takeWhile (\<lambda>c. c \<noteq> CHR ''@'') match; part1 = tl (dropWhile (\<lambda>c. c \<noteq> CHR ''@'') match)
      in length part0 > 0 \<and> length part1 > 0 \<and> Contains part1 ''.'')"

definition MaskPII :: "Filter \<Rightarrow> bool \<Rightarrow> string \<Rightarrow> (string \<times> SafetyVerdict list) option" where
  "MaskPII f ctx text =
     (if \<not> ctx then None
      else if text = [] then Some ([], [])
      else if \<not> fpMaskPII (fPolicy f) \<or> \<not> hasCategory f ''pii'' then Some (text, [])
      else
        (let masked1 = ReplaceAllStringFunc (emailRe f) text (\<lambda>m. if is_email m then ''[EMAIL]'' else m);
             v1 = map (\<lambda>m. pii_verdict c095 ''email address detected'' ''[EMAIL]'') (filter is_email (replaced (emailRe f) text));
             masked2 = ReplaceAllStringFunc (phoneRe f) masked1 (\<lambda>m. ''[PHONE]'');
             v2 = map (\<lambda>m. pii_verdict c090 ''phone number detected'' ''[PHONE]'') (replaced (phoneRe f) masked1);
             masked3 = ReplaceAllStringFunc (ssnRe f) masked2 (\<lambda>m. ''[SSN]'');
             v3 = map (\<lambda>m. pii_verdict c095 ''SSN detected'' ''[SSN]'') (replaced (ssnRe f) masked2)
         in Some (masked3, v1 @ v2 @ v3)))"

end
