(* ===== verification/Safety_Properties.thy ===== *)
theory Safety_Properties
  imports Safety_Filter
begin

text \<open>
  What the safety filter promises: masking removes every match of its three patterns for personal
  data, and a verdict is unsafe exactly when an enabled category detects something above the threshold.
\<close>

section \<open>The bytes and lengths of matches\<close>

primrec over :: "(char \<Rightarrow> bool) \<Rightarrow> rx \<Rightarrow> bool" where
  "over P Eps = True"
| "over P (Cls Q) = (\<forall>c. Q c \<longrightarrow> P c)"
| "over P (Seq a b) = (over P a \<and> over P b)"
| "over P (Alt a b) = (over P a \<and> over P b)"
| "over P (Star a) = over P a"

lemma over_matches: "matches r u \<Longrightarrow> over P r \<Longrightarrow> c \<in> set u \<Longrightarrow> P c"
  by (induction arbitrary: c rule: matches.induct) auto

lemma over_seqs: "over P (seqs rs) \<longleftrightarrow> (\<forall>r \<in> set rs. over P r)"
  by (induction rs rule: seqs.induct) auto

lemma matches_seqs_Cons: "matches (seqs (r # rs)) u \<longleftrightarrow> (\<exists>v w. u = v @ w \<and> matches r v \<and> matches (seqs rs) w)"
  by (cases rs) (auto intro: matches.intros)

lemma over_builders:
  "over P (opt r) \<longleftrightarrow> over P r" "over P (plus_rx r) \<longleftrightarrow> over P r" "over P (times n r) \<longleftrightarrow> n = 0 \<or> over P r"
  "over P (at_least n r) \<longleftrightarrow> over P r" "over P (chr_in cs) \<longleftrightarrow> (\<forall>c \<in> set cs. P c)"
  by (auto simp: opt_def plus_rx_def times_def at_least_def chr_in_def over_seqs)

lemma over_fold_class: "over P (fold_class extra) \<longleftrightarrow>
    (\<forall>c. ascii_letter c \<or> extra c \<longrightarrow> P c) \<and> (\<forall>n \<in> {0xE2, 0x84, 0xAA, 0xC5, 0xBF :: nat}. P (char_of n))"
  by (auto simp: fold_class_def kelvin_def long_s_def over_seqs over_builders)

definition not_bracket :: "char \<Rightarrow> bool" where
  "not_bracket c \<longleftrightarrow> (of_char c :: nat) \<noteq> 91 \<and> (of_char c :: nat) \<noteq> 93"

lemma pii_no_brackets: "over not_bracket email_rx" "over not_bracket phone_rx" "over not_bracket ssn_rx"
  by (auto simp: email_rx_def phone_rx_def ssn_rx_def over_seqs over_builders over_fold_class digit_rx_def
      not_bracket_def ascii_letter_def is_digit_def)

lemma email_at: "matches email_rx u \<Longrightarrow> CHR ''@'' \<in> set u"
  by (auto simp: email_rx_def matches_seqs_Cons chr_in_def simp del: seqs.simps)

lemma digits_first: "matches (seqs (times 3 digit_rx # rs)) u \<Longrightarrow> \<exists>c \<in> set u. is_digit c"
  by (auto simp: matches_seqs_Cons times_def digit_rx_def numeral_3_eq_3 simp del: seqs.simps)

lemma phone_digit: "matches phone_rx u \<Longrightarrow> \<exists>c \<in> set u. is_digit c"
  unfolding phone_rx_def by (rule digits_first)

lemma ssn_digit: "matches ssn_rx u \<Longrightarrow> \<exists>c \<in> set u. is_digit c"
  unfolding ssn_rx_def by (rule digits_first)

lemma email_is_email:
  assumes "matches email_rx u"
  shows "is_email u"
proof -
  let ?loc = "fold_class (\<lambda>c. is_digit c \<or> c \<in> set ''._%+-'')"
  obtain x y z where u: "u = x @ CHR ''@'' # y @ CHR ''.'' # z" "matches (plus_rx ?loc) x"
    using assms by (auto simp: email_rx_def matches_seqs_Cons chr_in_def simp del: seqs.simps)
  have "over (\<lambda>c. (of_char c :: nat) \<noteq> 64) (plus_rx ?loc)"
    by (auto simp: over_builders over_fold_class ascii_letter_def is_digit_def)
  then have x: "CHR ''@'' \<notin> set x" using over_matches[OF u(2)] by fastforce
  have "x \<noteq> []" using u(2) by (auto simp: plus_rx_def fold_class_def kelvin_def long_s_def chr_in_def)
  moreover have "takeWhile (\<lambda>c. c \<noteq> CHR ''@'') u = x" "dropWhile (\<lambda>c. c \<noteq> CHR ''@'') u = CHR ''@'' # y @ CHR ''.'' # z"
    using x u(1) by (auto intro!: takeWhile_eq_all_conv[THEN iffD2] simp: takeWhile_append dropWhile_append)
  moreover have "Contains u ''@''" "Contains (y @ CHR ''.'' # z) ''.''" unfolding Contains_iff u(1) by auto
  ultimately show ?thesis using u(1) by (simp add: is_email_def)
qed

lemma pii_foreign:
  assumes "w \<in> {''EMAIL'', ''PHONE'', ''SSN''}" and "q \<in> {email_rx, phone_rx, ssn_rx}"
  shows "foreign w \<lparr>body = q, bounded = True\<rparr>"
proof -
  have w: "\<not> is_digit c \<and> c \<noteq> CHR ''@''" if "c \<in> set w" for c
    using assms(1) that by (auto simp: is_digit_def)
  have "u \<noteq> [] \<and> \<not> sublist u w \<and> CHR ''['' \<notin> set u \<and> CHR '']'' \<notin> set u" if m: "matches q u" for u
  proof -
    have "q = email_rx \<or> q = phone_rx \<or> q = ssn_rx" using assms(2) by blast
    then have "\<exists>c \<in> set u. is_digit c \<or> c = CHR ''@''" and over: "over not_bracket q"
      using m email_at[of u] phone_digit[of u] ssn_digit[of u] pii_no_brackets by metis+
    then have "u \<noteq> []" "\<not> set u \<subseteq> set w" using w by fastforce+
    moreover have "\<not> not_bracket (CHR ''['')" "\<not> not_bracket (CHR '']'')" by (simp_all add: not_bracket_def)
    ultimately show ?thesis using over_matches[OF m over] set_mono_sublist[of u w] by metis
  qed
  then show ?thesis by (simp add: foreign_def)
qed

section \<open>Pieces without a match\<close>

lemma pieces_matches: "Inr m \<in> set (pieces p prev s) \<Longrightarrow> matches (body p) m"
proof (induction s arbitrary: prev rule: length_induct)
  case (1 s)
  then have "s \<noteq> []" by auto
  then show ?case
  proof (cases rule: pieces_cases[of s p prev])
    case keep
    with 1 \<open>s \<noteq> []\<close> show ?thesis by (cases s) auto
  next
    case (hit m' rest)
    from hit(1,2) have "length rest < length s" by simp
    with 1 hit(3,4) show ?thesis by (auto simp del: length_append simp: match_here_def)
  qed
qed

lemma refill_cong: "(\<And>m. Inr m \<in> set ps \<Longrightarrow> f m = g m) \<Longrightarrow> refill f ps = refill g ps"
  by (induction ps) (auto simp: refill_def split: sum.splits)

lemma replaced_Nil_iff: "replaced p s = [] \<longleftrightarrow> (\<forall>m. Inr m \<notin> set (pieces p None s))"
  by (auto simp: replaced_def map_filter_def filter_empty_conv split: sum.splits)

lemma replaced_Nil_same: "replaced p s = [] \<Longrightarrow> ReplaceAllStringFunc p s f = s"
  using refill_cong[of "pieces p None s" f "\<lambda>m. m"] by (simp add: replaced_Nil_iff ReplaceAllStringFunc_def refill_id)

lemma pieces_occurs: "Inr m \<in> set (pieces p prev s) \<Longrightarrow> occurs p prev s"
proof (induction s arbitrary: prev rule: length_induct)
  case (1 s)
  then have "s \<noteq> []" by auto
  then show ?case
  proof (cases rule: pieces_cases[of s p prev])
    case keep
    with 1 \<open>s \<noteq> []\<close> show ?thesis by (cases s) (auto simp: occurs_Cons)
  next
    case (hit m' rest)
    then show ?thesis unfolding occurs_def by (intro exI[of _ "[]"] exI[of _ m'] exI[of _ rest]) simp
  qed
qed

lemma no_match_nothing_replaced: "\<not> MatchString p s \<Longrightarrow> replaced p s = []"
  by (auto simp: replaced_Nil_iff MatchString_occurs dest: pieces_occurs)

section \<open>Masking\<close>

definition pii_free :: "Filter \<Rightarrow> string \<Rightarrow> bool" where
  "pii_free f s \<longleftrightarrow> \<not> MatchString (emailRe f) s \<and> \<not> MatchString (phoneRe f) s \<and> \<not> MatchString (ssnRe f) s"

lemma mask_step:
  assumes w: "w \<in> {''EMAIL'', ''PHONE'', ''SSN''}" and p: "p \<in> {email_rx, phone_rx, ssn_rx}" and q: "q \<in> {email_rx, phone_rx, ssn_rx}"
    and none: "q = p \<or> \<not> MatchString \<lparr>body = q, bounded = True\<rparr> s"
  shows "\<not> MatchString \<lparr>body = q, bounded = True\<rparr> (ReplaceAllStringFunc \<lparr>body = p, bounded = True\<rparr> s (\<lambda>m. token w))"
proof -
  have "v \<noteq> []" if "matches p v" for v using pii_foreign[OF w p] that by (auto simp: foreign_def)
  then show ?thesis
    using token_leaves_none[of "\<lparr>body = p, bounded = True\<rparr>" w "\<lparr>body = q, bounded = True\<rparr>" None s None] pii_foreign[OF w q] none
    by (auto simp: MatchString_occurs ReplaceAllStringFunc_def)
qed

lemma email_callback:
  "ReplaceAllStringFunc \<lparr>body = email_rx, bounded = True\<rparr> s (\<lambda>m. if is_email m then t else m) =
   ReplaceAllStringFunc \<lparr>body = email_rx, bounded = True\<rparr> s (\<lambda>m. t)"
  unfolding ReplaceAllStringFunc_def
  by (rule refill_cong) (use pieces_matches email_is_email in fastforce)

lemma replaced_emails: "filter is_email (replaced \<lparr>body = email_rx, bounded = True\<rparr> s) = replaced \<lparr>body = email_rx, bounded = True\<rparr> s"
proof (rule filter_True, rule ballI)
  fix m assume "m \<in> set (replaced \<lparr>body = email_rx, bounded = True\<rparr> s)"
  then have "Inr m \<in> set (pieces \<lparr>body = email_rx, bounded = True\<rparr> None s)"
    by (auto simp: replaced_def map_filter_def split: sum.splits)
  from pieces_matches[OF this] show "is_email m" by (simp add: email_is_email)
qed

lemma NewFilter_re:
  "emailRe (NewFilter policy) = \<lparr>body = email_rx, bounded = True\<rparr>" "phoneRe (NewFilter policy) = \<lparr>body = phone_rx, bounded = True\<rparr>"
  "ssnRe (NewFilter policy) = \<lparr>body = ssn_rx, bounded = True\<rparr>"
  "apiKeyRe (NewFilter policy) = \<lparr>body = api_key_rx, bounded = False\<rparr>"
  "passwordRe (NewFilter policy) = \<lparr>body = password_rx, bounded = False\<rparr>"
  by (simp_all add: NewFilter_def)

lemma MaskPII_active:
  assumes "fpMaskPII policy" and "''pii'' \<in> set (fpEnabledCategories policy)" and "text \<noteq> []"
  defines "f \<equiv> NewFilter policy"
  defines "m1 \<equiv> ReplaceAllStringFunc (emailRe f) text (\<lambda>m. token ''EMAIL'')"
  defines "m2 \<equiv> ReplaceAllStringFunc (phoneRe f) m1 (\<lambda>m. token ''PHONE'')"
  shows "MaskPII f True text = Some (ReplaceAllStringFunc (ssnRe f) m2 (\<lambda>m. token ''SSN''),
    map (\<lambda>m. pii_verdict c095 ''email address detected'' (token ''EMAIL'')) (replaced (emailRe f) text) @
    map (\<lambda>m. pii_verdict c090 ''phone number detected'' (token ''PHONE'')) (replaced (phoneRe f) m1) @
    map (\<lambda>m. pii_verdict c095 ''SSN detected'' (token ''SSN'')) (replaced (ssnRe f) m2))"
  using assms(1-3) unfolding m2_def m1_def f_def
  by (auto simp: MaskPII_def hasCategory_def NewFilter_def token_def Let_def replaced_emails email_callback)

lemma pii_free_empty: "pii_free (NewFilter policy) []"
  using pii_foreign[of "''SSN''"] by (auto simp: pii_free_def NewFilter_def MatchString_occurs occurs_def match_here_def foreign_def)

lemma MaskPII_clean:
  assumes "fpMaskPII policy" and "''pii'' \<in> set (fpEnabledCategories policy)"
  shows "\<exists>masked vs. MaskPII (NewFilter policy) True text = Some (masked, vs) \<and> pii_free (NewFilter policy) masked \<and>
    (vs = [] \<longleftrightarrow> pii_free (NewFilter policy) text) \<and> (vs = [] \<longrightarrow> masked = text)"
proof (cases "text = []")
  case True
  then show ?thesis by (auto simp: MaskPII_def pii_free_empty)
next
  case False
  define f where "f = NewFilter policy"
  note re = NewFilter_re[of policy, folded f_def]
  define m1 where "m1 = ReplaceAllStringFunc (emailRe f) text (\<lambda>m. token ''EMAIL'')"
  define m2 where "m2 = ReplaceAllStringFunc (phoneRe f) m1 (\<lambda>m. token ''PHONE'')"
  define m3 where "m3 = ReplaceAllStringFunc (ssnRe f) m2 (\<lambda>m. token ''SSN'')"
  have 1: "\<not> MatchString (emailRe f) m1" unfolding m1_def re by (rule mask_step) simp_all
  then have 2: "\<not> MatchString (emailRe f) m2" "\<not> MatchString (phoneRe f) m2" unfolding m2_def re by (simp_all add: mask_step)
  then have clean: "pii_free f m3" unfolding pii_free_def m3_def re by (simp add: mask_step)
  have same: "m3 = text" if "replaced (emailRe f) text = []" "replaced (phoneRe f) m1 = []" "replaced (ssnRe f) m2 = []"
    using that by (simp add: m1_def m2_def m3_def replaced_Nil_same)
  have none: "replaced (emailRe f) text = [] \<and> replaced (phoneRe f) m1 = [] \<and> replaced (ssnRe f) m2 = []" if "pii_free f text"
    using that by (simp add: pii_free_def m1_def m2_def replaced_Nil_same no_match_nothing_replaced)
  show ?thesis
    using MaskPII_active[OF assms False] clean same none by (auto simp: m1_def m2_def m3_def f_def)
qed

text \<open>C22. 
  When masking is on and the category is enabled, \<open>MaskPII\<close> returns a text in which none of
  the filter's patterns for addresses, phone numbers and social security numbers is found. It reports
  a verdict exactly when the text had such a match, returns other texts unchanged, and masking its
  result again changes nothing.
\<close>
theorem MaskPII_leaves_no_PII:
  assumes "fpMaskPII policy" and "''pii'' \<in> set (fpEnabledCategories policy)"
  shows "\<exists>masked vs. MaskPII (NewFilter policy) True text = Some (masked, vs) \<and>
    \<not> MatchString (emailRe (NewFilter policy)) masked \<and> \<not> MatchString (phoneRe (NewFilter policy)) masked \<and>
    \<not> MatchString (ssnRe (NewFilter policy)) masked \<and>
    (vs = [] \<longleftrightarrow> \<not> MatchString (emailRe (NewFilter policy)) text \<and> \<not> MatchString (phoneRe (NewFilter policy)) text \<and>
       \<not> MatchString (ssnRe (NewFilter policy)) text) \<and>
    (vs = [] \<longrightarrow> masked = text) \<and> MaskPII (NewFilter policy) True masked = Some (masked, [])"
proof -
  obtain masked vs where m: "MaskPII (NewFilter policy) True text = Some (masked, vs)" "pii_free (NewFilter policy) masked"
    "vs = [] \<longleftrightarrow> pii_free (NewFilter policy) text" "vs = [] \<longrightarrow> masked = text"
    using MaskPII_clean[OF assms] by blast
  moreover have "MaskPII (NewFilter policy) True masked = Some (masked, [])"
    using MaskPII_clean[OF assms, of masked] m(2) by auto
  ultimately show ?thesis unfolding pii_free_def by blast
qed

definition pii_policy :: FilterPolicy where
  "pii_policy = \<lparr>fpTenantID = ''t'', fpEnabledCategories = [''harmful'', ''pii'', ''secret''], fpBlockThreshold = FFin (1/2), fpMaskPII = True\<rparr>"

theorem MaskPII_leaves_no_PII_witness:
  "MaskPII (NewFilter pii_policy) True ''a@b.co 555-12-3456'' =
     Some (''[EMAIL] [SSN]'',
       [pii_verdict c095 ''email address detected'' ''[EMAIL]'', pii_verdict c095 ''SSN detected'' ''[SSN]'']) \<and>
   MaskPII (NewFilter pii_policy) True ''[EMAIL] [SSN]'' = Some (''[EMAIL] [SSN]'', [])"
proof -
  note re = NewFilter_re[of pii_policy]
  have 1: "pieces \<lparr>body = email_rx, bounded = True\<rparr> None ''a@b.co 555-12-3456'' = Inr ''a@b.co'' # map Inl '' 555-12-3456''" by code_simp
  have 2: "pieces \<lparr>body = phone_rx, bounded = True\<rparr> None ''[EMAIL] 555-12-3456'' = map Inl ''[EMAIL] 555-12-3456''" by code_simp
  have 3: "pieces \<lparr>body = ssn_rx, bounded = True\<rparr> None ''[EMAIL] 555-12-3456'' = map Inl ''[EMAIL] '' @ [Inr ''555-12-3456'']" by code_simp
  have run: "MaskPII (NewFilter pii_policy) True ''a@b.co 555-12-3456'' =
     Some (''[EMAIL] [SSN]'',
       [pii_verdict c095 ''email address detected'' ''[EMAIL]'', pii_verdict c095 ''SSN detected'' ''[SSN]''])"
    by (subst MaskPII_active) (simp_all add: pii_policy_def re[unfolded pii_policy_def] ReplaceAllStringFunc_def replaced_def refill_def token_def 1 2 3 map_filter_def
      del: pieces.simps)
  with MaskPII_leaves_no_PII[of pii_policy "''a@b.co 555-12-3456''"] show ?thesis by (simp add: pii_policy_def)
qed

section \<open>Verdicts\<close>

text \<open>\<open>a \<le> b\<close> on floats: false as soon as one of them is not a number.\<close>

definition float_le :: "gofloat \<Rightarrow> gofloat \<Rightarrow> bool" where
  "float_le a b \<longleftrightarrow> f_lt a b \<or> f_eq a b"

lemma exceedsThreshold_iff: "0 \<le> c \<Longrightarrow> exceedsThreshold f (FFin c) \<longleftrightarrow> float_le (fpBlockThreshold (fPolicy f)) (FFin c)"
  by (cases "fpBlockThreshold (fPolicy f)") (auto simp: exceedsThreshold_def float_le_def Let_def f_lt_def f_eq_def)

lemma exceeds_levels:
  "exceedsThreshold f c080 \<longleftrightarrow> float_le (fpBlockThreshold (fPolicy f)) c080"
  "exceedsThreshold f c085 \<longleftrightarrow> float_le (fpBlockThreshold (fPolicy f)) c085"
  "exceedsThreshold f c090 \<longleftrightarrow> float_le (fpBlockThreshold (fPolicy f)) c090"
  by (simp_all add: exceedsThreshold_iff c080_def c085_def c090_def)

lemma hasCategory_iff: "hasCategory f cat \<longleftrightarrow> cat \<in> set (fpEnabledCategories (fPolicy f))"
  by (auto simp: hasCategory_def)

lemma NewFilter_policy [simp]: "fPolicy (NewFilter policy) = policy"
  by (simp add: NewFilter_def)

lemma MatchString_unbounded: "MatchString \<lparr>body = r, bounded = False\<rparr> s \<longleftrightarrow> (\<exists>u. sublist u s \<and> matches r u)"
  by (auto simp: MatchString_occurs occurs_def match_here_def sublist_def)

lemma find_SomeD: "find P xs = Some x \<Longrightarrow> x \<in> set xs \<and> P x"
  by (auto simp: find_Some_iff)

lemma CheckInput_verdict:
  "\<exists>v. CheckInput L (NewFilter policy) True text = Some v \<and>
     (\<not> svSafe v \<longleftrightarrow> text \<noteq> [] \<and> ''harmful'' \<in> set (fpEnabledCategories policy) \<and> float_le (fpBlockThreshold policy) c080 \<and>
        (\<exists>w \<in> set (harmfulWords (NewFilter policy)). sublist w (to_lower L text)))"
  by (auto simp: CheckInput_def safe_verdict_def unsafe_verdict_def hasCategory_iff exceeds_levels Contains_sublist
      find_None_iff dest!: find_SomeD split: option.split)

lemma CheckOutput_verdict:
  "\<exists>v. CheckOutput (NewFilter policy) True text = Some v \<and>
     (\<not> svSafe v \<longleftrightarrow> text \<noteq> [] \<and> ''secret'' \<in> set (fpEnabledCategories policy) \<and>
        ((\<exists>u. sublist u text \<and> matches api_key_rx u) \<and> float_le (fpBlockThreshold policy) c090 \<or>
         (\<exists>u. sublist u text \<and> matches password_rx u) \<and> float_le (fpBlockThreshold policy) c085))"
  by (auto simp: CheckOutput_def safe_verdict_def unsafe_verdict_def hasCategory_iff exceeds_levels NewFilter_re MatchString_unbounded)

text \<open>
  A context given, input is unsafe exactly when it is not empty, the category is enabled,
  the threshold does not exceed the confidence 0.8 and the lower-cased text contains one of nine words;
  output is unsafe exactly when some part of it matches the pattern of an API key (confidence 0.9) or of
  a password (0.85) and the threshold permits. A threshold that is not a number blocks nothing; without
  a context both calls fail.
\<close>
theorem safety_verdicts_exact:
  "(\<exists>v. CheckInput L (NewFilter policy) True text = Some v \<and>
     (\<not> svSafe v \<longleftrightarrow> text \<noteq> [] \<and> ''harmful'' \<in> set (fpEnabledCategories policy) \<and> float_le (fpBlockThreshold policy) c080 \<and>
        (\<exists>w \<in> {''bomb'', ''kill'', ''attack'', ''weapon'', ''explosive'', ''hack'', ''exploit'', ''malware'', ''terrorist''}.
           sublist w (to_lower L text)))) \<and>
   (\<exists>v. CheckOutput (NewFilter policy) True text = Some v \<and>
     (\<not> svSafe v \<longleftrightarrow> text \<noteq> [] \<and> ''secret'' \<in> set (fpEnabledCategories policy) \<and>
        ((\<exists>u. sublist u text \<and> matches api_key_rx u) \<and> float_le (fpBlockThreshold policy) c090 \<or>
         (\<exists>u. sublist u text \<and> matches password_rx u) \<and> float_le (fpBlockThreshold policy) c085))) \<and>
   CheckInput L (NewFilter policy) False text = None \<and> CheckOutput (NewFilter policy) False text = None \<and>
   MaskPII (NewFilter policy) False text = None"
proof -
  have words: "set (harmfulWords (NewFilter policy)) =
      {''bomb'', ''kill'', ''attack'', ''weapon'', ''explosive'', ''hack'', ''exploit'', ''malware'', ''terrorist''}"
    by (simp add: NewFilter_def)
  show ?thesis
    using CheckInput_verdict[of L policy "text"] CheckOutput_verdict[of policy "text"] unfolding words
    by (simp add: CheckInput_def[of L _ False] CheckOutput_def[of _ False] MaskPII_def[of _ False])
qed

text \<open>The words are looked for anywhere, also inside other words: a question about skills is refused.\<close>

lemma harmless_word_flagged:
  assumes "to_lower L ''list my skills'' = ''list my skills''"
  shows "CheckInput L (NewFilter pii_policy) True ''list my skills'' =
    Some (unsafe_verdict ''harmful'' c080 ''potentially harmful content detected: kill'')"
proof -
  have words: "harmfulWords (NewFilter pii_policy) =
      [''bomb'', ''kill'', ''attack'', ''weapon'', ''explosive'', ''hack'', ''exploit'', ''malware'', ''terrorist'']"
    by (simp add: NewFilter_def)
  have "exceedsThreshold (NewFilter pii_policy) c080" by (simp add: exceedsThreshold_def c080_def pii_policy_def)
  then show ?thesis
    unfolding CheckInput_def words assms by (simp add: hasCategory_iff pii_policy_def HasPrefix_def)
qed

end
