(* ===== verification/Go_Fields.thy ===== *)
theory Go_Fields
  imports Go_Strings
begin

text \<open>
  \<open>strings.Fields\<close> on bytes, and the visible content of a text: what remains when every white-space
  rune is dropped. Trimming, splitting into lines and exchanging blanks for line breaks keep it.
\<close>

section \<open>White-space runes do not overlap\<close>

definition cont_byte :: "char \<Rightarrow> bool" where
  "cont_byte c \<longleftrightarrow> 128 \<le> (of_char c :: nat) \<and> (of_char c :: nat) < 192"

lemma space_runes_shape:
  "r \<in> set space_runes \<Longrightarrow> r \<noteq> [] \<and> \<not> cont_byte (hd r) \<and> (\<forall>c \<in> set (tl r). cont_byte c)"
  unfolding space_runes_eq by (simp only: list.set insert_iff empty_iff) (elim disjE, simp_all add: cont_byte_def)

lemma space_runes_prefix_free: "r \<in> set space_runes \<Longrightarrow> r' \<in> set space_runes \<Longrightarrow> prefix r r' \<Longrightarrow> r = r'"
proof -
  have "list_all (\<lambda>r. list_all (\<lambda>r'. prefix r r' \<longrightarrow> r = r') space_runes) space_runes"
    unfolding space_runes_eq by code_simp
  then show "r \<in> set space_runes \<Longrightarrow> r' \<in> set space_runes \<Longrightarrow> prefix r r' \<Longrightarrow> r = r'"
    by (simp add: list_all_iff)
qed

lemma strip_space_rune_Some_iff: "strip_space_rune s = Some t \<longleftrightarrow> (\<exists>r \<in> set space_runes. s = r @ t)"
proof
  assume "strip_space_rune s = Some t"
  then show "\<exists>r \<in> set space_runes. s = r @ t"
    by (auto simp: strip_space_rune_def find_Some_iff HasPrefix_iff)
next
  assume "\<exists>r \<in> set space_runes. s = r @ t"
  then obtain r where r: "r \<in> set space_runes" "s = r @ t" by blast
  then obtain r' where f: "find (HasPrefix s) space_runes = Some r'"
    using find_None_iff[of "HasPrefix s" space_runes] by (cases "find (HasPrefix s) space_runes") auto
  then have "r' \<in> set space_runes" "prefix r' s" by (auto simp: find_Some_iff HasPrefix_prefix)
  moreover have "prefix r s" using r(2) by simp
  ultimately have "r = r'" using space_runes_prefix_free r(1) prefix_same_cases by metis
  with f r(2) show "strip_space_rune s = Some t" by (simp add: strip_space_rune_def)
qed

lemma strip_space_rune_None_iff: "strip_space_rune s = None \<longleftrightarrow> (\<forall>r \<in> set space_runes. \<not> prefix r s)"
  by (auto simp: strip_space_rune_def find_None_iff HasPrefix_prefix)

section \<open>Fields and visible content\<close>

function FieldsAcc :: "string \<Rightarrow> string \<Rightarrow> string list" where
  "FieldsAcc w [] = (if w = [] then [] else [w])"
| "FieldsAcc w (c # s) = (case strip_space_rune (c # s) of
     Some t \<Rightarrow> (if w = [] then [] else [w]) @ FieldsAcc [] t
   | None \<Rightarrow> FieldsAcc (w @ [c]) s)"
  by pat_completeness auto
termination by (relation "measure (\<lambda>(w, s). length s)") (auto dest: strip_space_rune_length)

definition Fields :: "string \<Rightarrow> string list" where
  "Fields s = FieldsAcc [] s"

function ink :: "string \<Rightarrow> string" where
  "ink [] = []"
| "ink (c # s) = (case strip_space_rune (c # s) of Some t \<Rightarrow> ink t | None \<Rightarrow> c # ink s)"
  by pat_completeness auto
termination by (relation "measure length") (auto dest: strip_space_rune_length)

lemma concat_FieldsAcc: "concat (FieldsAcc w s) = w @ ink s"
  by (induction w s rule: FieldsAcc.induct) (auto split: option.split)

lemma concat_Fields: "concat (Fields s) = ink s"
  by (simp add: Fields_def concat_FieldsAcc)

lemma ink_rune: "r \<in> set space_runes \<Longrightarrow> ink (r @ s) = ink s"
proof -
  assume r: "r \<in> set space_runes"
  then have "strip_space_rune (r @ s) = Some s" by (auto simp: strip_space_rune_Some_iff)
  with space_runes_shape[OF r] show ?thesis by (cases r) auto
qed

lemma ink_step: "strip_space_rune s = Some t \<Longrightarrow> ink s = ink t"
  by (auto simp: strip_space_rune_Some_iff ink_rune)

lemma prefix_across:
  assumes r: "r \<in> set space_runes" and b: "b \<noteq> [] \<Longrightarrow> \<not> cont_byte (hd b)" and p: "prefix r (a @ b)" and a: "a \<noteq> []"
  shows "prefix r a"
proof (rule ccontr)
  assume "\<not> prefix r a"
  then obtain x where x: "r = a @ x" "prefix x b" "x \<noteq> []" using p by (auto simp: prefix_append)
  then have "hd b = hd x" "b \<noteq> []" by (auto simp: prefix_def)
  moreover have "hd x \<in> set (tl r)" using x a by (cases a) auto
  ultimately show False using space_runes_shape[OF r] b by auto
qed

lemma ink_append: "(b \<noteq> [] \<Longrightarrow> \<not> cont_byte (hd b)) \<Longrightarrow> ink (a @ b) = ink a @ ink b"
proof (induction a rule: ink.induct)
  case (2 c a)
  show ?case
  proof (cases "strip_space_rune (c # a)")
    case None
    then have "strip_space_rune ((c # a) @ b) = None"
      using prefix_across[OF _ 2(3), where a = "c # a"] by (auto simp: strip_space_rune_None_iff)
    with None 2 show ?thesis by simp
  next
    case (Some t)
    then obtain r where r: "r \<in> set space_runes" "c # a = r @ t" by (auto simp: strip_space_rune_Some_iff)
    then have "(c # a) @ b = r @ (t @ b)" by simp
    then have "ink ((c # a) @ b) = ink (t @ b)" using ink_rune[OF r(1), of "t @ b"] by simp
    with 2 Some show ?thesis using ink_rune[OF r(1), of t] r(2) by simp
  qed
qed simp

lemma ink_TrimLeftSpace [simp]: "ink (TrimLeftSpace s) = ink s"
proof (induction s rule: TrimLeftSpace.induct)
  case (1 s)
  then show ?case by (cases "strip_space_rune s") (simp_all add: TrimLeftSpace.simps[of s] ink_step)
qed

lemma ink_TrimRightSpace [simp]: "ink (TrimRightSpace s) = ink s"
proof (induction s rule: TrimRightSpace.induct)
  case (1 s)
  show ?case
  proof (cases "strip_space_rune_end s")
    case (Some t)
    then obtain r where r: "r \<in> set space_runes" "s = t @ r"
      by (auto simp: strip_space_rune_end_def find_Some_iff HasSuffix_iff) (metis nth_mem)
    then have "ink s = ink t" using ink_append[of r t] ink_rune[of r "[]"] space_runes_shape by simp
    with 1 Some show ?thesis by (simp add: TrimRightSpace.simps[of s])
  qed (simp add: TrimRightSpace.simps[of s])
qed

lemma ink_TrimSpace [simp]: "ink (TrimSpace s) = ink s"
  by (simp add: TrimSpace_def)

lemma TrimSpace_no_leading: "strip_space_rune (TrimSpace s) = None"
proof -
  obtain b where "TrimLeftSpace s = TrimSpace s @ b"
    using TrimRightSpace_prefix[of "TrimLeftSpace s"] by (auto simp: TrimSpace_def)
  with TrimLeftSpace_done[of s] show ?thesis by (auto simp: strip_space_rune_None_iff)
qed

lemma TrimSpace_idem [simp]: "TrimSpace (TrimSpace s) = TrimSpace s"
proof -
  have "TrimLeftSpace (TrimSpace s) = TrimSpace s"
    using TrimSpace_no_leading[of s] by (subst TrimLeftSpace.simps) simp
  moreover have "TrimRightSpace (TrimSpace s) = TrimSpace s"
    using TrimRightSpace_done[of "TrimLeftSpace s"] by (subst TrimRightSpace.simps) (simp add: TrimSpace_def)
  ultimately show ?thesis by (simp add: TrimSpace_def[of "TrimSpace s"])
qed

lemma ink_Nil_iff: "ink s = [] \<longleftrightarrow> TrimSpace s = []"
proof
  assume "ink s = []"
  then have "ink (TrimSpace s) = []" by simp
  with TrimSpace_no_leading[of s] show "TrimSpace s = []" by (cases "TrimSpace s") auto
next
  assume "TrimSpace s = []"
  then show "ink s = []" by (metis ink.simps(1) ink_TrimSpace)
qed

section \<open>Evaluation on ASCII text\<close>

lemma FieldsAcc_visible: "visible c \<Longrightarrow> FieldsAcc w (c # s) = FieldsAcc (w @ [c]) s"
  by (simp add: strip_visible)

lemma FieldsAcc_blank: "FieldsAcc w (CHR '' '' # s) = (if w = [] then [] else [w]) @ FieldsAcc [] s"
proof -
  have "strip_space_rune (CHR '' '' # s) = Some s" by (auto simp: strip_space_rune_Some_iff space_runes_eq)
  then show ?thesis by simp
qed

lemmas Fields_eval = Fields_def FieldsAcc_visible FieldsAcc_blank FieldsAcc.simps(1) visible_def

section \<open>Lines and blanks\<close>

lemma newline_rune: "''\<newline>'' \<in> set space_runes" "'' '' \<in> set space_runes"
  by (simp_all add: space_runes_eq)

lemma newline_head: "\<not> cont_byte (CHR ''\<newline>'')"
  by (simp add: cont_byte_def)

lemma ink_newline: "ink (a @ CHR ''\<newline>'' # b) = ink a @ ink b"
  using ink_append[of "CHR ''\<newline>'' # b" a] ink_rune[OF newline_rune(1), of b] newline_head by simp

lemma ink_Join_lines: "ink (Join ws ''\<newline>'') = concat (map ink ws)"
  by (induction ws rule: induct_list012) (auto simp: ink_newline)

lemma ink_lines: "concat (map ink (Split s (CHR ''\<newline>''))) = ink s"
  using ink_Join_lines[of "Split s (CHR ''\<newline>'')"] by simp

definition blank_moved :: "char \<Rightarrow> char \<Rightarrow> bool" where
  "blank_moved c d \<longleftrightarrow> c = d \<or> c = CHR '' '' \<and> d = CHR ''\<newline>''"

lemma blank_moved_rune:
  assumes "r \<in> set space_runes" and "list_all2 blank_moved r r' \<or> list_all2 blank_moved r' r"
  shows "r' \<in> set space_runes"
proof (cases "length r = 1")
  case True
  then obtain c d where "r = [c]" "r' = [d]" using assms(2)
    by (metis One_nat_def length_0_conv length_Suc_conv list_all2_lengthD)
  then show ?thesis using assms newline_rune by (auto simp: blank_moved_def)
next
  case False
  then have "CHR '' '' \<notin> set r \<and> CHR ''\<newline>'' \<notin> set r"
    using assms(1) unfolding space_runes_eq by (simp only: list.set insert_iff empty_iff) (elim disjE, simp_all)
  moreover have "r = r'" if "list_all2 blank_moved r r'" "CHR '' '' \<notin> set r" for r r'
    using that by (induction rule: list_all2_induct) (auto simp: blank_moved_def)
  moreover have "r' = r" if "list_all2 blank_moved r' r" "CHR ''\<newline>'' \<notin> set r" for r r'
    using that by (induction rule: list_all2_induct) (auto simp: blank_moved_def)
  ultimately show ?thesis using assms by blast
qed

lemma ink_blank_moved: "list_all2 blank_moved s s' \<Longrightarrow> ink s = ink s'"
proof (induction s arbitrary: s' rule: ink.induct)
  case (2 c s)
  show ?case
  proof (cases "strip_space_rune (c # s)")
    case None
    obtain d t where s': "s' = d # t" "blank_moved c d" "list_all2 blank_moved s t" using 2(3) by (auto simp: list_all2_Cons1)
    have "strip_space_rune s' = None"
    proof (rule ccontr)
      assume "strip_space_rune s' \<noteq> None"
      then obtain r x where "r \<in> set space_runes" "s' = r @ x" by (auto simp: strip_space_rune_Some_iff)
      moreover then obtain r' x' where "c # s = r' @ x'" "list_all2 blank_moved r' r"
        using 2(3) by (auto simp: list_all2_append2)
      ultimately show False using None blank_moved_rune by (metis option.distinct(1) strip_space_rune_Some_iff)
    qed
    moreover have "c \<noteq> CHR '' ''" using None newline_rune(2) by (auto simp: strip_space_rune_None_iff)
    ultimately show ?thesis using 2(1)[OF None s'(3)] None s'(1,2) by (simp add: blank_moved_def)
  next
    case (Some t)
    then obtain r where r: "r \<in> set space_runes" "c # s = r @ t" by (auto simp: strip_space_rune_Some_iff)
    then obtain r' t' where s': "s' = r' @ t'" "list_all2 blank_moved r r'" "list_all2 blank_moved t t'"
      using 2(3) by (auto simp: list_all2_append1)
    then show ?thesis using 2(2)[OF Some s'(3)] Some ink_rune blank_moved_rune[OF r(1)] by simp
  qed
qed simp

lemma ReplaceAll2_blank: "list_all2 blank_moved s (ReplaceAll2 s x (CHR '' '') [x, CHR ''\<newline>''])"
proof -
  have [simp]: "blank_moved c c" "blank_moved (CHR '' '') (CHR ''\<newline>'')" for c by (simp_all add: blank_moved_def)
  show ?thesis by (induction s x "CHR '' ''" "[x, CHR ''\<newline>'']" rule: ReplaceAll2.induct) (auto simp: list_all2_same)
qed

lemma ink_ReplaceAll2_blank [simp]: "ink (ReplaceAll2 s x (CHR '' '') [x, CHR ''\<newline>'']) = ink s"
  using ink_blank_moved[OF ReplaceAll2_blank] by simp

end
