(* ===== verification/Retrieval.thy ===== *)
theory Retrieval
  imports Go_Value Go_Fields
begin

text \<open>
  \<open>ai/retrieval/pipeline.go\<close>: documents are split into sentences when they are indexed, sentences are
  scored by the share of query words they contain, and the best ones are joined into a context.
  \<open>Retrieval_Properties\<close> holds what is shown of it.
\<close>

section \<open>Division of small integers as floats\<close>

text \<open>
  \<open>float64(a) / float64(b)\<close> for \<open>a \<le> b < 2\<^sup>5\<^sup>3\<close>: both conversions are exact and the quotient is rounded
  to the nearest number with a 53-bit significand, ties to even. \<open>doublings a b\<close> counts how often \<open>a\<close>
  must be doubled to reach \<open>b\<close>, which places the leading bit.
\<close>

function doublings :: "nat \<Rightarrow> nat \<Rightarrow> nat" where
  "doublings a b = (if a = 0 \<or> b \<le> a then 0 else Suc (doublings (2 * a) b))"
  by pat_completeness auto
termination by (relation "measure (\<lambda>(a, b). b - a)") auto

declare doublings.simps [simp del]

definition div_even :: "nat \<Rightarrow> nat \<Rightarrow> nat" where
  "div_even n b =
     (let q = n div b; r = n mod b in
      if 2 * r < b \<or> (2 * r = b \<and> even q) then q else q + 1)"

definition ratio64 :: "nat \<Rightarrow> nat \<Rightarrow> rat" where
  "ratio64 a b = (let e = doublings a b + 52 in of_nat (div_even (a * 2 ^ e) b) / 2 ^ e)"

section \<open>Sorting a slice\<close>

text \<open>
  \<open>sort.Slice\<close> leaves the order of equal elements open. Every outcome is an insertion sort of some
  rearrangement of the slice, so the rearrangement is an argument.
\<close>

fun insert_by :: "('a \<Rightarrow> 'a \<Rightarrow> bool) \<Rightarrow> 'a \<Rightarrow> 'a list \<Rightarrow> 'a list" where
  "insert_by lt x [] = [x]"
| "insert_by lt x (y # ys) = (if lt y x then y # insert_by lt x ys else x # y # ys)"

definition sort_Slice :: "('a list \<Rightarrow> 'a list) \<Rightarrow> ('a \<Rightarrow> 'a \<Rightarrow> bool) \<Rightarrow> 'a list \<Rightarrow> 'a list" where
  "sort_Slice rearrange lt xs = foldr (insert_by lt) (rearrange xs) []"

section \<open>Types\<close>

record Document =
  docID :: string
  docContent :: string
  docMetadata :: "(string, string) gomap"

record Chunk =
  chID :: string
  chDocumentID :: string
  chContent :: string
  chEmbedding :: "gofloat list"
  chMetadata :: "(string, string) gomap"
  chScore :: gofloat

record RetrievalResult =
  rrQuery :: string
  rrChunks :: "Chunk list"
  rrContext :: string
  rrDuration :: int

record Pipeline =
  plDocs :: "(string, Document) gomap"
  plChunks :: "(string, Chunk list) gomap"

datatype retrieval_error = NoContext | NoDocumentID | NoContent | NoQuery | BadTopK | CtxErr string

definition NewPipeline :: Pipeline where
  "NewPipeline = \<lparr>plDocs = [], plChunks = []\<rparr>"

section \<open>Splitting\<close>

definition sentence_breaks :: "string \<Rightarrow> string" where
  "sentence_breaks text = fold (\<lambda>x t. ReplaceAll2 t x (CHR '' '') [x, CHR ''\<newline>'']) ''.!?'' text"

definition splitSentences :: "string \<Rightarrow> string list" where
  "splitSentences text0 =
     (let text = TrimSpace text0 in
      if text = [] then []
      else
        (let text = sentence_breaks text;
             result = filter (\<lambda>line. line \<noteq> []) (map TrimSpace (Split text (CHR ''\<newline>'')))
         in if length result = 0 then [text] else result))"

text \<open>\<open>fmt.Sprintf("%s-chunk-%d", doc.ID, i)\<close>\<close>

definition chunk_id :: "string \<Rightarrow> nat \<Rightarrow> string" where
  "chunk_id d i = d @ ''-chunk-'' @ show_nat i"

definition splitIntoChunks :: "Document \<Rightarrow> Chunk list" where
  "splitIntoChunks doc =
     map (\<lambda>(i, s). \<lparr>chID = chunk_id (docID doc) i, chDocumentID = docID doc, chContent = s,
            chEmbedding = [], chMetadata = docMetadata doc, chScore = FFin 0\<rparr>)
       (enumerate 0 (splitSentences (docContent doc)))"

section \<open>Scoring\<close>

definition tokenize :: "stdlib \<Rightarrow> string \<Rightarrow> (string, bool) gomap" where
  "tokenize L text =
     fold (\<lambda>w tokens. if length w > 1 then gm_put w True tokens else tokens) (Fields (to_lower L text)) []"

definition overlapScore :: "(string, bool) gomap \<Rightarrow> (string, bool) gomap \<Rightarrow> gofloat" where
  "overlapScore queryTokens chunkTokens =
     (if length queryTokens = 0 then FFin 0
      else
        (let overlap = length (filter (\<lambda>q. gm_get chunkTokens q = Some True) (gm_keys queryTokens))
         in FFin (ratio64 overlap (length queryTokens))))"

section \<open>Operations\<close>

definition Index :: "bool \<Rightarrow> Document \<Rightarrow> Pipeline \<Rightarrow> retrieval_error option \<times> Pipeline" where
  "Index ctx doc p =
     (if \<not> ctx then (Some NoContext, p)
      else if docID doc = [] then (Some NoDocumentID, p)
      else if docContent doc = [] then (Some NoContent, p)
      else
        (let metadata = fold (\<lambda>(k, v) m. gm_put k v m) (docMetadata doc) [];
             doc = doc\<lparr>docMetadata := metadata\<rparr>;
             chunks = splitIntoChunks doc
         in (None, p\<lparr>plDocs := gm_put (docID doc) doc (plDocs p), plChunks := gm_put (docID doc) chunks (plChunks p)\<rparr>)))"

text \<open>
  A context is \<open>None\<close> when nil, and otherwise says what \<open>ctx.Err()\<close> answers before the \<open>i\<close>-th
  document is added. \<open>collect\<close> is the loop over the index.
\<close>

fun collect :: "(nat \<Rightarrow> string option) \<Rightarrow> nat \<Rightarrow> Chunk list list \<Rightarrow> string + Chunk list" where
  "collect err i [] = Inr []"
| "collect err i (chunks # rest) = (case err i of
     Some e \<Rightarrow> Inl e
   | None \<Rightarrow> (case collect err (Suc i) rest of Inl e \<Rightarrow> Inl e | Inr cs \<Rightarrow> Inr (chunks @ cs)))"

definition score_chunk :: "stdlib \<Rightarrow> (string, bool) gomap \<Rightarrow> Chunk \<Rightarrow> Chunk" where
  "score_chunk L queryTokens c = c\<lparr>chScore := overlapScore queryTokens (tokenize L (chContent c))\<rparr>"

definition Retrieve ::
  "stdlib \<Rightarrow> (Chunk list \<Rightarrow> Chunk list) \<Rightarrow> int \<Rightarrow> (nat \<Rightarrow> string option) option \<Rightarrow> Pipeline \<Rightarrow> string \<Rightarrow> int \<Rightarrow>
   retrieval_error + RetrievalResult" where
  "Retrieve L rearrange elapsed ctx p query topK = (case ctx of
     None \<Rightarrow> Inl NoContext
   | Some err \<Rightarrow>
       if query = [] then Inl NoQuery
       else if topK \<le> 0 then Inl BadTopK
       else
         (let queryTokens = tokenize L query in
          case collect err 0 (gm_vals (plChunks p)) of
            Inl e \<Rightarrow> Inl (CtxErr e)
          | Inr found \<Rightarrow>
              (let allChunks = map (score_chunk L queryTokens) found;
                   allChunks = sort_Slice rearrange (\<lambda>a b. f_lt (chScore b) (chScore a)) allChunks;
                   topK = (if topK > int (length allChunks) then int (length allChunks) else topK)
               in Inr \<lparr>rrQuery = query, rrChunks = take (nat topK) allChunks, rrContext = [], rrDuration = elapsed\<rparr>)))"

fun context_parts :: "int \<Rightarrow> int \<Rightarrow> Chunk list \<Rightarrow> string list" where
  "context_parts maxLength totalLen [] = []"
| "context_parts maxLength totalLen (c # cs) =
     (if maxLength > 0 \<and> totalLen + int (length (chContent c)) > maxLength then
        (let remaining = maxLength - totalLen in
         if remaining > 0 then [take (nat remaining) (chContent c)] else [])
      else chContent c # context_parts maxLength (totalLen + int (length (chContent c))) cs)"

definition AssembleContext :: "Chunk list \<Rightarrow> int \<Rightarrow> string" where
  "AssembleContext chunks maxLength =
     (if length chunks = 0 then []
      else Join (context_parts maxLength 0 chunks) (''\<newline>\<newline>---\<newline>\<newline>''))"

end
