(* ===== verification/Retrieval_Properties.thy ===== *)
theory Retrieval_Properties
  imports Retrieval
begin

text \<open>
  The retrieval pipeline: rounding of scores never confuses two different overlaps, retrieval returns
  the best chunks, the index loses no visible content and its chunk identifiers are unique, and the
  assembled context is a cut of the chunks' contents with separators on top.
\<close>

section \<open>Scores order as overlaps do\<close>

lemma doublings_reach: "0 < a \<Longrightarrow> b \<le> a * 2 ^ doublings a b"
proof (induction a b rule: doublings.induct)
  case (1 a b)
  show ?case
  proof (cases "b \<le> a")
    case False
    with 1 show ?thesis by (simp add: doublings.simps[of a b] mult.assoc mult.left_commute)
  qed (use 1 in \<open>simp add: doublings.simps[of a b]\<close>)
qed

lemma doublings_pos: "0 < a \<Longrightarrow> a < b \<Longrightarrow> 0 < doublings a b"
  by (simp add: doublings.simps[of a b])

lemma div_even_error:
  assumes "0 < b"
  shows "\<bar>of_nat (div_even n b) - of_nat n / of_nat b\<bar> \<le> (1 / 2 :: rat)"
proof -
  let ?q = "of_nat (n div b) :: rat" and ?r = "of_nat (n mod b) :: rat" and ?b = "of_nat b :: rat"
  have b: "0 < ?b" using assms by simp
  have n: "(of_nat n :: rat) / ?b = ?q + ?r / ?b"
  proof -
    have "(of_nat n :: rat) = ?q * ?b + ?r" by (metis div_mult_mod_eq of_nat_add of_nat_mult)
    then show ?thesis using b by (simp add: field_simps)
  qed
  have r: "0 \<le> ?r / ?b" "?r / ?b \<le> 1" using assms by (simp_all add: less_imp_le)
  have two: "(of_nat (2 * (n mod b)) :: rat) = 2 * ?r" by simp
  have small: "?r / ?b \<le> 1 / 2" if "2 * (n mod b) \<le> b"
    using b of_nat_mono[OF that, where 'a = rat, unfolded two] by (simp add: pos_divide_le_eq del: of_nat_mult)
  have large: "1 / 2 \<le> ?r / ?b" if "b \<le> 2 * (n mod b)"
    using b of_nat_mono[OF that, where 'a = rat, unfolded two] by (simp add: pos_le_divide_eq del: of_nat_mult)
  consider "div_even n b = n div b" "2 * (n mod b) \<le> b" | "div_even n b = n div b + 1" "b \<le> 2 * (n mod b)"
    by (cases "2 * (n mod b) < b \<or> 2 * (n mod b) = b \<and> even (n div b)") (auto simp: div_even_def Let_def)
  then show ?thesis
  proof cases
    case 1
    then show ?thesis using n small r(1) by (simp del: of_nat_mult)
  next
    case 2
    then show ?thesis using n large r(2) by (simp add: abs_le_iff)
  qed
qed

lemma ratio64_error:
  assumes "0 < b"
  shows "\<bar>ratio64 a b - of_nat a / of_nat b\<bar> \<le> 1 / 2 ^ (doublings a b + 53)"
proof -
  let ?e = "doublings a b + 52"
  have "(of_nat a :: rat) / of_nat b = (of_nat (a * 2 ^ ?e) / of_nat b) / 2 ^ ?e" by simp
  then have "ratio64 a b - of_nat a / of_nat b = (of_nat (div_even (a * 2 ^ ?e) b) - of_nat (a * 2 ^ ?e) / of_nat b) / 2 ^ ?e"
    by (simp only: ratio64_def Let_def diff_divide_distrib)
  also have "\<bar>\<dots>\<bar> \<le> (1 / 2) / 2 ^ ?e"
    using divide_right_mono[OF div_even_error[OF assms, of "a * 2 ^ ?e"], of "2 ^ ?e"] by (simp only: abs_divide power_abs abs_numeral) simp
  finally show ?thesis by (simp add: power_add)
qed

lemma ratio64_ends: "0 < b \<Longrightarrow> ratio64 0 b = 0" "0 < b \<Longrightarrow> ratio64 b b = 1"
  by (simp_all add: ratio64_def doublings.simps div_even_def Let_def)

lemma ratio64_close:
  assumes "0 < b" "a \<le> b"
  shows "\<bar>ratio64 a b - of_nat a / of_nat b\<bar> \<le> 1 / 2 ^ 54"
proof -
  consider "a = 0" | "a = b" | "0 < a" "a < b" using assms by linarith
  then show ?thesis
  proof cases
    case 3
    have "2 ^ 54 \<le> (2 :: rat) ^ (doublings a b + 53)"
      using doublings_pos[OF 3] by (intro power_increasing) auto
    then have "1 / 2 ^ (doublings a b + 53) \<le> (1 :: rat) / 2 ^ 54" by (intro divide_left_mono) auto
    then show ?thesis using ratio64_error[OF assms(1), of a] by linarith
  qed (use assms ratio64_ends in simp_all)
qed

lemma ratio64_less:
  assumes "a < a'" "a' \<le> b" "b < 2 ^ 53"
  shows "ratio64 a b < ratio64 a' b"
proof -
  have b: "0 < (of_nat b :: rat)" "0 < b" using assms by auto
  have "(of_nat b :: rat) < 2 ^ 53" using assms(3) by (metis of_nat_less_iff of_nat_numeral of_nat_power)
  then have "1 / 2 ^ 53 < (1 :: rat) / of_nat b" using b(1) by (intro divide_strict_left_mono) auto
  moreover have "(1 :: rat) / of_nat b \<le> of_nat a' / of_nat b - of_nat a / of_nat b"
    unfolding diff_divide_distrib[symmetric]
    using of_nat_mono[OF Suc_leI[OF assms(1)], where 'a = rat] b(1) by (intro divide_right_mono) simp_all
  moreover have "\<bar>ratio64 a b - of_nat a / of_nat b\<bar> \<le> 1 / 2 ^ 54" "\<bar>ratio64 a' b - of_nat a' / of_nat b\<bar> \<le> 1 / 2 ^ 54"
    using ratio64_close[OF b(2)] assms(1,2) by simp_all
  moreover have "(1 :: rat) / 2 ^ 54 + 1 / 2 ^ 54 = 1 / 2 ^ 53" by simp
  ultimately show ?thesis unfolding abs_le_iff by linarith
qed

lemma ratio64_le_iff: "a \<le> b \<Longrightarrow> a' \<le> b \<Longrightarrow> b < 2 ^ 53 \<Longrightarrow> ratio64 a b \<le> ratio64 a' b \<longleftrightarrow> a \<le> a'"
  by (metis linorder_le_less_linear nle_le order.strict_iff_not ratio64_less)

lemma ratio64_range: "a \<le> b \<Longrightarrow> 0 < b \<Longrightarrow> b < 2 ^ 53 \<Longrightarrow> 0 \<le> ratio64 a b \<and> ratio64 a b \<le> 1"
  using ratio64_le_iff[of 0 b a] ratio64_le_iff[of a b b] by (simp add: ratio64_ends)

section \<open>Sorting\<close>

lemma mset_insert_by [simp]: "mset (insert_by lt x ys) = add_mset x (mset ys)"
  by (induction ys) auto

lemma mset_sort_Slice: "mset (rearrange xs) = mset xs \<Longrightarrow> mset (sort_Slice rearrange lt xs) = mset xs"
proof -
  have "mset (foldr (insert_by lt) ys []) = mset ys" for ys by (induction ys) auto
  then show "mset (rearrange xs) = mset xs \<Longrightarrow> ?thesis" by (simp add: sort_Slice_def)
qed

text \<open>For an order given by a key, the sort puts larger keys first.\<close>

lemma sorted_insert_by:
  fixes key :: "'a \<Rightarrow> nat"
  assumes "\<And>y. y \<in> set ys \<Longrightarrow> lt y x \<longleftrightarrow> key x < key y" and "sorted_wrt (\<lambda>a b. key b \<le> key a) ys"
  shows "sorted_wrt (\<lambda>a b. key b \<le> key a) (insert_by lt x ys)"
  using assms
proof (induction ys)
  case (Cons y ys)
  have "set (insert_by lt x ys) = insert x (set ys)" by (metis mset_insert_by set_mset_add_mset_insert set_mset_mset)
  with Cons show ?case by (auto simp: not_less intro: order.trans)
qed simp

lemma sorted_sort_Slice:
  fixes key :: "'a \<Rightarrow> nat"
  assumes "\<And>x y. x \<in> set xs \<Longrightarrow> y \<in> set xs \<Longrightarrow> lt y x \<longleftrightarrow> key x < key y" and "mset (rearrange xs) = mset xs"
  shows "sorted_wrt (\<lambda>a b. key b \<le> key a) (sort_Slice rearrange lt xs)"
proof -
  have "sorted_wrt (\<lambda>a b. key b \<le> key a) (foldr (insert_by lt) ys []) \<and> set (foldr (insert_by lt) ys []) = set ys"
    if "set ys \<subseteq> set xs" for ys
    using that
  proof (induction ys)
    case (Cons y ys)
    have "set (insert_by lt y zs) = insert y (set zs)" for zs by (metis mset_insert_by set_mset_add_mset_insert set_mset_mset)
    with Cons assms(1) show ?case by (auto intro!: sorted_insert_by)
  qed simp
  moreover have "set (rearrange xs) = set xs" using assms(2) by (rule mset_eq_setD)
  ultimately show ?thesis by (simp add: sort_Slice_def)
qed

section \<open>Words\<close>

definition word_set :: "stdlib \<Rightarrow> string \<Rightarrow> string set" where
  "word_set L t = {w \<in> set (Fields (to_lower L t)). 1 < length w}"

lemma gm_wf_put_all: "gm_wf m \<Longrightarrow> gm_wf (fold (\<lambda>w m. if P w then gm_put w v m else m) ws m)"
  by (induction ws arbitrary: m) auto

lemma gm_get_put_all: "gm_get (fold (\<lambda>w m. if P w then gm_put w v m else m) ws m) k =
    (if P k \<and> k \<in> set ws then Some v else gm_get m k)"
  by (induction ws arbitrary: m) auto

lemma tokenize_get: "gm_get (tokenize L t) k = (if k \<in> word_set L t then Some True else None)"
  by (auto simp: tokenize_def gm_get_put_all word_set_def)

lemma tokenize_keys: "distinct (gm_keys (tokenize L t))" "set (gm_keys (tokenize L t)) = word_set L t"
proof -
  show "distinct (gm_keys (tokenize L t))"
    using gm_wf_put_all[of "[]"] by (simp add: tokenize_def gm_wf_def gm_keys_def)
  show "set (gm_keys (tokenize L t)) = word_set L t"
    by (auto simp: gm_has_keys[symmetric] gm_has_def tokenize_get split: if_splits)
qed

lemma tokenize_length: "length (tokenize L t) = card (word_set L t)"
  using distinct_card[OF tokenize_keys(1)] tokenize_keys(2) by (simp add: gm_keys_def)

definition hits :: "stdlib \<Rightarrow> string \<Rightarrow> string \<Rightarrow> nat" where
  "hits L query content = card (word_set L query \<inter> word_set L content)"

lemma finite_word_set [simp]: "finite (word_set L t)"
  by (simp add: word_set_def)

lemma hits_le: "hits L query content \<le> card (word_set L query)"
  by (auto simp: hits_def intro: card_mono)

lemma overlapScore_hits:
  "overlapScore (tokenize L query) (tokenize L content) =
     (if word_set L query = {} then FFin 0 else FFin (ratio64 (hits L query content) (card (word_set L query))))"
proof -
  have "length (filter (\<lambda>q. gm_get (tokenize L content) q = Some True) (gm_keys (tokenize L query))) = hits L query content"
    using distinct_card[OF distinct_filter[OF tokenize_keys(1)[of L query]], symmetric] tokenize_keys(2)[of L query]
    by (auto simp: tokenize_get hits_def Int_def intro!: arg_cong[where f = card])
  then show ?thesis by (auto simp: overlapScore_def tokenize_length)
qed

lemma score_less_iff:
  assumes "card (word_set L query) < 2 ^ 53"
  shows "f_lt (chScore (score_chunk L (tokenize L query) c)) (chScore (score_chunk L (tokenize L query) d)) \<longleftrightarrow>
    hits L query (chContent c) < hits L query (chContent d)"
proof (cases "word_set L query = {}")
  case True
  then show ?thesis by (simp add: score_chunk_def overlapScore_hits hits_def)
next
  case False
  then show ?thesis using assms ratio64_le_iff[OF hits_le hits_le assms, of "chContent d" "chContent c"]
    by (simp add: score_chunk_def overlapScore_hits not_le[symmetric])
qed

section \<open>Retrieval\<close>

definition indexed :: "Pipeline \<Rightarrow> Chunk list" where
  "indexed p = concat (gm_vals (plChunks p))"

lemma collect_ok: "(\<And>k. err k = None) \<Longrightarrow> collect err i css = Inr (concat css)"
  by (induction css arbitrary: i) auto

lemma collect_err: "collect err i css = Inl e \<longleftrightarrow> (\<exists>k < length css. err (i + k) = Some e \<and> (\<forall>j < k. err (i + j) = None))"
proof (induction css arbitrary: i)
  case (Cons cs css)
  show ?case
  proof (cases "err i")
    case None
    have "(\<exists>k < Suc n. P k) \<longleftrightarrow> P 0 \<or> (\<exists>k < n. P (Suc k))" for P n by (auto simp: less_Suc_eq_0_disj)
    then show ?thesis using None Cons[of "Suc i"] by (auto simp: All_less_Suc2 split: sum.splits)
  next
    case (Some x)
    have "x = e" if "err (i + k) = Some e" "\<forall>j < k. err (i + j) = None" for k
      using that Some by (cases k) auto
    then show ?thesis using Some by auto
  qed
qed simp

lemma Retrieve_chunks:
  assumes "mset (rearrange (map (score_chunk L (tokenize L query)) (indexed p))) = mset (map (score_chunk L (tokenize L query)) (indexed p))"
    and "\<And>i. err i = None" and "query \<noteq> []" and "0 < topK" and "card (word_set L query) < 2 ^ 53"
  shows "\<exists>r rest. Retrieve L rearrange elapsed (Some err) p query topK = Inr r \<and>
    length (rrChunks r) = min (nat topK) (length (indexed p)) \<and>
    mset (rrChunks r @ rest) = mset (map (score_chunk L (tokenize L query)) (indexed p)) \<and>
    sorted_wrt (\<lambda>c d. hits L query (chContent d) \<le> hits L query (chContent c)) (rrChunks r @ rest)"
proof -
  let ?score = "score_chunk L (tokenize L query)"
  let ?xs = "map ?score (indexed p)" and ?lt = "\<lambda>a b. f_lt (chScore b) (chScore a)"
  define ys where "ys = sort_Slice rearrange ?lt ?xs"
  define k where "k = nat (if topK > int (length ys) then int (length ys) else topK)"
  have ms: "mset ys = mset ?xs" unfolding ys_def using assms(1) by (rule mset_sort_Slice)
  have "?lt y x \<longleftrightarrow> hits L query (chContent x) < hits L query (chContent y)" if "x \<in> set ?xs" "y \<in> set ?xs" for x y
    using that score_less_iff[OF assms(5)] by (auto simp: score_chunk_def)
  from sorted_sort_Slice[where key = "\<lambda>c. hits L query (chContent c)" and rearrange = rearrange and xs = ?xs and lt = ?lt, OF this assms(1)]
  have so: "sorted_wrt (\<lambda>c d. hits L query (chContent d) \<le> hits L query (chContent c)) ys" by (simp add: ys_def)
  have "length ys = length (indexed p)" using mset_eq_length[OF ms] by simp
  then have "length (take k ys) = min (nat topK) (length (indexed p))" by (auto simp: k_def)
  moreover define r where "r = \<lparr>rrQuery = query, rrChunks = take k ys, rrContext = [], rrDuration = elapsed\<rparr>"
  moreover have "Retrieve L rearrange elapsed (Some err) p query topK = Inr r"
    using assms(3,4) by (simp add: Retrieve_def collect_ok assms(2) indexed_def[symmetric] ys_def[symmetric] k_def r_def Let_def)
  ultimately show ?thesis using ms so by (intro exI[of _ r] exI[of _ "drop k ys"]) simp
qed

text \<open>C23. 
  A retrieval with a live context, a query and a positive count returns as many chunks as were
  asked for or as there are. They are chunks of the index; their scores are the share of the query's
  words they contain, rounded to a float between 0 and 1; they come in descending order of the number
  of shared words, and no chunk left out shares more words with the query than one returned, whatever
  the order in which the map is visited and equal scores are arranged.
\<close>
theorem Retrieve_best_first:
  assumes "\<forall>xs. mset (rearrange xs) = mset xs" and "\<forall>i. err i = None" and "query \<noteq> []" and "0 < topK"
    and "card (word_set L query) < 2 ^ 53"
  shows "\<exists>r rest. Retrieve L rearrange elapsed (Some err) p query topK = Inr r \<and>
    length (rrChunks r) = min (nat topK) (length (indexed p)) \<and>
    mset (map (\<lambda>c. (chID c, chDocumentID c, chContent c)) (rrChunks r @ rest)) =
      mset (map (\<lambda>c. (chID c, chDocumentID c, chContent c)) (indexed p)) \<and>
    (\<forall>c \<in> set (rrChunks r). \<exists>q. chScore c = FFin q \<and> 0 \<le> q \<and> q \<le> 1 \<and>
       \<bar>q - of_nat (hits L query (chContent c)) / of_nat (card (word_set L query))\<bar> \<le> 1 / 2 ^ 54) \<and>
    sorted_wrt (\<lambda>c d. hits L query (chContent d) \<le> hits L query (chContent c)) (rrChunks r) \<and>
    (\<forall>c \<in> set (rrChunks r). \<forall>d \<in> set rest. hits L query (chContent d) \<le> hits L query (chContent c))"
proof -
  let ?score = "score_chunk L (tokenize L query)" and ?key = "\<lambda>c. (chID c, chDocumentID c, chContent c)"
  obtain r rest where r: "Retrieve L rearrange elapsed (Some err) p query topK = Inr r"
    "length (rrChunks r) = min (nat topK) (length (indexed p))" "mset (rrChunks r @ rest) = mset (map ?score (indexed p))"
    "sorted_wrt (\<lambda>c d. hits L query (chContent d) \<le> hits L query (chContent c)) (rrChunks r @ rest)"
    using Retrieve_chunks[of rearrange L query p err topK elapsed] assms by blast
  have keys: "?key \<circ> ?score = ?key" by (auto simp: score_chunk_def)
  have "mset (map ?key (rrChunks r @ rest)) = mset (map ?key (indexed p))"
    using arg_cong[OF r(3), of "image_mset ?key"] by (simp only: mset_map[symmetric] map_map keys)
  moreover have "\<exists>q. chScore c = FFin q \<and> 0 \<le> q \<and> q \<le> 1 \<and>
       \<bar>q - of_nat (hits L query (chContent c)) / of_nat (card (word_set L query))\<bar> \<le> 1 / 2 ^ 54" if "c \<in> set (rrChunks r)" for c
  proof -
    from that mset_eq_setD[OF r(3)] obtain d where "c = ?score d" by auto
    moreover have "0 < card (word_set L query)" if "word_set L query \<noteq> {}" using that by (simp add: card_gt_0_iff)
    ultimately show ?thesis using ratio64_range[OF hits_le _ assms(5)] ratio64_close[OF _ hits_le]
      by (auto simp: score_chunk_def overlapScore_hits)
  qed
  ultimately show ?thesis using r(1,2,4) by (intro exI[of _ r] exI[of _ rest]) (simp add: sorted_wrt_append)
qed

section \<open>Sentences\<close>

lemma ink_sentence_breaks [simp]: "ink (sentence_breaks t) = ink t"
  by (simp add: sentence_breaks_def)

lemma ink_concat_nonempty: "concat (map ink (filter (\<lambda>w. w \<noteq> []) ws)) = concat (map ink ws)"
  by (induction ws) auto

lemma splitSentences_lines:
  "splitSentences t = filter (\<lambda>w. w \<noteq> []) (map TrimSpace (Split (sentence_breaks (TrimSpace t)) (CHR ''\<newline>'')))"
  (is "_ = ?lines")
proof -
  have ink: "concat (map ink ?lines) = ink t"
    using ink_lines[of "sentence_breaks (TrimSpace t)"] by (simp add: ink_concat_nonempty comp_def)
  show ?thesis
  proof (cases "TrimSpace t = []")
    case True
    then show ?thesis by (simp add: splitSentences_def sentence_breaks_def)
  next
    case False
    then have "ink t \<noteq> []" by (simp add: ink_Nil_iff)
    with ink have "?lines \<noteq> []" by auto
    with False show ?thesis by (simp add: splitSentences_def Let_def)
  qed
qed

lemma splitSentences_ink: "concat (map ink (splitSentences t)) = ink t"
  unfolding splitSentences_lines
  using ink_lines[of "sentence_breaks (TrimSpace t)"] by (simp add: ink_concat_nonempty comp_def)

lemma splitSentences_trimmed: "w \<in> set (splitSentences t) \<Longrightarrow> w \<noteq> [] \<and> TrimSpace w = w"
  by (auto simp: splitSentences_lines)

section \<open>The index\<close>

lemma chunk_id_inject [simp]:
  "chunk_id a i = chunk_id b j \<longleftrightarrow> a = b \<and> i = j"
proof -
  have last: "x = x' \<and> y = y'" if "x @ CHR ''-'' # y = x' @ CHR ''-'' # y'" "CHR ''-'' \<notin> set y" "CHR ''-'' \<notin> set y'" for x x' y y' :: string
    using that by (auto simp: append_eq_append_conv2 Cons_eq_append_conv append_eq_Cons_conv)
  have "chunk_id a i = (a @ ''-chunk'') @ CHR ''-'' # show_nat i"
    "chunk_id b j = (b @ ''-chunk'') @ CHR ''-'' # show_nat j" by (simp_all add: chunk_id_def)
  with last[of "a @ ''-chunk''" "show_nat i" "b @ ''-chunk''" "show_nat j"] show ?thesis
    using show_nat_no_minus by auto
qed

lemma splitIntoChunks_ids: "map chID (splitIntoChunks d) = map (chunk_id (docID d)) [0..<length (splitSentences (docContent d))]"
  by (auto simp: splitIntoChunks_def enumerate_eq_zip intro!: nth_equalityI)

lemma splitIntoChunks_content: "map chContent (splitIntoChunks d) = splitSentences (docContent d)"
  by (auto simp: splitIntoChunks_def enumerate_eq_zip intro!: nth_equalityI)

lemma splitIntoChunks_doc: "c \<in> set (splitIntoChunks d) \<Longrightarrow> chDocumentID c = docID d"
  by (auto simp: splitIntoChunks_def)

lemma splitIntoChunks_distinct: "distinct (map chID (splitIntoChunks d))"
  by (simp add: splitIntoChunks_ids distinct_map inj_on_def)

lemma distinct_all_ids:
  "distinct (map docID ds) \<Longrightarrow> distinct (map chID (concat (map splitIntoChunks ds)))"
proof (induction ds)
  case (Cons d ds)
  have "set (map chID (splitIntoChunks d)) \<inter> set (map chID (splitIntoChunks e)) = {}" if "e \<in> set ds" for e
    using Cons.prems that unfolding splitIntoChunks_ids by auto
  with Cons splitIntoChunks_distinct[of d] show ?case by fastforce
qed simp

lemma gm_put_map: "gm_put k (f v) (map (\<lambda>(k, v). (k, f v)) m) = map (\<lambda>(k, v). (k, f v)) (gm_put k v m)"
  by (induction m) (auto simp: gm_put_def)

lemma metadata_copy: "gm_wf (m' @ m) \<Longrightarrow> fold (\<lambda>(k, v) m. gm_put k v m) m m' = m' @ m"
proof (induction m arbitrary: m')
  case (Cons kv m)
  obtain k v where kv: "kv = (k, v)" by force
  have "\<not> gm_has m' k" using Cons.prems kv by (auto simp: gm_wf_def gm_has_keys gm_keys_def)
  with Cons.IH[of "m' @ [kv]"] Cons.prems kv show ?case by (simp add: gm_put_new)
qed simp

definition pipeline_inv :: "Pipeline \<Rightarrow> bool" where
  "pipeline_inv p \<longleftrightarrow> gm_wf (plDocs p) \<and> plChunks p = map (\<lambda>(k, d). (k, splitIntoChunks d)) (plDocs p) \<and>
     (\<forall>(k, d) \<in> set (plDocs p). docID d = k \<and> k \<noteq> [] \<and> docContent d \<noteq> [])"

inductive pipeline_reachable :: "Pipeline \<Rightarrow> bool" where
  new: "pipeline_reachable NewPipeline"
| index: "pipeline_reachable p \<Longrightarrow> gm_wf (docMetadata doc) \<Longrightarrow> pipeline_reachable (snd (Index ctx doc p))"

lemma Index_done:
  assumes "gm_wf (docMetadata doc)"
  shows "Index ctx doc p =
    (if \<not> ctx then (Some NoContext, p) else if docID doc = [] then (Some NoDocumentID, p)
     else if docContent doc = [] then (Some NoContent, p)
     else (None, p\<lparr>plDocs := gm_put (docID doc) doc (plDocs p), plChunks := gm_put (docID doc) (splitIntoChunks doc) (plChunks p)\<rparr>))"
proof -
  have copy: "fold (\<lambda>(k, v) m. gm_put k v m) (docMetadata doc) [] = docMetadata doc"
    using metadata_copy[of "[]" "docMetadata doc"] assms by simp
  show ?thesis unfolding Index_def Let_def copy by simp
qed

lemma pipeline_reachable_inv: "pipeline_reachable p \<Longrightarrow> pipeline_inv p"
proof (induction rule: pipeline_reachable.induct)
  case new
  show ?case by (simp add: pipeline_inv_def NewPipeline_def)
next
  case (index p doc ctx)
  then show ?case
    by (auto simp: Index_done pipeline_inv_def gm_put_map gm_put_set split: if_splits)
qed

text \<open>C30. 
  After any sequence of calls of \<open>Index\<close>, failed ones included, the chunks of a stored document
  hold all of its visible content in order, each chunk is non-empty, trimmed and marked with its document,
  and no two chunks of the whole index share an identifier.
\<close>
theorem Index_invariant:
  assumes "pipeline_reachable p"
  shows "distinct (map chID (indexed p)) \<and>
    (\<forall>k. gm_has (plChunks p) k = gm_has (plDocs p) k) \<and>
    (\<forall>k doc. gm_get (plDocs p) k = Some doc \<longrightarrow> (\<exists>cs. gm_get (plChunks p) k = Some cs \<and>
       concat (map (\<lambda>c. ink (chContent c)) cs) = ink (docContent doc) \<and>
       (\<forall>c \<in> set cs. chDocumentID c = k \<and> chContent c \<noteq> [] \<and> TrimSpace (chContent c) = chContent c)))"
proof -
  have inv: "gm_wf (plDocs p)" "plChunks p = map (\<lambda>(k, d). (k, splitIntoChunks d)) (plDocs p)"
    "\<And>k d. (k, d) \<in> set (plDocs p) \<Longrightarrow> docID d = k"
    using pipeline_reachable_inv[OF assms] by (auto simp: pipeline_inv_def)
  have get: "gm_get (plChunks p) k = map_option splitIntoChunks (gm_get (plDocs p) k)" for k
    by (simp add: inv(2) gm_get_def map_of_map)
  have "map docID (map snd (plDocs p)) = map fst (plDocs p)" using inv(3) by auto
  then have "distinct (map docID (map snd (plDocs p)))" using inv(1) by (simp only: gm_wf_def)
  from distinct_all_ids[OF this] have ids: "distinct (map chID (indexed p))"
    by (simp add: indexed_def inv(2) gm_vals_def comp_def case_prod_beta)
  have "concat (map (\<lambda>c. ink (chContent c)) (splitIntoChunks d)) = ink (docContent d)" for d
    using splitSentences_ink[of "docContent d"] by (simp add: splitIntoChunks_content[symmetric] comp_def)
  moreover have "chContent c \<noteq> [] \<and> TrimSpace (chContent c) = chContent c" if "c \<in> set (splitIntoChunks d)" for c d
    using splitSentences_trimmed[of "chContent c" "docContent d"] that by (force simp: splitIntoChunks_content[symmetric])
  ultimately show ?thesis
    using ids inv(3) by (auto simp: get gm_has_def dest!: gm_get_SomeD splitIntoChunks_doc)
qed

section \<open>Contexts\<close>

lemma context_parts_cut:
  "0 < m \<Longrightarrow> 0 \<le> t \<Longrightarrow> t \<le> m \<Longrightarrow> concat (context_parts m t cs) = take (nat (m - t)) (concat (map chContent cs))"
proof (induction cs arbitrary: t)
  case (Cons c cs)
  let ?n = "int (length (chContent c))"
  show ?case
  proof (cases "t + ?n > m")
    case False
    then have "nat (m - t) = length (chContent c) + nat (m - (t + ?n))" by simp
    with False Cons show ?thesis by simp
  qed (use Cons.prems in \<open>auto simp: Let_def\<close>)
qed simp

lemma context_parts_all: "m \<le> 0 \<Longrightarrow> context_parts m t cs = map chContent cs"
  by (induction cs arbitrary: t) auto

lemma length_Join: "length (Join ws sep) = length (concat ws) + length sep * (length ws - 1)"
  by (induction ws rule: induct_list012) auto

lemma context_parts_prefix: "0 < m \<Longrightarrow> 0 \<le> t \<Longrightarrow> t \<le> m \<Longrightarrow>
    \<exists>k. k \<le> length cs \<and> list_all2 prefix (context_parts m t cs) (map chContent (take k cs)) \<and>
      butlast (context_parts m t cs) = map chContent (take (k - 1) cs)"
proof (induction cs arbitrary: t)
  case (Cons c cs)
  let ?n = "int (length (chContent c))"
  show ?case
  proof (cases "t + ?n > m")
    case True
    show ?thesis
    proof (cases "t < m")
      case True
      with \<open>t + ?n > m\<close> Cons.prems show ?thesis by (intro exI[of _ 1]) (simp add: Let_def take_is_prefix)
    next
      case False
      with \<open>t + ?n > m\<close> Cons.prems show ?thesis by (intro exI[of _ 0]) (simp add: Let_def)
    qed
  next
    case False
    with Cons.IH[of "t + ?n"] Cons.prems obtain k where k: "k \<le> length cs"
      "list_all2 prefix (context_parts m (t + ?n) cs) (map chContent (take k cs))"
      "butlast (context_parts m (t + ?n) cs) = map chContent (take (k - 1) cs)" by auto
    have "context_parts m (t + ?n) cs = [] \<longleftrightarrow> k = 0" using k(1) list_all2_lengthD[OF k(2)] by (cases "context_parts m (t + ?n) cs") auto
    with False k show ?thesis by (intro exI[of _ "Suc k"]) (cases k, auto)
  qed
qed (auto intro: exI[of _ 0])

text \<open>C36. 
  The context consists of the contents of the first chunks, only the last of them shortened,
  joined by a line of dashes. The contents together are the first \<open>maxLength\<close> bytes of all contents, or all
  of them when \<open>maxLength\<close> is not positive; the separators come on top, seven bytes for each joint.
\<close>
theorem AssembleContext_cut:
  "\<exists>parts. AssembleContext chunks maxLength = Join parts ''\<newline>\<newline>---\<newline>\<newline>'' \<and>
     concat parts = (if maxLength > 0 then take (nat maxLength) (concat (map chContent chunks)) else concat (map chContent chunks)) \<and>
     (\<exists>k. list_all2 prefix parts (map chContent (take k chunks)) \<and> butlast parts = map chContent (take (k - 1) chunks)) \<and>
     length (AssembleContext chunks maxLength) = length (concat parts) + 7 * (length parts - 1)"
proof (rule exI[of _ "context_parts maxLength 0 chunks"], intro conjI)
  show "AssembleContext chunks maxLength = Join (context_parts maxLength 0 chunks) ''\<newline>\<newline>---\<newline>\<newline>''"
    by (simp add: AssembleContext_def)
  then show "length (AssembleContext chunks maxLength) =
      length (concat (context_parts maxLength 0 chunks)) + 7 * (length (context_parts maxLength 0 chunks) - 1)"
    by (simp add: length_Join)
  show "concat (context_parts maxLength 0 chunks) =
      (if maxLength > 0 then take (nat maxLength) (concat (map chContent chunks)) else concat (map chContent chunks))"
    using context_parts_cut[of maxLength 0 chunks] by (simp add: context_parts_all)
  show "\<exists>k. list_all2 prefix (context_parts maxLength 0 chunks) (map chContent (take k chunks)) \<and>
      butlast (context_parts maxLength 0 chunks) = map chContent (take (k - 1) chunks)"
  proof (cases "maxLength > 0")
    case False
    then show ?thesis
      by (intro exI[of _ "length chunks"]) (simp add: context_parts_all list_all2_same butlast_conv_take take_map)
  qed (use context_parts_prefix[of maxLength 0 chunks] in auto)
qed

text \<open>The result exceeds \<open>maxLength\<close> by any number of separators.\<close>

lemma AssembleContext_overflow:
  "length (AssembleContext (replicate (Suc n) (c\<lparr>chContent := ''x''\<rparr>)) (int (Suc n))) = Suc n + 7 * n"
proof -
  have parts: "context_parts m t (replicate n (c\<lparr>chContent := ''x''\<rparr>)) = replicate n ''x''" if "t + int n \<le> m" for m t n
    using that by (induction n arbitrary: t) auto
  have "concat (replicate n ''x'') = replicate n (CHR ''x'')" for n by (induction n) auto
  then show ?thesis
    using parts[of 0 "Suc n" "int (Suc n)"] by (simp add: AssembleContext_def length_Join del: replicate_Suc)
qed

section \<open>Examples\<close>

definition sample_doc :: Document where
  "sample_doc = \<lparr>docID = ''d'', docContent = ''Red fox. Blue sky'', docMetadata = []\<rparr>"

definition sample_pipeline :: Pipeline where
  "sample_pipeline = snd (Index True sample_doc NewPipeline)"

definition fox_chunk :: "string \<Rightarrow> string \<Rightarrow> Chunk" where
  "fox_chunk cid t = \<lparr>chID = cid, chDocumentID = ''d'', chContent = t, chEmbedding = [], chMetadata = [], chScore = FFin 0\<rparr>"

lemma fox_chunks: "plChunks sample_pipeline = [(''d'', [fox_chunk ''d-chunk-0'' ''Red fox.'', fox_chunk ''d-chunk-1'' ''Blue sky''])]"
proof -
  have "splitSentences ''Red fox. Blue sky'' = [''Red fox.'', ''Blue sky'']"
    by (simp add: splitSentences_lines sentence_breaks_def TrimSpace_visible visible_def)
  moreover have "digit 0 = CHR ''0''" "digit (Suc 0) = CHR ''1''" by code_simp+
  then have "chunk_id ''d'' 0 = ''d-chunk-0''" "chunk_id ''d'' (Suc 0) = ''d-chunk-1''"
    by (simp_all add: chunk_id_def show_nat.simps)
  ultimately show ?thesis
    by (simp add: sample_pipeline_def sample_doc_def Index_done NewPipeline_def splitIntoChunks_def gm_put_def fox_chunk_def)
qed

theorem Index_invariant_witness:
  "map chID (indexed sample_pipeline) = [''d-chunk-0'', ''d-chunk-1''] \<and> distinct (map chID (indexed sample_pipeline)) \<and>
   ink ''Red fox.'' @ ink ''Blue sky'' = ink ''Red fox. Blue sky''"
proof -
  have "pipeline_reachable sample_pipeline"
    unfolding sample_pipeline_def by (intro pipeline_reachable.intros) (simp add: sample_doc_def)
  moreover have "gm_get (plDocs sample_pipeline) ''d'' = Some sample_doc"
    by (simp add: sample_pipeline_def Index_done sample_doc_def)
  ultimately show ?thesis
    using Index_invariant[of sample_pipeline] by (fastforce simp: indexed_def gm_vals_def fox_chunks fox_chunk_def sample_doc_def simp del: ink.simps)
qed

theorem Retrieve_best_first_witness:
  "\<exists>r. Retrieve plain_lib rev 5 (Some (\<lambda>i. None)) sample_pipeline ''Blue car'' 1 = Inr r \<and> length (rrChunks r) = 1"
proof -
  have "word_set plain_lib ''Blue car'' = {''Blue'', ''car''}"
    by (auto simp: word_set_def plain_lib_def Fields_eval simp del: FieldsAcc.simps(2))
  then have "card (word_set plain_lib ''Blue car'') < 2 ^ 53" by simp
  then show ?thesis
    using Retrieve_best_first[of rev "\<lambda>i. None" "''Blue car''" 1 plain_lib 5 sample_pipeline]
    by (auto simp: indexed_def gm_vals_def fox_chunks)
qed

end
