(* ===== verification/Audit_Events.thy ===== *)
theory Audit_Events
  imports Go_Value Map_Store
begin

text \<open>
  Package \<open>audit\<close>: events (\<open>event.go\<close>), the envelope they are reported in (\<open>envelope.go\<close>) and the emitter
  that hands them to subscribers (\<open>emitter.go\<close>). Subscribers are code of other repositories: a subscriber
  is a handle, and what its methods answer is an argument of the emitter's operations.
\<close>

section \<open>Events (event.go)\<close>

record AuditEvent =
  aeID :: string
  aeTenantID :: string
  aeUserID :: string
  aeRequestID :: string
  aeAction :: string
  aeResource :: string
  aeOutcome :: string
  aeDuration :: "64 word"
  aeMetadata :: "(string, string) gomap"
  aeTimestamp :: int
  aeActorID :: string
  aeSource :: string
  aeStepID :: string
  aeStepName :: string
  aeStepType :: string
  aeStatus :: string
  aeToolInput :: "(string, goval) gomap"
  aeToolOutput :: goval
  aeError :: string
  aeTraceID :: string

section \<open>Envelopes (envelope.go)\<close>

datatype EventType =
    EventStepStarted | EventStepCompleted | EventStepFailed
  | EventReasoningTurn
  | EventPolicyAllowed | EventPolicyDenied
  | EventAdminProviderCreated | EventAdminProviderUpdated | EventAdminKeyCreated | EventAdminKeyDeleted
  | EventAdminSkillDisabled | EventAdminSkillEnabled | EventAdminSkillReloaded
  | EventSystemStarted | EventSystemStopped | EventSystemDegraded
  | EventPlanReplanned

datatype Severity = SeverityInfo | SeverityWarn | SeverityError

text \<open>Sources are open: an event may carry any name. These are the ones the code infers.\<close>

definition SourceExecutor :: string where "SourceExecutor = ''executor''"
definition SourcePolicy :: string where "SourcePolicy = ''policy''"
definition SourceAdmin :: string where "SourceAdmin = ''admin_api''"
definition SourceReasoning :: string where "SourceReasoning = ''reasoning_loop''"

record AuditEnvelope =
  enEventID :: string
  enTraceID :: string
  enTimestamp :: int
  enTenantID :: string
  enUserID :: string
  enExecutionID :: string
  enSessionID :: string
  enStepID :: string
  enStepName :: string
  enEventType :: EventType
  enSeverity :: Severity
  enSource :: string
  enAction :: string
  enResource :: string
  enOutcome :: string
  enDurationMs :: int
  enError :: string
  enMetadata :: "(string, string) gomap"
  enPayload :: "string option"

definition inferEventType :: "AuditEvent \<Rightarrow> EventType" where
  "inferEventType e =
     (let rest =
        (if aeStatus e = ''failed'' \<or> aeError e \<noteq> [] then EventStepFailed
         else if aeStepID e \<noteq> [] then EventStepCompleted
         else EventStepCompleted)
      in
      if aeAction e \<noteq> [] then
        (if aeAction e = ''harness.replan'' then EventPlanReplanned
         else if aeAction e = ''policy.enforce'' \<or> aeAction e = ''policy.check''
         then (if aeOutcome e = ''denied'' then EventPolicyDenied else EventPolicyAllowed)
         else if aeStepID e \<noteq> [] \<and> aeStatus e = ''started'' then EventStepStarted
         else if aeStepID e \<noteq> [] \<and> aeStatus e = ''completed'' then EventStepCompleted
         else if aeStepID e \<noteq> [] \<and> aeStatus e = ''failed'' then EventStepFailed
         else rest)
      else rest)"

definition inferSeverity :: "AuditEvent \<Rightarrow> Severity" where
  "inferSeverity e =
     (if aeStatus e = ''failed'' \<or> aeError e \<noteq> [] \<or> aeOutcome e = ''failure'' \<or> aeOutcome e = ''timeout'' then SeverityError
      else if aeOutcome e = ''denied'' then SeverityWarn
      else SeverityInfo)"

definition inferSource :: "AuditEvent \<Rightarrow> string" where
  "inferSource e =
     (if aeActorID e = ''admin'' \<or> aeAction e = ''admin'' then SourceAdmin
      else if aeAction e = ''policy.enforce'' \<or> aeAction e = ''policy.check'' then SourcePolicy
      else if aeStepType e = ''llm'' then SourceReasoning
      else if aeStepID e \<noteq> [] \<or> aeStepName e \<noteq> [] then SourceExecutor
      else SourceExecutor)"

definition resolveSource :: "AuditEvent \<Rightarrow> string" where
  "resolveSource e = (if aeSource e \<noteq> [] then aeSource e else inferSource e)"

text \<open>\<open>Duration.Milliseconds\<close>: division of signed 64-bit nanoseconds, rounded towards zero.\<close>

definition Milliseconds :: "64 word \<Rightarrow> int" where
  "Milliseconds d = (if sint d < 0 then - ((- sint d) div 1000000) else sint d div 1000000)"

definition tool_payload :: "AuditEvent \<Rightarrow> (string, goval) gomap" where
  "tool_payload e =
     (let payload = [];
          payload = (if length (aeToolInput e) > 0 then gm_put ''tool_input'' (GMap (aeToolInput e)) payload else payload)
      in if aeToolOutput e \<noteq> GNil then gm_put ''tool_output'' (aeToolOutput e) payload else payload)"

definition ToEnvelope :: "stdlib \<Rightarrow> AuditEvent \<Rightarrow> AuditEnvelope" where
  "ToEnvelope L e =
     \<lparr>enEventID = aeID e, enTraceID = aeTraceID e, enTimestamp = aeTimestamp e, enTenantID = aeTenantID e,
      enUserID = aeUserID e, enExecutionID = aeRequestID e,
      enSessionID = (case gm_get (aeMetadata e) ''session_id'' of Some s \<Rightarrow> s | None \<Rightarrow> []),
      enStepID = aeStepID e, enStepName = aeStepName e, enEventType = inferEventType e,
      enSeverity = inferSeverity e, enSource = resolveSource e, enAction = aeAction e,
      enResource = aeResource e, enOutcome = aeOutcome e, enDurationMs = Milliseconds (aeDuration e),
      enError = aeError e, enMetadata = aeMetadata e,
      enPayload =
        (if length (aeToolInput e) > 0 \<or> aeToolOutput e \<noteq> GNil
         then json_marshal L (GMap (tool_payload e)) else None)\<rparr>"

section \<open>Emitter (emitter.go)\<close>

type_synonym subscriber = nat

record AuditEmitter =
  emSubscribers :: "(string, subscriber) gomap"

datatype emitter_error = ContextRequired | SubscriberRequired | IDRequired | AlreadyRegistered string | SubscriberNotFound string

definition NewEmitter :: AuditEmitter where
  "NewEmitter = \<lparr>emSubscribers = []\<rparr>"

definition AuditSubscribe :: "(subscriber \<Rightarrow> string) \<Rightarrow> subscriber option \<Rightarrow> AuditEmitter \<Rightarrow> emitter_error option \<times> AuditEmitter" where
  "AuditSubscribe ident s e = (case s of
     None \<Rightarrow> (Some SubscriberRequired, e)
   | Some s \<Rightarrow>
       if gm_has (emSubscribers e) (ident s) then (Some (AlreadyRegistered (ident s)), e)
       else (None, e\<lparr>emSubscribers := gm_put (ident s) s (emSubscribers e)\<rparr>))"

definition AuditUnsubscribe :: "string \<Rightarrow> AuditEmitter \<Rightarrow> emitter_error option \<times> AuditEmitter" where
  "AuditUnsubscribe i e =
     (if i = [] then (Some IDRequired, e)
      else if \<not> gm_has (emSubscribers e) i then (Some (SubscriberNotFound i), e)
      else (None, e\<lparr>emSubscribers := gm_del i (emSubscribers e)\<rparr>))"

definition Subscribers :: "AuditEmitter \<Rightarrow> nat" where
  "Subscribers e = length (emSubscribers e)"

text \<open>
  A call of \<open>OnEvent\<close> returns, fails or panics, and may call the emitter again while it runs: its lock
  is free by then. So a callback maps the emitter and the state \<open>'w\<close> of the world around it to new ones.
\<close>

datatype delivery = Delivered | Failed string | Panicked

type_synonym 'w on_event = "subscriber \<Rightarrow> AuditEvent \<Rightarrow> AuditEmitter \<times> 'w \<Rightarrow> delivery \<times> AuditEmitter \<times> 'w"

fun deliver :: "'w on_event \<Rightarrow> AuditEvent \<Rightarrow> subscriber list \<Rightarrow> AuditEmitter \<times> 'w \<Rightarrow>
    (subscriber \<times> AuditEvent \<times> delivery) list \<times> AuditEmitter \<times> 'w" where
  "deliver on_event event [] st = ([], st)"
| "deliver on_event event (s # subs) st =
     (let (r, st') = on_event s event st; (log, st'') = deliver on_event event subs st'
      in ((s, event, r) # log, st''))"

definition Emit :: "'w on_event \<Rightarrow> string \<Rightarrow> bool \<Rightarrow> AuditEvent \<Rightarrow> AuditEmitter \<times> 'w \<Rightarrow>
    emitter_error option \<times> (subscriber \<times> AuditEvent \<times> delivery) list \<times> AuditEmitter \<times> 'w" where
  "Emit on_event uuid ctx event st =
     (if \<not> ctx then (Some ContextRequired, [], st)
      else
        (let event = (if aeID event = [] then event\<lparr>aeID := uuid\<rparr> else event);
             subs = gm_vals (emSubscribers (fst st));
             (log, st') = deliver on_event event subs st
         in (None, log, st')))"

end
