(* ===== verification/Audit_Properties.thy ===== *)
theory Audit_Properties
  imports Audit_Events
begin

text \<open>
  Audit events: how an envelope classifies an event, that emission reaches every subscriber exactly
  once whatever the others do, and what a history of subscriptions leaves registered.
\<close>

section \<open>Classification\<close>

definition policy_action :: "AuditEvent \<Rightarrow> bool" where
  "policy_action e \<longleftrightarrow> aeAction e = ''policy.enforce'' \<or> aeAction e = ''policy.check''"

definition step_action :: "AuditEvent \<Rightarrow> bool" where
  "step_action e \<longleftrightarrow> aeAction e \<noteq> ''harness.replan'' \<and> \<not> policy_action e"

definition step_reports :: "string \<Rightarrow> AuditEvent \<Rightarrow> bool" where
  "step_reports status e \<longleftrightarrow> aeAction e \<noteq> [] \<and> aeStepID e \<noteq> [] \<and> aeStatus e = status"

lemma inferEventType_cases:
  "inferEventType e =
     (if aeAction e = ''harness.replan'' then EventPlanReplanned
      else if policy_action e then (if aeOutcome e = ''denied'' then EventPolicyDenied else EventPolicyAllowed)
      else if step_reports ''started'' e then EventStepStarted
      else if step_reports ''completed'' e then EventStepCompleted
      else if aeStatus e = ''failed'' \<or> aeError e \<noteq> [] then EventStepFailed
      else EventStepCompleted)"
  by (auto simp: inferEventType_def policy_action_def step_reports_def Let_def)

text \<open>
  How an event is classified in its envelope, exactly: replanning and policy checks by their
  action, a policy check counting as allowed unless its outcome is the word \<open>denied\<close>; everything else is a
  step, started or failed as stated here and completed otherwise. The severity is an error exactly for a
  failed status, an error message, or a failed or timed-out outcome, and a warning for other denials. The
  source is the event's own, or inferred from actor, action and step type.
\<close>
theorem envelope_classification:
  "(enEventType (ToEnvelope L e) = EventPlanReplanned \<longleftrightarrow> aeAction e = ''harness.replan'') \<and>
   (enEventType (ToEnvelope L e) = EventPolicyDenied \<longleftrightarrow> policy_action e \<and> aeOutcome e = ''denied'') \<and>
   (enEventType (ToEnvelope L e) = EventPolicyAllowed \<longleftrightarrow> policy_action e \<and> aeOutcome e \<noteq> ''denied'') \<and>
   (enEventType (ToEnvelope L e) = EventStepStarted \<longleftrightarrow> step_action e \<and> step_reports ''started'' e) \<and>
   (enEventType (ToEnvelope L e) = EventStepFailed \<longleftrightarrow> step_action e \<and> \<not> step_reports ''started'' e \<and>
      \<not> step_reports ''completed'' e \<and> (aeStatus e = ''failed'' \<or> aeError e \<noteq> [])) \<and>
   enEventType (ToEnvelope L e) \<in> {EventPlanReplanned, EventPolicyDenied, EventPolicyAllowed,
      EventStepStarted, EventStepFailed, EventStepCompleted} \<and>
   (enSeverity (ToEnvelope L e) = SeverityError \<longleftrightarrow>
      aeStatus e = ''failed'' \<or> aeError e \<noteq> [] \<or> aeOutcome e \<in> {''failure'', ''timeout''}) \<and>
   (enSeverity (ToEnvelope L e) = SeverityWarn \<longleftrightarrow> aeOutcome e = ''denied'' \<and> aeStatus e \<noteq> ''failed'' \<and> aeError e = []) \<and>
   enSource (ToEnvelope L e) =
     (if aeSource e \<noteq> [] then aeSource e
      else if aeActorID e = ''admin'' \<or> aeAction e = ''admin'' then ''admin_api''
      else if policy_action e then ''policy''
      else if aeStepType e = ''llm'' then ''reasoning_loop'' else ''executor'')"
proof -
  have "enEventType (ToEnvelope L e) = inferEventType e" "enSeverity (ToEnvelope L e) = inferSeverity e"
    "enSource (ToEnvelope L e) = resolveSource e" by (simp_all add: ToEnvelope_def)
  moreover have "policy_action e \<Longrightarrow> aeAction e \<noteq> ''harness.replan''" by (auto simp: policy_action_def)
  ultimately show ?thesis
    by (auto simp: inferEventType_cases step_action_def inferSeverity_def resolveSource_def inferSource_def
        policy_action_def[symmetric] SourceAdmin_def SourcePolicy_def SourceReasoning_def SourceExecutor_def)
qed

text \<open>A policy check that failed with an error is reported as allowed; a failed outcome alone as a completed step.\<close>

lemma failed_policy_check_allowed:
  "policy_action e \<Longrightarrow> aeOutcome e = ''failure'' \<Longrightarrow> enEventType (ToEnvelope L e) = EventPolicyAllowed"
  by (auto simp: ToEnvelope_def inferEventType_cases policy_action_def)

lemma failed_outcome_completed:
  "step_action e \<Longrightarrow> aeOutcome e = ''failure'' \<Longrightarrow> aeStatus e = [] \<Longrightarrow> aeError e = [] \<Longrightarrow>
   enEventType (ToEnvelope L e) = EventStepCompleted \<and> enSeverity (ToEnvelope L e) = SeverityError"
  by (auto simp: ToEnvelope_def inferEventType_cases inferSeverity_def step_action_def step_reports_def)

lemma replan_source: "aeAction e = ''harness.replan'' \<Longrightarrow> aeSource e = [] \<Longrightarrow> aeActorID e \<noteq> ''admin'' \<Longrightarrow> aeStepType e \<noteq> ''llm'' \<Longrightarrow>
    enSource (ToEnvelope L e) = ''executor''"
  by (simp add: ToEnvelope_def resolveSource_def inferSource_def SourceExecutor_def)

lemma Milliseconds_trunc:
  "\<bar>sint d - Milliseconds d * 1000000\<bar> < 1000000 \<and> \<bar>Milliseconds d\<bar> * 1000000 \<le> \<bar>sint d\<bar> \<and>
   (0 \<le> sint d \<longrightarrow> 0 \<le> Milliseconds d) \<and> (sint d \<le> 0 \<longrightarrow> Milliseconds d \<le> 0)"
proof -
  have "0 \<le> x div 1000000 \<and> x div 1000000 * 1000000 \<le> x \<and> x < x div 1000000 * 1000000 + 1000000" if "0 \<le> x" for x :: int
    using that div_mult_mod_eq[of x 1000000] pos_mod_bound[of 1000000 x] pos_mod_sign[of 1000000 x] pos_imp_zdiv_nonneg_iff[of 1000000 x]
    by linarith
  from this[of "sint d"] this[of "- sint d"] show ?thesis by (auto simp: Milliseconds_def abs_if)
qed

text \<open>
  The payload of an envelope is the JSON text of an object with the tool's input and output, each
  present exactly when the event has it; an event with neither, or with a value JSON cannot express, has no
  payload. The duration is rounded towards zero to milliseconds.
\<close>
theorem envelope_payload_and_duration:
  "enPayload (ToEnvelope L e) =
     (if aeToolInput e = [] \<and> aeToolOutput e = GNil then None
      else json_marshal L (GMap
        ((if aeToolInput e = [] then [] else [(''tool_input'', GMap (aeToolInput e))]) @
         (if aeToolOutput e = GNil then [] else [(''tool_output'', aeToolOutput e)])))) \<and>
   \<bar>sint (aeDuration e) - enDurationMs (ToEnvelope L e) * 1000000\<bar> < 1000000 \<and>
   \<bar>enDurationMs (ToEnvelope L e)\<bar> * 1000000 \<le> \<bar>sint (aeDuration e)\<bar>"
  using Milliseconds_trunc[of "aeDuration e"]
  by (auto simp: ToEnvelope_def tool_payload_def gm_put_def)

section \<open>Subscriptions\<close>

definition sub_at :: "AuditEmitter \<Rightarrow> string \<Rightarrow> subscriber option" where
  "sub_at e i = gm_get (emSubscribers e) i"

definition put_sub :: "string \<Rightarrow> subscriber \<Rightarrow> AuditEmitter \<Rightarrow> AuditEmitter" where
  "put_sub i s e = e\<lparr>emSubscribers := gm_put i s (emSubscribers e)\<rparr>"

definition del_sub :: "string \<Rightarrow> AuditEmitter \<Rightarrow> AuditEmitter" where
  "del_sub i e = e\<lparr>emSubscribers := gm_del i (emSubscribers e)\<rparr>"

interpretation es: keyed_store "\<lambda>e. gm_wf (emSubscribers e)" sub_at put_sub del_sub
  by unfold_locales (auto simp: sub_at_def put_sub_def del_sub_def)

text \<open>The calls that change an emitter. Calls made by callbacks during an emission are such calls too.\<close>

inductive emitter_step :: "(subscriber \<Rightarrow> string) \<Rightarrow> AuditEmitter \<Rightarrow> AuditEmitter \<Rightarrow> bool" for ident where
  subscribe: "emitter_step ident e (snd (AuditSubscribe ident s e))"
| unsubscribe: "emitter_step ident e (snd (AuditUnsubscribe i e))"

definition emitter_inv :: "(subscriber \<Rightarrow> string) \<Rightarrow> AuditEmitter \<Rightarrow> bool" where
  "emitter_inv ident e \<longleftrightarrow> gm_wf (emSubscribers e) \<and> (\<forall>i s. sub_at e i = Some s \<longrightarrow> ident s = i)"

lemma AuditSubscribe_put: "snd (AuditSubscribe ident s e) = (case s of None \<Rightarrow> e | Some s \<Rightarrow> if sub_at e (ident s) = None then put_sub (ident s) s e else e)"
  by (auto simp: AuditSubscribe_def put_sub_def sub_at_def gm_has_def split: option.split)

lemma Unsubscribe_del: "snd (AuditUnsubscribe i e) = (if i = [] \<or> sub_at e i = None then e else del_sub i e)"
  by (auto simp: AuditUnsubscribe_def del_sub_def sub_at_def gm_has_def)

lemma Subscribe_error_iff: "fst (AuditSubscribe ident (Some s) e) = None \<longleftrightarrow> sub_at e (ident s) = None"
  by (simp add: AuditSubscribe_def sub_at_def gm_has_def)

lemma Unsubscribe_error_iff: "fst (AuditUnsubscribe i e) = None \<longleftrightarrow> i \<noteq> [] \<and> sub_at e i \<noteq> None"
  by (simp add: AuditUnsubscribe_def sub_at_def gm_has_def)

lemma emitter_step_inv: "emitter_step ident e e' \<Longrightarrow> emitter_inv ident e \<Longrightarrow> emitter_inv ident e'"
  by (induction rule: emitter_step.cases)
    (auto simp: AuditSubscribe_put Unsubscribe_del emitter_inv_def es.look_ins es.look_rem es.inv_ins es.inv_rem split: option.splits)

lemma emitter_steps_inv: "(emitter_step ident)\<^sup>*\<^sup>* e e' \<Longrightarrow> emitter_inv ident e \<Longrightarrow> emitter_inv ident e'"
  by (induction rule: rtranclp_induct) (auto intro: emitter_step_inv)

lemma NewEmitter_inv: "emitter_inv ident NewEmitter"
  by (simp add: emitter_inv_def NewEmitter_def sub_at_def)

lemma emitter_subs_distinct: "emitter_inv ident e \<Longrightarrow> distinct (gm_vals (emSubscribers e))"
proof -
  assume inv: "emitter_inv ident e"
  then have "ident (snd x) = fst x" if "x \<in> set (emSubscribers e)" for x
    using that gm_get_SomeI[of "emSubscribers e" "fst x" "snd x"] by (auto simp: emitter_inv_def sub_at_def)
  then have "map ident (gm_vals (emSubscribers e)) = map fst (emSubscribers e)" by (simp add: gm_vals_def)
  then show ?thesis using inv by (metis distinct_map emitter_inv_def gm_wf_def)
qed

lemma emitter_subs_set: "gm_wf (emSubscribers e) \<Longrightarrow> set (gm_vals (emSubscribers e)) = {s. \<exists>i. sub_at e i = Some s}"
  by (force simp: gm_vals_def sub_at_def gm_get_Some_iff)

lemma deliver_log: "map fst (fst (deliver f ev subs st)) = subs \<and> (\<forall>x \<in> set (fst (deliver f ev subs st)). fst (snd x) = ev)"
  by (induction subs arbitrary: st) (auto simp: case_prod_beta Let_def)

section \<open>Emission\<close>

text \<open>C24. 
  An emission with a context succeeds and calls every subscriber registered at that moment
  exactly once with the event, its identifier filled in when it was empty. This holds after any history of
  subscriptions, and whatever the subscribers do: fail, panic, or subscribe and unsubscribe others while
  the delivery runs.
\<close>
theorem Emit_reaches_every_subscriber:
  assumes "(emitter_step ident)\<^sup>*\<^sup>* NewEmitter e"
  shows "\<exists>log st'. Emit on_event uuid True event (e, w) = (None, log, st') \<and>
    distinct (map fst log) \<and> set (map fst log) = {s. sub_at e (ident s) = Some s} \<and> length log = Subscribers e \<and>
    (\<forall>x \<in> set log. fst (snd x) = event\<lparr>aeID := (if aeID event = [] then uuid else aeID event)\<rparr>)"
proof -
  have inv: "emitter_inv ident e" using emitter_steps_inv[OF assms] NewEmitter_inv by blast
  then have "{s. \<exists>i. sub_at e i = Some s} = {s. sub_at e (ident s) = Some s}" by (auto simp: emitter_inv_def)
  with inv have subs: "set (gm_vals (emSubscribers e)) = {s. sub_at e (ident s) = Some s}"
    using emitter_subs_set[of e] by (simp add: emitter_inv_def)
  define ev where "ev = event\<lparr>aeID := (if aeID event = [] then uuid else aeID event)\<rparr>"
  have ev: "(if aeID event = [] then event\<lparr>aeID := uuid\<rparr> else event) = ev" by (simp add: ev_def)
  obtain log st' where d: "deliver on_event ev (gm_vals (emSubscribers e)) (e, w) = (log, st')" by (rule prod.exhaust)
  then have log: "map fst log = gm_vals (emSubscribers e)" "\<forall>x \<in> set log. fst (snd x) = ev"
    using deliver_log[of on_event ev "gm_vals (emSubscribers e)" "(e, w)"] by auto
  moreover have "length log = Subscribers e" using arg_cong[OF log(1), of length] by (simp add: Subscribers_def gm_vals_def)
  moreover have "Emit on_event uuid True event (e, w) = (None, log, st')" by (simp add: Emit_def Let_def ev d)
  ultimately show ?thesis using emitter_subs_distinct[OF inv] subs unfolding ev_def by (intro exI[of _ log] exI[of _ st']) simp
qed

definition two_subscribers :: AuditEmitter where
  "two_subscribers = snd (AuditSubscribe show_nat (Some 2) (snd (AuditSubscribe show_nat (Some 1) NewEmitter)))"

definition sample_event :: AuditEvent where
  "sample_event = \<lparr>aeID = [], aeTenantID = ''t'', aeUserID = ''u'', aeRequestID = ''r'', aeAction = ''policy.check'',
     aeResource = ''skill/x'', aeOutcome = ''denied'', aeDuration = 1500000, aeMetadata = [], aeTimestamp = 0, aeActorID = [],
     aeSource = [], aeStepID = [], aeStepName = [], aeStepType = [], aeStatus = [], aeToolInput = [], aeToolOutput = GNil,
     aeError = [], aeTraceID = []\<rparr>"

theorem envelope_classification_witness:
  "enEventType (ToEnvelope plain_lib sample_event) = EventPolicyDenied \<and>
   enSeverity (ToEnvelope plain_lib sample_event) = SeverityWarn \<and> enSource (ToEnvelope plain_lib sample_event) = ''policy''"
  using envelope_classification[of plain_lib sample_event] by (simp add: sample_event_def policy_action_def)

text \<open>The first subscriber removes the second and panics; the second is still called.\<close>

definition hostile :: "unit on_event" where
  "hostile s event st = (if s = 1 then (Panicked, snd (AuditUnsubscribe (show_nat 2) (fst st)), ()) else (Delivered, st))"

theorem Emit_reaches_every_subscriber_witness:
  "\<exists>log st'. Emit hostile ''id'' True sample_event (two_subscribers, ()) = (None, log, st') \<and> set (map fst log) = {1, 2} \<and> length log = 2"
proof -
  have "(emitter_step show_nat)\<^sup>*\<^sup>* NewEmitter two_subscribers"
    unfolding two_subscribers_def
    by (rule rtranclp.rtrancl_into_rtrancl[OF r_into_rtranclp]) (rule emitter_step.subscribe)+
  moreover have subs: "emSubscribers two_subscribers = [(show_nat 1, 1), (show_nat 2, 2)]"
    by (simp add: two_subscribers_def AuditSubscribe_def NewEmitter_def gm_put_new gm_has_def)
  moreover have "{s. sub_at two_subscribers (show_nat s) = Some s} = {1, 2}"
    by (auto simp: sub_at_def subs split: if_splits)
  ultimately show ?thesis
    using Emit_reaches_every_subscriber[of show_nat two_subscribers hostile "''id''" sample_event "()"]
    by (auto simp: Subscribers_def)
qed

section \<open>Histories\<close>

lemma empty_id_stays: "emitter_step ident e e' \<Longrightarrow> sub_at e [] = Some s \<Longrightarrow> sub_at e' [] = Some s"
  by (induction rule: emitter_step.cases)
    (auto simp: AuditSubscribe_put Unsubscribe_del put_sub_def del_sub_def sub_at_def split: option.splits)

text \<open>
  After any history of calls, a subscription succeeds exactly for a subscriber whose identifier
  is free and then only adds it; a removal succeeds exactly for a registered identifier that is not empty
  and then only removes it. So removing what was just added restores every lookup, except that a
  subscriber whose identifier is empty is accepted and can never be removed again.
\<close>
theorem subscriptions_exact:
  assumes "(emitter_step ident)\<^sup>*\<^sup>* NewEmitter e"
  shows "(fst (AuditSubscribe ident (Some s) e) = None \<longleftrightarrow> sub_at e (ident s) = None) \<and>
    sub_at (snd (AuditSubscribe ident (Some s) e)) k =
      (if k = ident s \<and> sub_at e (ident s) = None then Some s else sub_at e k) \<and>
    (fst (AuditUnsubscribe i e) = None \<longleftrightarrow> i \<noteq> [] \<and> sub_at e i \<noteq> None) \<and>
    sub_at (snd (AuditUnsubscribe i e)) k = (if k = i \<and> i \<noteq> [] then None else sub_at e k) \<and>
    (ident s \<noteq> [] \<and> sub_at e (ident s) = None \<longrightarrow>
       sub_at (snd (AuditUnsubscribe (ident s) (snd (AuditSubscribe ident (Some s) e)))) = sub_at e) \<and>
    (ident s = [] \<and> sub_at e [] = None \<and> (emitter_step ident)\<^sup>*\<^sup>* (snd (AuditSubscribe ident (Some s) e)) e' \<longrightarrow> sub_at e' [] = Some s)"
proof -
  have wf: "gm_wf (emSubscribers e)" using emitter_steps_inv[OF assms] NewEmitter_inv by (auto simp: emitter_inv_def)
  have stays: "sub_at e'' [] = Some s" if "(emitter_step ident)\<^sup>*\<^sup>* e0 e''" "sub_at e0 [] = Some s" for e0 e''
    using that by (induction rule: rtranclp_induct) (auto dest: empty_id_stays)
  have add: "sub_at (snd (AuditSubscribe ident (Some s) e)) k = (if k = ident s \<and> sub_at e (ident s) = None then Some s else sub_at e k)" for k
    using wf by (simp add: AuditSubscribe_put es.look_ins)
  have drop: "sub_at (snd (AuditUnsubscribe i e)) k = (if k = i \<and> i \<noteq> [] then None else sub_at e k)" for i k
    using wf by (auto simp: Unsubscribe_del es.look_rem)
  have both: "sub_at (snd (AuditUnsubscribe (ident s) (snd (AuditSubscribe ident (Some s) e)))) = sub_at e" if "ident s \<noteq> []" "sub_at e (ident s) = None"
    using wf that by (simp add: AuditSubscribe_put Unsubscribe_del es.look_ins es.ins_rem)
  show ?thesis
    using stays[of "snd (AuditSubscribe ident (Some s) e)" e'] both
    by (simp add: add drop Subscribe_error_iff Unsubscribe_error_iff)
qed

theorem subscriptions_exact_witness:
  "fst (AuditSubscribe (\<lambda>s. []) (Some 7) NewEmitter) = None \<and>
   sub_at (snd (AuditUnsubscribe [] (snd (AuditSubscribe (\<lambda>s. []) (Some 7) NewEmitter)))) [] = Some 7"
proof -
  let ?e = "snd (AuditSubscribe (\<lambda>s. []) (Some 7) NewEmitter)"
  have "(emitter_step (\<lambda>s. []))\<^sup>*\<^sup>* ?e (snd (AuditUnsubscribe [] ?e))" by (auto intro: emitter_step.unsubscribe)
  then show ?thesis
    using subscriptions_exact[of "\<lambda>s. []" NewEmitter 7 "[]" "[]" "snd (AuditUnsubscribe [] ?e)"]
    by (simp add: NewEmitter_def sub_at_def)
qed

end
