(* ===== verification/Skill_Files.thy ===== *)
theory Skill_Files
  imports Skill_Registry Go_Fields
begin

text \<open>
  The parts of \<open>registry/skills\<close> that deal with files: paths of skill directories (\<open>DeriveSkillID\<close> over the
  Unix rules of \<open>path/filepath\<close>), reading \<open>SKILL.md\<close> and manifests. The file system and the YAML reader are
  arguments. Shown are the identifier every directory gets and the round trip of a \<open>SKILL.md\<close> file.
\<close>

section \<open>Unix paths (path/filepath)\<close>

definition slash :: char where "slash = CHR ''/''"

fun clean_elems :: "bool \<Rightarrow> string list \<Rightarrow> string list \<Rightarrow> string list" where
  "clean_elems rooted st [] = rev st"
| "clean_elems rooted st (e # es) =
     (if e = [] \<or> e = ''.'' then clean_elems rooted st es
      else if e = ''..'' then
        (case st of
           x # st' \<Rightarrow> if x \<noteq> ''..'' then clean_elems rooted st' es else clean_elems rooted (e # st) es
         | [] \<Rightarrow> if rooted then clean_elems rooted [] es else clean_elems rooted [e] es)
      else clean_elems rooted (e # st) es)"

definition Clean :: "string \<Rightarrow> string" where
  "Clean path =
     (let rooted = HasPrefix path [slash]; es = clean_elems rooted [] (Split path slash)
      in if rooted then slash # Join es [slash] else if es = [] then ''.'' else Join es [slash])"

definition trim_slashes :: "string \<Rightarrow> string" where
  "trim_slashes path = rev (dropWhile (\<lambda>c. c = slash) (rev path))"

definition Base :: "string \<Rightarrow> string" where
  "Base path =
     (if path = [] then ''.''
      else
        (let p = last (Split (trim_slashes path) slash)
         in if p = [] then [slash] else p))"

definition Dir :: "string \<Rightarrow> string" where
  "Dir path = Clean (rev (dropWhile (\<lambda>c. c \<noteq> slash) (rev path)))"

definition Join_path :: "string \<Rightarrow> string \<Rightarrow> string" where
  "Join_path dir file =
     (let elems = dropWhile (\<lambda>e. e = []) [dir, file] in if elems = [] then [] else Clean (Join elems [slash]))"

section \<open>skillmd.go and manifest.go\<close>

datatype fs_error = NotExist | FsOther string

definition SkillMDFileName :: string where "SkillMDFileName = ''SKILL.md''"

definition ParseSkillMD ::
  "(string \<Rightarrow> fs_error + string) \<Rightarrow> (string \<Rightarrow> string + string \<times> string) \<Rightarrow> string \<Rightarrow> (fs_error + skillmd_error) + SkillMD option" where
  "ParseSkillMD readFile yaml dir = (case readFile (Join_path dir SkillMDFileName) of
     Inl NotExist \<Rightarrow> Inr None
   | Inl err \<Rightarrow> Inl (Inl err)
   | Inr data \<Rightarrow> (case ParseSkillMDContent yaml data of Inl err \<Rightarrow> Inl (Inr err) | Inr md \<Rightarrow> Inr (Some md)))"

definition HasSkillMD :: "(string \<Rightarrow> fs_error option) \<Rightarrow> string \<Rightarrow> bool" where
  "HasSkillMD stat dir = (stat (Join_path dir SkillMDFileName) = None)"

definition DeriveSkillID :: "string \<Rightarrow> string" where
  "DeriveSkillID skillDir0 =
     (let skillDir = trim_slashes skillDir0 in
      if skillDir = [] then []
      else
        (let name = Base skillDir; parent = Base (Dir skillDir)
         in if parent = ''skills'' \<or> parent = ''.'' \<or> parent = [] then name else parent @ [slash] @ name))"

definition ParseManifest :: "(string \<Rightarrow> string + SkillManifest) \<Rightarrow> string \<Rightarrow> string + SkillManifest" where
  "ParseManifest yaml data = (case yaml data of Inl err \<Rightarrow> Inl err | Inr manifest \<Rightarrow> Inr manifest)"

section \<open>Identifiers of directories\<close>

text \<open>A directory name that \<open>Clean\<close> leaves alone.\<close>

definition plain_name :: "string \<Rightarrow> bool" where
  "plain_name e \<longleftrightarrow> e \<noteq> [] \<and> e \<noteq> ''.'' \<and> e \<noteq> ''..'' \<and> slash \<notin> set e"

lemma clean_elems_plain: "list_all plain_name es \<Longrightarrow> clean_elems rooted st es = rev st @ es"
  by (induction es arbitrary: st) (auto simp: plain_name_def)

lemma clean_elems_Nil [simp]: "clean_elems rooted st ([] # es) = clean_elems rooted st es"
  by simp

lemma clean_elems_snoc_Nil: "list_all plain_name es \<Longrightarrow> clean_elems rooted st (es @ [[]]) = rev st @ es"
  by (induction es arbitrary: st) (auto simp: plain_name_def)

lemma trim_slashes_append: "trim_slashes (p @ replicate n slash) = trim_slashes p"
proof -
  have "dropWhile (\<lambda>c. c = slash) (replicate n slash @ q) = dropWhile (\<lambda>c. c = slash) q" for q by (induction n) auto
  then show ?thesis by (simp add: trim_slashes_def)
qed

lemma trim_slashes_plain: "plain_name e \<Longrightarrow> trim_slashes (p @ e) = p @ e"
proof -
  assume "plain_name e"
  then have e: "e \<noteq> []" "last e \<noteq> slash" by (auto simp: plain_name_def) (metis last_in_set)
  then obtain c r where "rev e = c # r" "c \<noteq> slash" by (metis hd_rev list.collapse rev_is_Nil_conv)
  then have "dropWhile (\<lambda>c. c = slash) (rev e @ rev p) = rev e @ rev p" by simp
  then show ?thesis by (simp add: trim_slashes_def)
qed

lemma Split_append: "Split (a @ d # b) d = Split a d @ Split b d"
proof (induction a)
  case (Cons c a)
  show ?case using Cons Split_not_Nil[of a d] by (cases "Split a d") auto
qed simp

lemma Split_slash_last: "slash \<notin> set e \<Longrightarrow> last (Split (p @ slash # e) slash) = e"
  by (simp add: Split_append Split_no_occurrence)

lemma Base_plain: "plain_name e \<Longrightarrow> Base (p @ slash # e) = e" "plain_name e \<Longrightarrow> Base e = e"
  using trim_slashes_plain[of e "p @ [slash]"] trim_slashes_plain[of e "[]"] Split_slash_last[of e p]
  by (simp_all add: Base_def plain_name_def Split_no_occurrence)

lemma dropWhile_to_slash: "slash \<notin> set e \<Longrightarrow> rev (dropWhile (\<lambda>c. c \<noteq> slash) (rev (p @ slash # e))) = p @ [slash]"
  by (simp add: dropWhile_append3 dropWhile_append)

lemma Dir_plain: "plain_name e \<Longrightarrow> Dir (p @ slash # e) = Clean (p @ [slash])" "plain_name e \<Longrightarrow> Dir e = ''.''"
proof -
  show "plain_name e \<Longrightarrow> Dir (p @ slash # e) = Clean (p @ [slash])"
    unfolding Dir_def by (subst dropWhile_to_slash) (simp_all add: plain_name_def)
  assume "plain_name e"
  then have "dropWhile (\<lambda>c. c \<noteq> slash) (rev e) = []" by (auto simp: plain_name_def dropWhile_eq_Nil_conv)
  then have "Dir e = Clean []" unfolding Dir_def by (simp only: rev.simps)
  then show "Dir e = ''.''" by (simp add: Clean_def HasPrefix_def)
qed

lemma Split_Join_slash: "list_all plain_name es \<Longrightarrow> es \<noteq> [] \<Longrightarrow> Split (Join es [slash]) slash = es"
  by (rule Split_Join) (auto simp: list_all_iff plain_name_def)

lemma Join_snoc: "Join (es @ [e]) [slash] = (if es = [] then e else Join es [slash] @ slash # e)"
  by (induction es rule: induct_list012) auto

lemma Join_plain_head: "list_all plain_name es \<Longrightarrow> es \<noteq> [] \<Longrightarrow> \<not> HasPrefix (Join es [slash] @ t) [slash]"
  by (cases es rule: remdups_adj.cases) (auto simp: plain_name_def HasPrefix_def take_Cons' neq_Nil_conv)

lemma Clean_Join: "list_all plain_name es \<Longrightarrow> es \<noteq> [] \<Longrightarrow> Clean (Join es [slash] @ [slash]) = Join es [slash]"
  using Join_plain_head[of es "[slash]"]
  by (simp add: Clean_def Split_append Split_Join_slash clean_elems_snoc_Nil Let_def)

lemma Clean_rooted: "list_all plain_name es \<Longrightarrow> Clean (slash # Join es [slash] @ [slash]) = slash # Join es [slash]"
proof (cases "es = []")
  case False
  assume "list_all plain_name es"
  with False show ?thesis
    by (simp add: Clean_def HasPrefix_def Split_append Split_Join_slash clean_elems_snoc_Nil Let_def)
qed (simp add: Clean_def HasPrefix_def Let_def)

lemma Base_Join: "list_all plain_name (es @ [e]) \<Longrightarrow> Base (Join (es @ [e]) [slash]) = e \<and> Base (slash # Join (es @ [e]) [slash]) = e"
  using Base_plain(1)[of e "Join es [slash]"] Base_plain(1)[of e "[]"] Base_plain(1)[of e "slash # Join es [slash]"] Base_plain(2)[of e]
  by (auto simp: Join_snoc)

lemma Base_root: "Base [slash] = [slash]"
  by (simp add: Base_def trim_slashes_def)

text \<open>
  The identifier of a skill directory given by a clean path: the last two names of the path
  joined by a slash, or only the last one when it is alone or its parent is called \<open>skills\<close>, also after
  trailing slashes. A directory directly under the root gets an identifier that starts with two slashes.
\<close>
theorem DeriveSkillID_exact:
  assumes "list_all plain_name es" and "plain_name parent" and "plain_name name"
  shows "DeriveSkillID (Join (es @ [parent, name]) [slash] @ replicate n slash) =
      (if parent = ''skills'' then name else parent @ [slash] @ name) \<and>
    DeriveSkillID (slash # Join (es @ [parent, name]) [slash] @ replicate n slash) =
      (if parent = ''skills'' then name else parent @ [slash] @ name) \<and>
    DeriveSkillID (name @ replicate n slash) = name \<and>
    DeriveSkillID (slash # name @ replicate n slash) = [slash, slash] @ name"
proof -
  define ps where "ps = Join (es @ [parent]) [slash]"
  have all: "list_all plain_name (es @ [parent])" using assms by simp
  have path: "Join (es @ [parent, name]) [slash] = ps @ slash # name"
    using Join_snoc[of "es @ [parent]" name] by (simp add: ps_def)
  have name: "name \<noteq> []" "parent \<noteq> []" "parent \<noteq> ''.''" using assms by (auto simp: plain_name_def)
  have id: "DeriveSkillID (q @ name @ replicate n slash) =
      (let par = Base (Dir (q @ name)) in if par = ''skills'' \<or> par = ''.'' \<or> par = [] then Base (q @ name) else par @ [slash] @ Base (q @ name))" for q
    using trim_slashes_append[of "q @ name" n] trim_slashes_plain[OF assms(3), of q] name
    by (simp add: DeriveSkillID_def Let_def)
  have d: "Dir (ps @ slash # name) = ps" "Dir ((slash # ps) @ slash # name) = slash # ps"
    using Clean_Join[OF all] Clean_rooted[OF all] by (simp_all only: Dir_plain(1)[OF assms(3)] ps_def) simp_all
  have b: "Base ps = parent" "Base (slash # ps) = parent" using Base_Join[OF all] by (simp_all add: ps_def)
  have r: "Dir ([] @ slash # name) = [slash]" using Dir_plain(1)[OF assms(3), of "[]"] Clean_rooted[of "[]"] by (simp add: Clean_def HasPrefix_def)
  show ?thesis
    using id[of "ps @ [slash]"] id[of "slash # ps @ [slash]"] id[of "[]"] id[of "[slash]"] d b r name
      Base_plain(1)[OF assms(3), of ps] Base_plain(1)[OF assms(3), of "slash # ps"] Base_plain(1)[OF assms(3), of "[]"]
      Base_plain(2)[OF assms(3)] Dir_plain(2)[OF assms(3)] Base_root
    by (simp add: path) (simp add: Base_def slash_def trim_slashes_def)
qed

theorem DeriveSkillID_exact_witness:
  "DeriveSkillID ''skills/core/summarize/'' = ''core/summarize'' \<and> DeriveSkillID ''/etc/core/summarize'' = ''core/summarize'' \<and>
   DeriveSkillID ''/summarize'' = ''//summarize''"
proof -
  have *: "list_all plain_name [''skills'']" "list_all plain_name [''etc'']" "plain_name ''core''" "plain_name ''summarize''"
    by (simp_all add: plain_name_def slash_def)
  from DeriveSkillID_exact[OF *(1,3,4), of 1] DeriveSkillID_exact[OF *(2,3,4), of 0] show ?thesis
    by (simp add: slash_def)
qed

text \<open>Directories in different places get the same identifier.\<close>

lemma skill_ids_collide: "DeriveSkillID ''skills/a/x/y'' = DeriveSkillID ''skills/b/x/y''"
  by code_simp

section \<open>Reading SKILL.md\<close>

lemma ReplaceAll2_id: "x \<notin> set s \<Longrightarrow> ReplaceAll2 s x y new = s"
  by (induction s x y new rule: ReplaceAll2.induct) auto

lemma newline_only_rune: "r \<in> set space_runes \<Longrightarrow> CHR 0x0A \<in> set r \<Longrightarrow> r = [CHR 0x0A]"
  unfolding space_runes_eq by (simp only: list.set insert_iff empty_iff) (elim disjE, simp_all)

lemma strip_end_None_iff: "strip_space_rune_end s = None \<longleftrightarrow> (\<forall>r \<in> set space_runes. \<not> suffix r s)"
  by (auto simp: strip_space_rune_end_def find_None_iff HasSuffix_iff suffix_def)

lemma TrimSpace_fixed_iff: "TrimSpace s = s \<longleftrightarrow> strip_space_rune s = None \<and> strip_space_rune_end s = None"
proof
  assume "TrimSpace s = s"
  then show "strip_space_rune s = None \<and> strip_space_rune_end s = None"
    using TrimSpace_no_leading[of s] TrimRightSpace_done[of "TrimLeftSpace s"] by (simp add: TrimSpace_def)
qed (simp add: TrimSpace_def TrimLeftSpace.simps TrimRightSpace.simps)

text \<open>A text that ends like a trimmed one after a line break is not trimmed at its end.\<close>

lemma strip_end_after_line:
  assumes "strip_space_rune_end body = None" and "body \<noteq> []"
  shows "strip_space_rune_end (x @ CHR 0x0A # body) = None"
  unfolding strip_end_None_iff
proof (intro ballI notI)
  fix r assume r: "r \<in> set space_runes" "suffix r (x @ CHR 0x0A # body)"
  have "\<not> suffix r body" using assms(1) r(1) by (auto simp: strip_end_None_iff)
  then obtain y where y: "r = y @ CHR 0x0A # body"
    using r(2) by (auto simp: suffix_append suffix_Cons)
  then show False using newline_only_rune[OF r(1)] assms(2) by (cases y) auto
qed

lemma TrimSpace_line_around:
  assumes "TrimSpace s = s" and "s \<noteq> []"
  shows "TrimSpace (CHR 0x0A # s @ [CHR 0x0A]) = s"
proof -
  have n: "[CHR 0x0A] \<in> set space_runes" by (simp add: space_runes_eq)
  have "strip_space_rune (s @ [CHR 0x0A]) = None"
    using assms prefix_across[of _ "[CHR 0x0A]" s] by (auto simp: TrimSpace_fixed_iff strip_space_rune_None_iff cont_byte_def)
  then have left: "TrimLeftSpace (CHR 0x0A # s @ [CHR 0x0A]) = s @ [CHR 0x0A]"
    by (simp add: TrimLeftSpace_Cons) (subst TrimLeftSpace.simps, simp)
  obtain r where f: "find (HasSuffix (s @ [CHR 0x0A])) space_runes = Some r"
    using n find_None_iff[of "HasSuffix (s @ [CHR 0x0A])" space_runes] by (cases "find (HasSuffix (s @ [CHR 0x0A])) space_runes") (auto simp: HasSuffix_iff)
  then have r: "r \<in> set space_runes" "suffix r (s @ [CHR 0x0A])" by (auto simp: find_Some_iff HasSuffix_iff suffix_def)
  moreover have "r \<noteq> []" using r(1) space_runes_not_Nil by auto
  ultimately have "CHR 0x0A \<in> set r" by (metis last_in_set last_snoc suffix_def last_appendR)
  with r(1) have "r = [CHR 0x0A]" by (rule newline_only_rune)
  with f have "strip_space_rune_end (s @ [CHR 0x0A]) = Some s" by (simp add: strip_space_rune_end_def)
  then have "TrimRightSpace (s @ [CHR 0x0A]) = TrimRightSpace s" by (subst TrimRightSpace.simps) simp
  also have "\<dots> = s" using assms(1) by (subst TrimRightSpace.simps) (simp add: TrimSpace_fixed_iff)
  finally show ?thesis by (simp add: TrimSpace_def left)
qed

lemma end_offset_skip:
  "\<forall>l \<in> set ls. TrimSpace l \<noteq> ''---'' \<Longrightarrow> end_offset i off (ls @ ''---'' # rest) =
     (if i = 0 \<and> ls = [] then Some 0 else Some (off + sum_list (map (\<lambda>l. length l + 1) ls)))"
proof (induction ls arbitrary: i off)
  case Nil
  have "TrimSpace ''---'' = ''---''" by (rule TrimSpace_visible) (simp_all add: visible_def)
  then show ?case by simp
qed simp

lemma lines_length: "sum_list (map (\<lambda>l. length l + 1) (Split s d)) = length s + 1"
  by (induction s) (auto split: list.splits)

text \<open>A file with front matter \<open>fm\<close> and instructions \<open>body\<close>, written the usual way.\<close>

definition skill_file :: "string \<Rightarrow> string \<Rightarrow> string" where
  "skill_file fm body = ''---'' @ CHR 0x0A # fm @ CHR 0x0A # ''---'' @ CHR 0x0A # body"

lemma skill_file_plain:
  assumes "TrimSpace body = body" "body \<noteq> []" "CHR 0x0D \<notin> set fm" "CHR 0x0D \<notin> set body"
  shows "ReplaceAll2 (TrimSpace (skill_file fm body)) (CHR 0x0D) (CHR 0x0A) [CHR 0x0A] = skill_file fm body"
proof -
  have "strip_space_rune (skill_file fm body) = None" by (simp add: skill_file_def strip_visible visible_def)
  moreover have "strip_space_rune_end body = None" using assms(1) by (simp add: TrimSpace_fixed_iff)
  then have "strip_space_rune_end (skill_file fm body) = None"
    using strip_end_after_line[OF _ assms(2), of "''---'' @ CHR 0x0A # fm @ CHR 0x0A # ''---''"] by (simp add: skill_file_def)
  ultimately have "TrimSpace (skill_file fm body) = skill_file fm body" by (simp add: TrimSpace_fixed_iff)
  moreover have "CHR 0x0D \<notin> set (skill_file fm body)" using assms(3,4) by (simp add: skill_file_def)
  ultimately show ?thesis by (simp add: ReplaceAll2_id)
qed

lemma skill_file_end:
  assumes "\<forall>l \<in> set (Split fm (CHR 0x0A)). TrimSpace l \<noteq> ''---''"
  shows "findFrontmatterEnd (CHR 0x0A # fm @ CHR 0x0A # ''---'' @ CHR 0x0A # body) = Some (length fm + 2)"
proof -
  have "Split (CHR 0x0A # fm @ CHR 0x0A # ''---'' @ CHR 0x0A # body) (CHR 0x0A) =
      ([] # Split fm (CHR 0x0A)) @ ''---'' # Split body (CHR 0x0A)"
    by (simp add: Split_append)
  moreover have "\<forall>l \<in> set ([] # Split fm (CHR 0x0A)). TrimSpace l \<noteq> ''---''" using assms by simp
  ultimately show ?thesis
    using lines_length[of fm "CHR 0x0A"] by (simp only: findFrontmatterEnd_def end_offset_skip) simp
qed

text \<open>C31. 
  A file that consists of trimmed, non-empty front matter without a delimiter line and of
  trimmed, non-empty instructions is read back: the front matter goes to the YAML reader unchanged, the
  instructions become the body, and the only error is the reader's. Without such a file at the path the
  result is neither a skill nor an error.
\<close>
theorem ParseSkillMD_roundtrip:
  assumes "TrimSpace fm = fm" "fm \<noteq> []" "TrimSpace body = body" "body \<noteq> []"
    and "CHR 0x0D \<notin> set fm" "CHR 0x0D \<notin> set body"
    and "\<forall>l \<in> set (Split fm (CHR 0x0A)). TrimSpace l \<noteq> ''---''"
  shows "ParseSkillMD (files(Join_path dir SkillMDFileName := Inr (skill_file fm body))) yaml dir =
      (case yaml fm of
         Inl err \<Rightarrow> Inl (Inr (InvalidFrontmatter err))
       | Inr (name, desc) \<Rightarrow> Inr (Some \<lparr>mdName = TrimSpace name, mdDescription = TrimSpace desc, mdBody = body\<rparr>)) \<and>
    ParseSkillMD (files(Join_path dir SkillMDFileName := Inl NotExist)) yaml dir = Inr None"
proof -
  let ?rest = "CHR 0x0A # fm @ CHR 0x0A # ''---'' @ CHR 0x0A # body"
  have parts: "take (length fm + 2) ?rest = CHR 0x0A # fm @ [CHR 0x0A]" "drop (length fm + 2 + 3) ?rest = CHR 0x0A # body"
    by (simp_all add: numeral_eq_Suc)
  have body: "TrimSpace (CHR 0x0A # body) = body"
    using assms(3) by (simp add: TrimSpace_def TrimLeftSpace_Cons)
  have "ParseSkillMDContent yaml (skill_file fm body) = (case yaml fm of
         Inl err \<Rightarrow> Inl (InvalidFrontmatter err)
       | Inr (name, desc) \<Rightarrow> Inr \<lparr>mdName = TrimSpace name, mdDescription = TrimSpace desc, mdBody = body\<rparr>)"
  proof -
    have "drop 3 (skill_file fm body) = ?rest" by (simp add: skill_file_def)
    moreover have "skill_file fm body \<noteq> []" "HasPrefix (skill_file fm body) ''---''" "skill_file fm body ! 3 \<noteq> CHR ''-''"
      by (simp_all add: skill_file_def HasPrefix_def)
    ultimately show ?thesis
      unfolding ParseSkillMDContent_def skill_file_plain[OF assms(3,4,5,6)] Let_def
      by (simp only: skill_file_end[OF assms(7)] parts option.case TrimSpace_line_around[OF assms(1,2)] body) (simp add: assms(2))
  qed
  then show ?thesis by (simp add: ParseSkillMD_def split: sum.split prod.split)
qed

theorem ParseSkillMD_roundtrip_witness:
  "ParseSkillMD ((\<lambda>f. Inl NotExist)(Join_path ''d'' SkillMDFileName := Inr (skill_file ''name: x'' ''Do it.'')))
     (\<lambda>t. if t = ''name: x'' then Inr (''x'', []) else Inl ''?'') ''d'' =
   Inr (Some \<lparr>mdName = ''x'', mdDescription = [], mdBody = ''Do it.''\<rparr>)"
proof -
  have t: "TrimSpace ''name: x'' = ''name: x''" "TrimSpace ''Do it.'' = ''Do it.''" "TrimSpace ''x'' = ''x''"
    by (rule TrimSpace_visible; simp add: visible_def)+
  with ParseSkillMD_roundtrip[of "''name: x''" "''Do it.''" "\<lambda>f. Inl NotExist" "''d''" "\<lambda>t. if t = ''name: x'' then Inr (''x'', []) else Inl ''?''"]
  show ?thesis by simp
qed

end
