(* ===== verification/Runtime_Parts.thy ===== *)
theory Runtime_Parts
  imports Planner
begin

text \<open>
  Small parts that other repositories build on: spans of a trace (\<open>telemetry/trace.go\<close>), the request-scoped
  assistant (\<open>assistant/assistant_runtime.go\<close>), users (\<open>access/auth/user.go\<close>), constants in schemas and the
  adapter for restricted model access (\<open>ai/types\<close>).
\<close>

section \<open>Spans (trace.go)\<close>

text \<open>Instants are nanoseconds; the clock is an argument.\<close>

record SpanEvent =
  seName :: string
  seTimestamp :: int
  seAttributes :: "(string, string) gomap"

datatype SpanKind = SpanKindExecution | SpanKindPlanner | SpanKindToolCall | SpanKindProvider | SpanKindWasm | SpanKindSkill | SpanKindCompaction

datatype SpanStatus = SpanStatusOK | SpanStatusError | SpanStatusTimeout | SpanStatusCancelled

record Span =
  spTraceID :: string
  spSpanID :: string
  spParentSpanID :: string
  spName :: string
  spKind :: SpanKind
  spStartTime :: int
  spEndTime :: int
  spStatus :: SpanStatus
  spAttributes :: "(string, string) gomap"
  spEvents :: "SpanEvent list"

text \<open>\<open>time.Time.Sub\<close>: a difference that does not fit 64 bits becomes the nearest duration that does.\<close>

definition time_Sub :: "int \<Rightarrow> int \<Rightarrow> 64 word" where
  "time_Sub t u =
     (let d = t - u in
      if - (2 ^ 63) \<le> d \<and> d < 2 ^ 63 then word_of_int d
      else if t < u then word_of_int (- (2 ^ 63)) else word_of_int (2 ^ 63 - 1))"

definition SpanDuration :: "Span \<Rightarrow> 64 word" where
  "SpanDuration s = time_Sub (spEndTime s) (spStartTime s)"

definition AddEvent :: "int \<Rightarrow> string \<Rightarrow> (string, string) gomap \<Rightarrow> Span \<Rightarrow> Span" where
  "AddEvent now name attrs s = s\<lparr>spEvents := spEvents s @ [\<lparr>seName = name, seTimestamp = now, seAttributes = attrs\<rparr>]\<rparr>"

definition NewTraceID :: "(nat \<Rightarrow> string) \<Rightarrow> nat \<Rightarrow> string \<times> nat" where
  "NewTraceID uuid n = (uuid n, Suc n)"

definition NewSpanID :: "(nat \<Rightarrow> string) \<Rightarrow> nat \<Rightarrow> string \<times> nat" where
  "NewSpanID uuid n = (uuid n, Suc n)"

section \<open>Assistants (assistant_runtime.go)\<close>

record AssistantRuntime =
  arAssistantID :: string
  arTenantID :: string
  arSoul :: AssistantSoul
  arSkills :: "string list"
  arPolicies :: "string list"
  arMemoryScope :: string
  arToolPermissions :: "string list"

definition defaultSystemPrompt :: string where
  "defaultSystemPrompt = ''You are a helpful AI assistant.''"

definition EffectiveSystemPrompt :: "AssistantRuntime \<Rightarrow> string" where
  "EffectiveSystemPrompt r =
     (if asSystemPrompt (arSoul r) \<noteq> [] then asSystemPrompt (arSoul r) else defaultSystemPrompt)"

definition EffectivePersonality :: "AssistantRuntime \<Rightarrow> string" where
  "EffectivePersonality r = asPersonality (arSoul r)"

definition EffectiveInstructions :: "AssistantRuntime \<Rightarrow> string" where
  "EffectiveInstructions r = asInstructions (arSoul r)"

definition AllowedSkills :: "AssistantRuntime \<Rightarrow> string list" where
  "AllowedSkills r = asAllowedSkills (arSoul r)"

definition AllowedTools :: "AssistantRuntime \<Rightarrow> string list" where
  "AllowedTools r = asAllowedTools (arSoul r)"

section \<open>Users (user.go)\<close>

record User =
  uID :: string
  uTenantID :: string
  uName :: string
  uRole :: string

definition IsAdmin :: "User option \<Rightarrow> bool" where
  "IsAdmin u = (case u of None \<Rightarrow> False | Some u \<Rightarrow> uRole u = ''admin'')"

section \<open>Constants and restricted model access (ai/types)\<close>

record ConstValue =
  cvVal :: goval

definition ConstMarshalJSON :: "stdlib \<Rightarrow> ConstValue \<Rightarrow> string option" where
  "ConstMarshalJSON L c = json_marshal L (cvVal c)"

definition ConstUnmarshalJSON :: "stdlib \<Rightarrow> string \<Rightarrow> ConstValue \<Rightarrow> string option \<times> ConstValue" where
  "ConstUnmarshalJSON L data c = (case json_unmarshal L data of
     Inl err \<Rightarrow> (Some err, c)
   | Inr v \<Rightarrow> (None, c\<lparr>cvVal := v\<rparr>))"

record LLMRequest =
  lqSystemPrompt :: string
  lqContents :: "ContentBlock list"
  lqMaxTokens :: int
  lqTemperature :: gofloat

record LLMResponse =
  lsContent :: string
  lsUsage :: TokenUsage
  lsModelUsed :: string
  lsLatency :: int

definition LLMAccessFunc_Generate :: "('ctx \<Rightarrow> LLMRequest \<Rightarrow> string + LLMResponse) \<Rightarrow> 'ctx \<Rightarrow> LLMRequest \<Rightarrow> string + LLMResponse" where
  "LLMAccessFunc_Generate f ctx req = f ctx req"

section \<open>Properties\<close>

lemma time_Sub_sint: "sint (time_Sub t u) = max (- (2 ^ 63)) (min (2 ^ 63 - 1) (t - u))"
proof -
  have "sint (word_of_int i :: 64 word) = i" if "- (2 ^ 63) \<le> i" "i < 2 ^ 63" for i
    using that by (simp add: sint_sbintrunc' signed_take_bit_int_eq_self)
  moreover define d where "d = t - u"
  moreover have "t < u \<longleftrightarrow> d < 0" by (simp add: d_def)
  ultimately show ?thesis by (auto simp: time_Sub_def Let_def max_def min_def simp flip: d_def)
qed

text \<open>
  The duration of a span is the distance between its instants, clamped to 64 bits, so longer spans
  never report shorter durations; it does not depend on the events, which \<open>AddEvent\<close> only appends.
\<close>
theorem span_duration_clamped:
  "sint (SpanDuration s) = max (- (2 ^ 63)) (min (2 ^ 63 - 1) (spEndTime s - spStartTime s)) \<and>
   (spEndTime s - spStartTime s \<le> spEndTime s' - spStartTime s' \<longrightarrow> sint (SpanDuration s) \<le> sint (SpanDuration s')) \<and>
   SpanDuration (AddEvent now name attrs s) = SpanDuration s \<and>
   butlast (spEvents (AddEvent now name attrs s)) = spEvents s"
  by (auto simp: SpanDuration_def time_Sub_sint AddEvent_def max_def min_def)

text \<open>A constant is read back when the decoder inverts the encoder at it, and kept when decoding fails.\<close>

lemma const_roundtrip:
  "ConstMarshalJSON L c = Some data \<Longrightarrow> json_unmarshal L data = Inr (cvVal c) \<Longrightarrow> ConstUnmarshalJSON L data c' = (None, c'\<lparr>cvVal := cvVal c\<rparr>)"
  by (simp add: ConstUnmarshalJSON_def)

lemma EffectiveSystemPrompt_set: "EffectiveSystemPrompt r \<noteq> []"
  by (simp add: EffectiveSystemPrompt_def defaultSystemPrompt_def)

end
