(* ===== verification/Event_Bus.thy ===== *)
theory Event_Bus
  imports Go_Prelude "HOL-Library.Multiset"
begin

text \<open>
  Publishers shared between goroutines. The skill registry and the audit emitter change their state
  under a lock, copy the list of receivers under a lock, and call the receivers with no lock held, so that
  calls of different goroutines interleave between these parts. Here is the step relation they have in common
  and the interface that accounts for every call.
\<close>

section \<open>Steps\<close>

text \<open>
  What a goroutine has left to do: it has changed the state and not yet read the list of receivers, or
  it has read the list and still has to call these. Goroutines have no names, so those at work are a
  multiset. A receiver that calls the publisher again is one more goroutine.
\<close>

datatype ('r, 'e) activity = Announcing 'e | Calling "'r list" 'e

record ('s, 'r, 'e) bus =
  busState :: 's
  busActive :: "('r, 'e) activity multiset"
  busEvents :: "'e list"

text \<open>
  \<open>change\<close> are the locked changes with the event they announce, if any; \<open>busEvents\<close> remembers the events in
  the order of their changes.
\<close>

inductive bus_step :: "('s \<Rightarrow> 's \<Rightarrow> 'e option \<Rightarrow> bool) \<Rightarrow> ('s \<Rightarrow> 'r list) \<Rightarrow> ('r \<Rightarrow> 'e \<Rightarrow> 's \<Rightarrow> 's) \<Rightarrow>
    ('s, 'r, 'e) bus \<Rightarrow> ('s, 'r, 'e) bus \<Rightarrow> bool"
  for change receivers call where
  quiet: "change (busState B) s None \<Longrightarrow> bus_step change receivers call B (B\<lparr>busState := s\<rparr>)"
| announce: "change (busState B) s (Some ev) \<Longrightarrow>
    bus_step change receivers call B
      (B\<lparr>busState := s, busActive := add_mset (Announcing ev) (busActive B), busEvents := busEvents B @ [ev]\<rparr>)"
| snapshot: "busActive B = add_mset (Announcing ev) A \<Longrightarrow>
    bus_step change receivers call B (B\<lparr>busActive := add_mset (Calling (receivers (busState B)) ev) A\<rparr>)"
| invoke: "busActive B = add_mset (Calling (r # rs) ev) A \<Longrightarrow>
    bus_step change receivers call B
      (B\<lparr>busState := call r ev (busState B), busActive := add_mset (Calling rs ev) A\<rparr>)"
| return: "busActive B = add_mset (Calling [] ev) A \<Longrightarrow> bus_step change receivers call B (B\<lparr>busActive := A\<rparr>)"

abbreviation bus_run :: "('s \<Rightarrow> 's \<Rightarrow> 'e option \<Rightarrow> bool) \<Rightarrow> ('s \<Rightarrow> 'r list) \<Rightarrow> ('r \<Rightarrow> 'e \<Rightarrow> 's \<Rightarrow> 's) \<Rightarrow>
    ('s, 'r, 'e) bus \<Rightarrow> ('s, 'r, 'e) bus \<Rightarrow> bool" where
  "bus_run change receivers call \<equiv> (bus_step change receivers call)\<^sup>*\<^sup>*"

definition bus_start :: "'s \<Rightarrow> ('s, 'r, 'e) bus" where
  "bus_start s = \<lparr>busState = s, busActive = {#}, busEvents = []\<rparr>"

definition at_rest :: "('s, 'r, 'e) bus \<Rightarrow> bool" where
  "at_rest B \<longleftrightarrow> busActive B = {#}"

lemma bus_start_simps [simp]:
  "busState (bus_start s) = s" "busActive (bus_start s) = {#}" "busEvents (bus_start s) = []"
  by (simp_all add: bus_start_def)

text \<open>Whatever every locked change and every call keeps holds in every state of every run.\<close>

lemma bus_run_invariant:
  assumes "bus_run change receivers call B B'" and "P (busState B)"
    and "\<And>s s' e. P s \<Longrightarrow> change s s' e \<Longrightarrow> P s'" and "\<And>s r e. P s \<Longrightarrow> P (call r e s)"
  shows "P (busState B')"
  using assms(1,2) by (induction rule: rtranclp_induct) (auto elim!: bus_step.cases intro: assms(3,4))

text \<open>A goroutine that is left alone makes all its calls.\<close>

lemma bus_run_calls:
  "busActive B = add_mset (Calling rs ev) A \<Longrightarrow>
     bus_run change receivers call B (B\<lparr>busState := fold (\<lambda>r. call r ev) rs (busState B), busActive := A\<rparr>)"
proof (induction rs arbitrary: B)
  case Nil
  then show ?case by (auto intro!: r_into_rtranclp dest: bus_step.return)
next
  case (Cons r rs)
  let ?B = "B\<lparr>busState := call r ev (busState B), busActive := add_mset (Calling rs ev) A\<rparr>"
  have "bus_step change receivers call B ?B" by (rule bus_step.invoke) (rule Cons.prems)
  moreover have "bus_run change receivers call ?B (?B\<lparr>busState := fold (\<lambda>r. call r ev) rs (busState ?B), busActive := A\<rparr>)"
    by (rule Cons.IH) simp
  ultimately show ?case by (auto intro: converse_rtranclp_into_rtranclp)
qed

lemma bus_run_announced:
  assumes "busActive B = add_mset (Announcing ev) A"
  shows "bus_run change receivers call B
    (B\<lparr>busState := fold (\<lambda>r. call r ev) (receivers (busState B)) (busState B), busActive := A\<rparr>)"
proof -
  let ?B = "B\<lparr>busActive := add_mset (Calling (receivers (busState B)) ev) A\<rparr>"
  have "bus_step change receivers call B ?B" using assms by (rule bus_step.snapshot)
  moreover have "bus_run change receivers call ?B (?B\<lparr>busState := fold (\<lambda>r. call r ev) (receivers (busState B)) (busState ?B), busActive := A\<rparr>)"
    by (rule bus_run_calls) simp
  ultimately show ?thesis by (auto intro: converse_rtranclp_into_rtranclp)
qed

lemma bus_run_alone:
  assumes "change (busState B) s (Some ev)"
  shows "bus_run change receivers call B
    (B\<lparr>busState := fold (\<lambda>r. call r ev) (receivers s) s, busEvents := busEvents B @ [ev]\<rparr>)"
proof -
  let ?B = "B\<lparr>busState := s, busActive := add_mset (Announcing ev) (busActive B), busEvents := busEvents B @ [ev]\<rparr>"
  have "bus_step change receivers call B ?B" using assms by (rule bus_step.announce)
  moreover have "bus_run change receivers call ?B (?B\<lparr>busState := fold (\<lambda>r. call r ev) (receivers s) s, busActive := busActive B\<rparr>)"
    using bus_run_announced[of ?B ev "busActive B" change receivers call] by simp
  ultimately have "bus_run change receivers call B (?B\<lparr>busState := fold (\<lambda>r. call r ev) (receivers s) s, busActive := busActive B\<rparr>)"
    by (rule converse_rtranclp_into_rtranclp)
  then show ?thesis by (cases B) simp
qed

section \<open>Accounting for calls\<close>

lemma count_list_distinct: "distinct xs \<Longrightarrow> count_list xs x = of_bool (x \<in> set xs)"
  by (induction xs) auto

text \<open>How many calls of \<open>r\<close> with \<open>e\<close> a goroutine still owes, if \<open>r\<close> is registered \<open>k\<close> times.\<close>

fun owed :: "nat \<Rightarrow> 'r \<Rightarrow> 'e \<Rightarrow> ('r, 'e) activity \<Rightarrow> nat" where
  "owed k r e (Announcing ev) = (if ev = e then k else 0)"
| "owed k r e (Calling rs ev) = (if ev = e then count_list rs r else 0)"

definition all_owed :: "nat \<Rightarrow> 'r \<Rightarrow> 'e \<Rightarrow> ('s, 'r, 'e) bus \<Rightarrow> nat" where
  "all_owed k r e B = (\<Sum>a \<in># busActive B. owed k r e a)"

text \<open>A step during which \<open>r\<close> is registered \<open>k\<close> times.\<close>

definition steady_step :: "('s \<Rightarrow> 's \<Rightarrow> 'e option \<Rightarrow> bool) \<Rightarrow> ('s \<Rightarrow> 'r list) \<Rightarrow> ('r \<Rightarrow> 'e \<Rightarrow> 's \<Rightarrow> 's) \<Rightarrow>
    nat \<Rightarrow> 'r \<Rightarrow> ('s, 'r, 'e) bus \<Rightarrow> ('s, 'r, 'e) bus \<Rightarrow> bool" where
  "steady_step change receivers call k r B B' \<longleftrightarrow>
     bus_step change receivers call B B' \<and> count_list (receivers (busState B)) r = k"

text \<open>
  The interface of a publisher: \<open>calls\<close> is the record of the calls made so far, which a call extends and
  no other change touches, and a call does not change the receivers.
\<close>

locale publisher =
  fixes change :: "'s \<Rightarrow> 's \<Rightarrow> 'e option \<Rightarrow> bool"
    and receivers :: "'s \<Rightarrow> 'r list"
    and call :: "'r \<Rightarrow> 'e \<Rightarrow> 's \<Rightarrow> 's"
    and calls :: "'s \<Rightarrow> ('r \<times> 'e) list"
  assumes calls_change: "change s s' ev \<Longrightarrow> calls s' = calls s"
    and calls_call: "calls (call r e s) = calls s @ [(r, e)]"
    and receivers_call: "receivers (call r e s) = receivers s"
begin

definition balanced :: "nat \<Rightarrow> 'r \<Rightarrow> 'e \<Rightarrow> ('s, 'r, 'e) bus \<Rightarrow> bool" where
  "balanced k r e B \<longleftrightarrow> count_list (calls (busState B)) (r, e) + all_owed k r e B = k * count_list (busEvents B) e"

lemma step_balanced:
  assumes "bus_step change receivers call B B'" and "balanced k r e B" and "count_list (receivers (busState B)) r = k"
  shows "balanced k r e B'"
  using assms(1)
proof cases
  case (quiet s)
  with assms(2) calls_change[OF quiet(2)] show ?thesis by (simp add: balanced_def all_owed_def)
next
  case (announce s ev)
  with assms(2) calls_change[OF announce(2)] show ?thesis by (auto simp: balanced_def all_owed_def algebra_simps)
next
  case (snapshot ev A)
  with assms(2,3) show ?thesis by (auto simp: balanced_def all_owed_def split: if_splits)
next
  case (invoke x rs ev A)
  with assms(2) show ?thesis by (auto simp: balanced_def all_owed_def calls_call)
next
  case (return ev A)
  with assms(2) show ?thesis by (auto simp: balanced_def all_owed_def split: if_splits)
qed

text \<open>
  A receiver that stays registered the same number of times is called, for every event announced, that
  many times: no more while goroutines are at work, and exactly so when all have returned.
\<close>

lemma run_accounts:
  assumes "(steady_step change receivers call k r)\<^sup>*\<^sup>* (bus_start s) B" and "calls s = []"
  shows "count_list (calls (busState B)) (r, e) \<le> k * count_list (busEvents B) e"
    and "at_rest B \<Longrightarrow> count_list (calls (busState B)) (r, e) = k * count_list (busEvents B) e"
proof -
  from assms(1) have "balanced k r e B"
    by (induction rule: rtranclp_induct)
      (use assms(2) in \<open>auto simp: balanced_def all_owed_def steady_step_def dest: step_balanced\<close>)
  then show "count_list (calls (busState B)) (r, e) \<le> k * count_list (busEvents B) e"
    and "at_rest B \<Longrightarrow> count_list (calls (busState B)) (r, e) = k * count_list (busEvents B) e"
    by (simp_all add: balanced_def at_rest_def all_owed_def)
qed

end

end
