(* ===== verification/Registry_Concurrent.thy ===== *)
theory Registry_Concurrent
  imports Registry_Properties Event_Bus
begin

text \<open>
  The skill registry used by several goroutines at once (\<open>registry/skills/in_memory_registry.go\<close>). The
  store changes under its own lock, the callbacks are copied under another and then invoked with no lock
  held. Shown is what survives of the sequential properties: the contents are those of a sequential run,
  every event is delivered once, but not in the order of the changes.
\<close>

section \<open>The locked part of a call\<close>

text \<open>\<open>Register\<close> and \<open>Unregister\<close> up to the point where they have changed the store.\<close>

definition RegisterStore :: "Skill option \<Rightarrow> InMemoryRegistry \<Rightarrow> InMemoryRegistry \<times> (registry_error + ChangeEvent)" where
  "RegisterStore skill r = (case skill of
     None \<Rightarrow> (r, Inl NilSkill)
   | Some s \<Rightarrow>
       (let ident = skID s in
        if ident = [] then (r, Inl EmptySkillID)
        else case skValidate s of
          Some err \<Rightarrow> (r, Inl (InvalidSkill ident err))
        | None \<Rightarrow>
            (case PutIfAbsent ident s (reg_store r) of
               (st, ok) \<Rightarrow>
                 if \<not> ok then (r, Inl (SkillAlreadyExists ident))
                 else (r\<lparr>reg_store := st\<rparr>, Inr (RegisterEvent ident)))))"

definition UnregisterStore :: "string \<Rightarrow> InMemoryRegistry \<Rightarrow> InMemoryRegistry \<times> (registry_error + ChangeEvent)" where
  "UnregisterStore ident r = (case DeleteIfExists ident (reg_store r) of
     (st, ok) \<Rightarrow>
       if \<not> ok then (r, Inl (SkillNotFound ident))
       else (r\<lparr>reg_store := st\<rparr>, Inr (UnregisterEvent ident)))"

text \<open>The rest of both calls: copy the callbacks, then invoke them.\<close>

definition announce :: "InMemoryRegistry \<times> (registry_error + ChangeEvent) \<Rightarrow> InMemoryRegistry \<times> registry_error option" where
  "announce res = (case res of
     (r, Inl e) \<Rightarrow> (r, Some e)
   | (r, Inr ev) \<Rightarrow> (fireCallbacks (snapshotCallbacks r) ev r, None))"

lemma Register_parts: "Register s r = announce (RegisterStore s r)"
  by (auto simp: Register_def RegisterStore_def announce_def Let_def split: option.split prod.split)

lemma Unregister_parts: "Unregister i r = announce (UnregisterStore i r)"
  by (auto simp: Unregister_def UnregisterStore_def announce_def Let_def split: prod.split)

definition store_part :: "reg_call \<Rightarrow> InMemoryRegistry \<Rightarrow> InMemoryRegistry \<times> (registry_error + ChangeEvent) option" where
  "store_part c r = (case c of
     CRegister s \<Rightarrow> map_prod id Some (RegisterStore s r)
   | CUnregister i \<Rightarrow> map_prod id Some (UnregisterStore i r)
   | CSubscribe cb \<Rightarrow> (Subscribe cb r, None))"

definition announced :: "reg_call \<Rightarrow> InMemoryRegistry \<Rightarrow> ChangeEvent option" where
  "announced c r = (case snd (store_part c r) of Some (Inr ev) \<Rightarrow> Some ev | _ \<Rightarrow> None)"

text \<open>The locked changes of the registry, and a single invocation of a callback.\<close>

inductive reg_change :: "InMemoryRegistry \<Rightarrow> InMemoryRegistry \<Rightarrow> ChangeEvent option \<Rightarrow> bool" where
  reg_change: "reg_change r (fst (store_part c r)) (announced c r)"

inductive_simps reg_change_iff: "reg_change r r' ev"

definition fire_one :: "nat \<Rightarrow> ChangeEvent \<Rightarrow> InMemoryRegistry \<Rightarrow> InMemoryRegistry" where
  "fire_one cb event r = fireCallbacks [cb] event r"

lemma fire_all: "fold (\<lambda>cb. fire_one cb event) cbs r = fireCallbacks cbs event r"
  by (induction cbs arbitrary: r) (simp_all add: fire_one_def fireCallbacks_def)

abbreviation reg_bus_run :: "(InMemoryRegistry, nat, ChangeEvent) bus \<Rightarrow> (InMemoryRegistry, nat, ChangeEvent) bus \<Rightarrow> bool" where
  "reg_bus_run \<equiv> bus_run reg_change snapshotCallbacks fire_one"

lemma store_part_log: "reg_log (fst (store_part c r)) = reg_log r"
  by (auto simp: store_part_def RegisterStore_def UnregisterStore_def Subscribe_def Let_def
      split: reg_call.split option.split prod.split)

lemma fire_one_simps [simp]:
  "reg_store (fire_one cb e r) = reg_store r" "reg_callbacks (fire_one cb e r) = reg_callbacks r"
  "reg_log (fire_one cb e r) = reg_log r @ [(cb, e)]"
  by (simp_all add: fire_one_def fireCallbacks_def)

interpretation reg: publisher reg_change snapshotCallbacks fire_one reg_log
  by unfold_locales (auto simp: store_part_log snapshotCallbacks_def reg_change_iff)

section \<open>The contents are those of a sequential run\<close>

text \<open>A registry without its log, and the events a sequence of calls announces.\<close>

definition silent :: "InMemoryRegistry \<Rightarrow> InMemoryRegistry" where
  "silent r = r\<lparr>reg_log := []\<rparr>"

fun reg_events :: "reg_call list \<Rightarrow> InMemoryRegistry \<Rightarrow> ChangeEvent list" where
  "reg_events [] r = []"
| "reg_events (c # cs) r = (case announced c r of Some ev \<Rightarrow> [ev] | None \<Rightarrow> []) @ reg_events cs (reg_run c r)"

lemma reg_events_append: "reg_events (cs @ ds) r = reg_events cs r @ reg_events ds (fold reg_run cs r)"
  by (induction cs arbitrary: r) simp_all

lemma store_part_silent: "store_part c (silent r) = map_prod silent id (store_part c r)"
  by (cases c) (auto simp: store_part_def silent_def RegisterStore_def UnregisterStore_def Subscribe_def Let_def
      split: option.split prod.split)

lemma announced_silent: "silent r = silent r' \<Longrightarrow> announced c r = announced c r'"
  using store_part_silent[of c r] store_part_silent[of c r'] by (metis announced_def snd_map_prod id_apply)

lemma reg_run_parts: "reg_run c r = (case announced c r of
    None \<Rightarrow> fst (store_part c r)
  | Some ev \<Rightarrow> fireCallbacks (snapshotCallbacks (fst (store_part c r))) ev (fst (store_part c r)))"
  by (cases c) (auto simp: Register_parts Unregister_parts announce_def store_part_def announced_def
      split: prod.split sum.split)

lemma silent_fire [simp]: "silent (fireCallbacks cbs ev r) = silent r" "silent (fire_one cb ev r) = silent r"
  by (simp_all add: silent_def fireCallbacks_def fire_one_def)

lemma silent_run: "silent (reg_run c r) = silent (fst (store_part c r))"
  by (simp add: reg_run_parts split: option.split)

lemma silent_store: "silent r = silent r' \<Longrightarrow> silent (fst (store_part c r)) = silent (fst (store_part c r'))"
  using store_part_silent[of c r] store_part_silent[of c r'] by (metis fst_map_prod)

definition explained :: "InMemoryRegistry \<Rightarrow> reg_call list \<Rightarrow> (InMemoryRegistry, nat, ChangeEvent) bus \<Rightarrow> bool" where
  "explained r0 cs B \<longleftrightarrow> silent (busState B) = silent (fold reg_run cs r0) \<and> busEvents B = reg_events cs r0"

lemma explained_change:
  assumes "explained r0 cs B" and "reg_change (busState B) r ev"
  shows "\<exists>cs'. silent r = silent (fold reg_run cs' r0) \<and> busEvents B @ (case ev of Some e \<Rightarrow> [e] | None \<Rightarrow> []) = reg_events cs' r0"
  using assms(2)
proof cases
  case (reg_change c)
  have same: "silent (busState B) = silent (fold reg_run cs r0)" "busEvents B = reg_events cs r0"
    using assms(1) by (simp_all add: explained_def)
  have "silent r = silent (fold reg_run (cs @ [c]) r0)"
    using silent_store[OF same(1), of c] silent_run[of c "fold reg_run cs r0"] reg_change(1) by simp
  moreover have "busEvents B @ (case ev of Some e \<Rightarrow> [e] | None \<Rightarrow> []) = reg_events (cs @ [c]) r0"
    using announced_silent[OF same(1), of c] same(2) reg_change(2) by (simp add: reg_events_append)
  ultimately show ?thesis by blast
qed

lemma explained_step:
  assumes "bus_step reg_change snapshotCallbacks fire_one B B'" and "explained r0 cs B"
  shows "\<exists>cs'. explained r0 cs' B'"
  using assms(1)
proof cases
  case (quiet r)
  with explained_change[OF assms(2) quiet(2)] show ?thesis by (auto simp: explained_def)
next
  case (announce r ev)
  with explained_change[OF assms(2) announce(2)] show ?thesis by (auto simp: explained_def)
qed (use assms(2) in \<open>auto simp: explained_def\<close>)

lemma run_explained: "reg_bus_run (bus_start r) B \<Longrightarrow> \<exists>cs. explained r cs B"
proof (induction rule: rtranclp_induct)
  case base
  show ?case by (intro exI[of _ "[]"]) (simp add: explained_def)
qed (use explained_step in blast)

lemma sequential_run: "\<exists>B. reg_bus_run (bus_start r) B \<and> at_rest B \<and> busState B = fold reg_run cs r"
proof (induction cs rule: rev_induct)
  case Nil
  show ?case by (intro exI[of _ "bus_start r"]) (simp add: at_rest_def)
next
  case (snoc c cs)
  then obtain B where B: "reg_bus_run (bus_start r) B" "at_rest B" "busState B = fold reg_run cs r" by blast
  let ?s = "fst (store_part c (busState B))"
  have ch: "reg_change (busState B) ?s (announced c (busState B))" by (rule reg_change.intros)
  show ?case
  proof (cases "announced c (busState B)")
    case None
    with ch have "bus_step reg_change snapshotCallbacks fire_one B (B\<lparr>busState := ?s\<rparr>)" by (simp add: bus_step.quiet)
    with B(1) have "reg_bus_run (bus_start r) (B\<lparr>busState := ?s\<rparr>)" by simp
    with None B show ?thesis by (intro exI[of _ "B\<lparr>busState := ?s\<rparr>"]) (simp add: at_rest_def reg_run_parts[of c])
  next
    case (Some ev)
    let ?B = "B\<lparr>busState := fireCallbacks (snapshotCallbacks ?s) ev ?s, busEvents := busEvents B @ [ev]\<rparr>"
    have "reg_bus_run B ?B" using bus_run_alone[of reg_change B ?s ev snapshotCallbacks fire_one] ch Some by (simp add: fire_all)
    with B(1) have "reg_bus_run (bus_start r) ?B" by simp
    with Some B show ?thesis by (intro exI[of _ ?B]) (simp add: at_rest_def reg_run_parts[of c])
  qed
qed

text \<open>C17. 
  However the calls of several goroutines interleave, the registry holds what some sequence of calls, one
  after the other, would have left, with the same callbacks, and has announced the events these calls announce, in
  their order. Conversely every sequence of calls is a run of a single goroutine, with the same callbacks invoked.
\<close>

theorem concurrent_registry_is_sequential:
  "(\<forall>B. reg_bus_run (bus_start r) B \<longrightarrow> (\<exists>cs. reg_store (busState B) = reg_store (fold reg_run cs r) \<and>
      reg_callbacks (busState B) = reg_callbacks (fold reg_run cs r) \<and> busEvents B = reg_events cs r)) \<and>
   (\<forall>cs. \<exists>B. reg_bus_run (bus_start r) B \<and> at_rest B \<and> busState B = fold reg_run cs r)"
proof (intro conjI allI impI sequential_run)
  fix B assume "reg_bus_run (bus_start r) B"
  then obtain cs where cs: "silent (busState B) = silent (fold reg_run cs r)" "busEvents B = reg_events cs r"
    using run_explained unfolding explained_def by blast
  then show "\<exists>cs. reg_store (busState B) = reg_store (fold reg_run cs r) \<and>
      reg_callbacks (busState B) = reg_callbacks (fold reg_run cs r) \<and> busEvents B = reg_events cs r"
    by (intro exI[of _ cs]) (auto simp: silent_def dest: arg_cong[where f = reg_store] arg_cong[where f = reg_callbacks])
qed

section \<open>Every event is delivered once\<close>

lemma silent_same: "silent r = silent r' \<Longrightarrow> reg_store r = reg_store r' \<and> reg_callbacks r = reg_callbacks r'"
  by (cases r; cases r') (simp add: silent_def)

lemma reg_inv_silent: "silent r = silent r' \<Longrightarrow> reg_inv r = reg_inv r'" "silent r = silent r' \<Longrightarrow> reg_ids r = reg_ids r'"
  by (drule silent_same, simp add: reg_inv_def reg_ids_def)+

lemma announced_ids:
  assumes "reg_inv r"
  shows "case announced c r of
     Some (RegisterEvent i) \<Rightarrow> i \<notin> reg_ids r \<and> reg_ids (reg_run c r) = insert i (reg_ids r)
   | Some (UnregisterEvent i) \<Rightarrow> i \<in> reg_ids r \<and> reg_ids (reg_run c r) = reg_ids r - {i}
   | None \<Rightarrow> reg_ids (reg_run c r) = reg_ids r"
proof -
  have inv: "store_inv (reg_store r)" using assms by (simp add: reg_inv_def)
  show ?thesis
  proof (cases c)
    case (CRegister s)
    with inv show ?thesis
      by (cases s) (auto simp: announced_def store_part_def RegisterStore_def Register_parts announce_def Let_def ms.put_new
          reg_ids_def ms.look_ins fireCallbacks_def split: option.split)
  next
    case (CUnregister i)
    with inv show ?thesis
      by (auto simp: announced_def store_part_def UnregisterStore_def Unregister_parts announce_def ms.del_old
          reg_ids_def ms.look_rem fireCallbacks_def)
  qed (simp add: announced_def store_part_def Subscribe_def reg_ids_def)
qed

text \<open>Registrations and removals of an identifier balance, up to whether it is registered before and after.\<close>

lemma reg_events_balance:
  "reg_inv r \<Longrightarrow> count_list (reg_events cs r) (RegisterEvent i) + of_bool (i \<in> reg_ids r) =
     count_list (reg_events cs r) (UnregisterEvent i) + of_bool (i \<in> reg_ids (fold reg_run cs r))"
proof (induction cs arbitrary: r)
  case (Cons c cs)
  define es where "es = reg_events cs (reg_run c r)"
  define S where "S = reg_ids (fold reg_run cs (reg_run c r))"
  have rest: "count_list es (RegisterEvent i) + of_bool (i \<in> reg_ids (reg_run c r)) =
      count_list es (UnregisterEvent i) + of_bool (i \<in> S)"
    using Cons.IH[of "reg_run c r"] reg_run_inv[OF Cons.prems] unfolding es_def S_def by blast
  have step: "reg_events (c # cs) r = (case announced c r of Some ev \<Rightarrow> [ev] | None \<Rightarrow> []) @ es" "reg_ids (fold reg_run (c # cs) r) = S"
    by (simp_all add: es_def S_def)
  note ids = announced_ids[OF Cons.prems, of c]
  show ?case
  proof (cases "announced c r")
    case None
    with rest ids show ?thesis unfolding step by simp
  next
    case (Some ev)
    with rest ids show ?thesis unfolding step by (cases ev) (auto simp: of_bool_def split: if_splits)
  qed
qed simp

lemma concurrent_balance:
  assumes "reg_bus_run (bus_start r) B" and "reg_inv r" and "reg_ids r = {}"
  shows "reg_inv (busState B)"
    and "count_list (busEvents B) (RegisterEvent i) = count_list (busEvents B) (UnregisterEvent i) + of_bool (i \<in> reg_ids (busState B))"
proof -
  obtain cs where cs: "silent (busState B) = silent (fold reg_run cs r)" "busEvents B = reg_events cs r"
    using assms(1) run_explained unfolding explained_def by blast
  show "reg_inv (busState B)" using reg_inv_silent(1)[OF cs(1)] reg_runs_inv[OF assms(2)] by simp
  show "count_list (busEvents B) (RegisterEvent i) = count_list (busEvents B) (UnregisterEvent i) + of_bool (i \<in> reg_ids (busState B))"
    using reg_events_balance[OF assms(2), of cs i] assms(3) cs(2) reg_inv_silent(2)[OF cs(1)] by simp
qed

lemma callbacks_grow:
  "bus_step reg_change snapshotCallbacks fire_one B B' \<Longrightarrow>
     count_list (reg_callbacks (busState B)) c \<le> count_list (reg_callbacks (busState B')) c"
proof -
  have part: "count_list (reg_callbacks r) c \<le> count_list (reg_callbacks (fst (store_part x r))) c" for x r
    by (cases x) (auto simp: store_part_def RegisterStore_def UnregisterStore_def Subscribe_def Let_def split: option.split prod.split)
  assume "bus_step reg_change snapshotCallbacks fire_one B B'"
  then show ?thesis by cases (auto simp: reg_change_iff intro: part)
qed

lemma steady_run:
  assumes "reg_bus_run B0 B" and "count_list (reg_callbacks (busState B0)) c = k" and "count_list (reg_callbacks (busState B)) c = k"
  shows "(steady_step reg_change snapshotCallbacks fire_one k c)\<^sup>*\<^sup>* B0 B"
  using assms(1,3)
proof (induction rule: rtranclp_induct)
  case (step B B')
  from step.hyps(1) have "count_list (reg_callbacks (busState B0)) c \<le> count_list (reg_callbacks (busState B)) c"
    by (induction rule: rtranclp_induct) (auto intro: le_trans callbacks_grow)
  then have "count_list (reg_callbacks (busState B)) c = k"
    using callbacks_grow[OF step.hyps(2), of c] assms(2) step.prems by simp
  moreover from this step.hyps(2) have "steady_step reg_change snapshotCallbacks fire_one k c B B'"
    by (simp add: steady_step_def snapshotCallbacks_def)
  ultimately show ?case using step.IH by simp
qed simp

lemma count_events_for: "count_list (events_for c lg) e = count_list lg (c, e)"
  by (induction lg) (auto simp: events_for_def)

lemma start_ok: "reg_inv (Subscribe c NewInMemoryRegistry)" "reg_ids (Subscribe c NewInMemoryRegistry) = {}"
  "reg_log (Subscribe c NewInMemoryRegistry) = []" "reg_callbacks (Subscribe c NewInMemoryRegistry) = [c]"
  using reg_run_inv[OF reg_new_inv, of "CSubscribe c"]
  by (simp_all add: Subscribe_def NewInMemoryRegistry_def reg_ids_def NewMapStore_def Get_def)

text \<open>C25. 
  A callback subscribed once and from the start is invoked, for every change any goroutine makes, at most
  once while goroutines are at work and exactly once when all calls have returned. It then can tell what
  is registered by counting: an identifier is registered exactly if it was told of one registration more than of removals.
\<close>

theorem concurrent_events_delivered_once:
  assumes "reg_bus_run (bus_start (Subscribe c NewInMemoryRegistry)) B" and "count_list (reg_callbacks (busState B)) c = 1"
  shows "(\<forall>e. count_list (events_for c (reg_log (busState B))) e \<le> count_list (busEvents B) e) \<and>
    (at_rest B \<longrightarrow> mset (events_for c (reg_log (busState B))) = mset (busEvents B) \<and>
       set (RegistryList (busState B)) =
         {i. count_list (events_for c (reg_log (busState B))) (RegisterEvent i) =
             Suc (count_list (events_for c (reg_log (busState B))) (UnregisterEvent i))})"
proof -
  have steady: "(steady_step reg_change snapshotCallbacks fire_one 1 c)\<^sup>*\<^sup>* (bus_start (Subscribe c NewInMemoryRegistry)) B"
    using assms by (intro steady_run) (simp_all add: start_ok)
  have le: "count_list (events_for c (reg_log (busState B))) e \<le> count_list (busEvents B) e" for e
    using reg.run_accounts(1)[OF steady start_ok(3)] by (simp add: count_events_for)
  have eq: "count_list (events_for c (reg_log (busState B))) e = count_list (busEvents B) e" if "at_rest B" for e
    using reg.run_accounts(2)[OF steady start_ok(3) that] by (simp add: count_events_for)
  have "i \<in> set (RegistryList (busState B)) \<longleftrightarrow> count_list (events_for c (reg_log (busState B))) (RegisterEvent i) =
      Suc (count_list (events_for c (reg_log (busState B))) (UnregisterEvent i))" if "at_rest B" for i
    using concurrent_balance(2)[OF assms(1) start_ok(1,2), of i] eq[OF that] by (simp add: set_RegistryList)
  moreover have "mset (events_for c (reg_log (busState B))) = mset (busEvents B)" if "at_rest B"
    using eq[OF that] by (intro multiset_eqI) (simp flip: count_mset)
  ultimately show ?thesis using le by blast
qed

section \<open>But out of order\<close>

definition crossed :: "nat \<Rightarrow> Skill \<Rightarrow> (InMemoryRegistry, nat, ChangeEvent) bus" where
  "crossed c s = \<lparr>busState = (Subscribe c NewInMemoryRegistry)\<lparr>reg_log := [(c, UnregisterEvent (skID s)), (c, RegisterEvent (skID s))]\<rparr>,
     busActive = {#}, busEvents = [RegisterEvent (skID s), UnregisterEvent (skID s)]\<rparr>"

lemma crossed_run:
  assumes "skID s \<noteq> []" and "skValidate s = None"
  shows "reg_bus_run (bus_start (Subscribe c NewInMemoryRegistry)) (crossed c s)"
proof -
  let ?i = "skID s" and ?r0 = "Subscribe c NewInMemoryRegistry"
  let ?r1 = "?r0\<lparr>reg_store := Put ?i s NewMapStore\<rparr>"
  let ?A = "add_mset (Announcing (UnregisterEvent ?i)) {#Announcing (RegisterEvent ?i)#}"
  let ?B1 = "\<lparr>busState = ?r1, busActive = {#Announcing (RegisterEvent ?i)#}, busEvents = [RegisterEvent ?i]\<rparr>"
  let ?B2 = "\<lparr>busState = ?r0, busActive = ?A, busEvents = [RegisterEvent ?i, UnregisterEvent ?i]\<rparr>"
  let ?B3 = "\<lparr>busState = fire_one c (UnregisterEvent ?i) ?r0, busActive = {#Announcing (RegisterEvent ?i)#}, busEvents = [RegisterEvent ?i, UnregisterEvent ?i]\<rparr>"
  have "store_part (CRegister (Some s)) ?r0 = (?r1, Some (Inr (RegisterEvent ?i)))"
    using assms by (simp add: store_part_def RegisterStore_def Let_def PutIfAbsent_def NewMapStore_def gm_has_def Subscribe_def
        NewInMemoryRegistry_def Put_def)
  then have "reg_change ?r0 ?r1 (Some (RegisterEvent ?i))" using reg_change.intros[of ?r0 "CRegister (Some s)"] by (simp add: announced_def)
  then have "reg_bus_run (bus_start ?r0) ?B1"
    using bus_step.announce[of reg_change "bus_start ?r0" ?r1] by (auto simp: bus_start_def)
  moreover have "store_part (CUnregister ?i) ?r1 = (?r0, Some (Inr (UnregisterEvent ?i)))"
    by (simp add: store_part_def UnregisterStore_def DeleteIfExists_def Put_def NewMapStore_def gm_put_def gm_has_def gm_del_def
        Subscribe_def NewInMemoryRegistry_def)
  then have "reg_change ?r1 ?r0 (Some (UnregisterEvent ?i))" using reg_change.intros[of ?r1 "CUnregister ?i"] by (simp add: announced_def)
  then have "bus_step reg_change snapshotCallbacks fire_one ?B1 ?B2" using bus_step.announce[of reg_change ?B1 ?r0] by simp
  moreover have "reg_bus_run ?B2 ?B3"
    using bus_run_announced[of ?B2 "UnregisterEvent ?i" "{#Announcing (RegisterEvent ?i)#}" reg_change snapshotCallbacks fire_one] by (simp add: snapshotCallbacks_def start_ok)
  moreover have "reg_bus_run ?B3 (crossed c s)"
    using bus_run_announced[of ?B3 "RegisterEvent ?i" "{#}" reg_change snapshotCallbacks fire_one] by (simp add: snapshotCallbacks_def start_ok crossed_def fire_one_def fireCallbacks_def)
  ultimately show ?thesis by (meson rtranclp.rtrancl_into_rtrancl rtranclp_trans)
qed

text \<open>C40. 
  The order of the notifications is not that of the changes. When one goroutine registers any valid
  skill and another removes it, the removal can be announced first: both calls succeed and return, the registry is
  empty again, and a subscriber that applies what it is told, in the order it is told, believes the skill to be there.
\<close>

theorem concurrent_events_out_of_order:
  fixes s :: Skill
  assumes "skID s \<noteq> []" and "skValidate s = None"
  shows "\<exists>B. reg_bus_run (bus_start (Subscribe c NewInMemoryRegistry)) B \<and> at_rest B \<and> reg_callbacks (busState B) = [c] \<and>
    busEvents B = [RegisterEvent (skID s), UnregisterEvent (skID s)] \<and>
    RegistryList (busState B) = [] \<and> replay c (reg_log (busState B)) = {skID s}"
proof (intro exI conjI)
  show "reg_bus_run (bus_start (Subscribe c NewInMemoryRegistry)) (crossed c s)" by (rule crossed_run[OF assms])
qed (simp_all add: crossed_def at_rest_def start_ok replay_def events_for_def RegistryList_keys Subscribe_def
    NewInMemoryRegistry_def NewMapStore_def gm_keys_def)

definition demo_skill :: Skill where
  "demo_skill = \<lparr>skID = ''a'', skName = ''A'', skDescription = [], skInputSchema = None, skOutputSchema = None,
     skRequiredPermissions = [], skTimeout = 0, skValidate = None, skExecutionMode = None, skPrompt = None,
     skRiskLevel = None, skDescriptor = None\<rparr>"

theorem concurrent_events_out_of_order_witness:
  "\<exists>B. reg_bus_run (bus_start (Subscribe 7 NewInMemoryRegistry)) B \<and> at_rest B \<and>
     RegistryList (busState B) = [] \<and> replay 7 (reg_log (busState B)) = {''a''}"
  using concurrent_events_out_of_order[of demo_skill 7] by (auto simp: demo_skill_def)

theorem concurrent_events_delivered_once_witness:
  "mset (events_for 7 (reg_log (busState (crossed 7 demo_skill)))) = {#RegisterEvent ''a'', UnregisterEvent ''a''#}"
proof -
  have "reg_bus_run (bus_start (Subscribe 7 NewInMemoryRegistry)) (crossed 7 demo_skill)"
    by (rule crossed_run) (simp_all add: demo_skill_def)
  moreover have "at_rest (crossed 7 demo_skill)" "reg_callbacks (busState (crossed 7 demo_skill)) = [7]"
    "busEvents (crossed 7 demo_skill) = [RegisterEvent ''a'', UnregisterEvent ''a'']"
    by (simp_all add: crossed_def at_rest_def start_ok demo_skill_def)
  ultimately show ?thesis
    using concurrent_events_delivered_once[of 7 "crossed 7 demo_skill"] by simp
qed

theorem concurrent_registry_is_sequential_witness:
  "\<exists>cs. reg_store (busState (crossed 7 demo_skill)) = reg_store (fold reg_run cs (Subscribe 7 NewInMemoryRegistry)) \<and>
     reg_events cs (Subscribe 7 NewInMemoryRegistry) = [RegisterEvent ''a'', UnregisterEvent ''a'']"
proof -
  have "reg_bus_run (bus_start (Subscribe 7 NewInMemoryRegistry)) (crossed 7 demo_skill)"
    by (rule crossed_run) (simp_all add: demo_skill_def)
  moreover have "busEvents (crossed 7 demo_skill) = [RegisterEvent ''a'', UnregisterEvent ''a'']"
    by (simp add: crossed_def demo_skill_def)
  ultimately show ?thesis
    using concurrent_registry_is_sequential[of "Subscribe 7 NewInMemoryRegistry"] by metis
qed

end
