(* ===== verification/Audit_Concurrent.thy ===== *)
theory Audit_Concurrent
  imports Audit_Properties Event_Bus
begin

text \<open>
  The audit emitter used by several goroutines at once (\<open>audit/emitter.go\<close>): an emission copies the
  subscribers under the lock and calls them without it, while others subscribe, unsubscribe and emit. The
  emitter is a publisher, so its calls are accounted for; and a subscriber can be called after it was removed.
\<close>

section \<open>The emitter as a publisher\<close>

text \<open>The emitter with the calls of \<open>OnEvent\<close> made so far.\<close>

type_synonym audit_state = "AuditEmitter \<times> (subscriber \<times> AuditEvent) list"

definition identified :: "string \<Rightarrow> AuditEvent \<Rightarrow> AuditEvent" where
  "identified uuid event = (if aeID event = [] then event\<lparr>aeID := uuid\<rparr> else event)"

inductive audit_change :: "(subscriber \<Rightarrow> string) \<Rightarrow> audit_state \<Rightarrow> audit_state \<Rightarrow> AuditEvent option \<Rightarrow> bool" for ident where
  subscribe: "audit_change ident (e, l) (snd (AuditSubscribe ident s e), l) None"
| unsubscribe: "audit_change ident (e, l) (snd (AuditUnsubscribe i e), l) None"
| emit: "audit_change ident (e, l) (e, l) (Some (identified uuid event))"

inductive_cases audit_changeE: "audit_change ident st st' ev"

definition audit_receivers :: "audit_state \<Rightarrow> subscriber list" where
  "audit_receivers st = gm_vals (emSubscribers (fst st))"

definition on_event_call :: "subscriber \<Rightarrow> AuditEvent \<Rightarrow> audit_state \<Rightarrow> audit_state" where
  "on_event_call s event st = (fst st, snd st @ [(s, event)])"

interpretation em: publisher "audit_change ident" audit_receivers on_event_call snd
  by unfold_locales (auto simp: on_event_call_def audit_receivers_def elim: audit_changeE)

text \<open>A step of the emitter while \<open>s\<close> is registered, or while it is not.\<close>

definition audit_step :: "(subscriber \<Rightarrow> string) \<Rightarrow> subscriber \<Rightarrow> bool \<Rightarrow> (audit_state, subscriber, AuditEvent) bus \<Rightarrow>
    (audit_state, subscriber, AuditEvent) bus \<Rightarrow> bool" where
  "audit_step ident s on B B' \<longleftrightarrow> bus_step (audit_change ident) audit_receivers on_event_call B B' \<and>
     (sub_at (fst (busState B)) (ident s) = Some s \<longleftrightarrow> on)"

lemma audit_change_inv:
  assumes "emitter_inv ident (fst st)" and "audit_change ident st st' ev"
  shows "emitter_inv ident (fst st')"
  using assms(2,1) by cases (auto intro: emitter_step_inv emitter_step.intros)

lemma registered_count:
  assumes "emitter_inv ident e"
  shows "count_list (gm_vals (emSubscribers e)) s = of_bool (sub_at e (ident s) = Some s)"
proof -
  have "s \<in> set (gm_vals (emSubscribers e)) \<longleftrightarrow> sub_at e (ident s) = Some s"
    using assms emitter_subs_set[of e] by (auto simp: emitter_inv_def)
  then show ?thesis by (simp add: count_list_distinct[OF emitter_subs_distinct[OF assms]])
qed

lemma audit_step_steady:
  assumes "(audit_step ident s on)\<^sup>*\<^sup>* (bus_start (e, [])) B" and "emitter_inv ident e"
  shows "(steady_step (audit_change ident) audit_receivers on_event_call (of_bool on) s)\<^sup>*\<^sup>* (bus_start (e, [])) B \<and>
    emitter_inv ident (fst (busState B))"
  using assms(1)
proof (induction rule: rtranclp_induct)
  case (step B B')
  have "bus_step (audit_change ident) audit_receivers on_event_call B B'" using step.hyps(2) by (simp add: audit_step_def)
  then have "emitter_inv ident (fst (busState B'))"
    using step.IH by cases (auto simp: on_event_call_def intro: audit_change_inv)
  moreover have "steady_step (audit_change ident) audit_receivers on_event_call (of_bool on) s B B'"
    using step.hyps(2) step.IH registered_count[of ident "fst (busState B)" s]
    by (simp add: audit_step_def steady_step_def audit_receivers_def)
  ultimately show ?case using step.IH by auto
qed (simp add: assms(2))

text \<open>C26. 
  Emissions of several goroutines reach their subscribers exactly once. A subscriber that stays
  registered while others subscribe, unsubscribe and emit is called with an event at most as often as it is
  emitted, and exactly as often once all emissions have returned; one that is not registered all the while is never called.
\<close>

theorem concurrent_emissions_delivered_once:
  assumes "(emitter_step ident)\<^sup>*\<^sup>* NewEmitter e" and "(audit_step ident s on)\<^sup>*\<^sup>* (bus_start (e, [])) B"
  shows "count_list (snd (busState B)) (s, event) \<le> (if on then count_list (busEvents B) event else 0) \<and>
    (at_rest B \<longrightarrow> count_list (snd (busState B)) (s, event) = (if on then count_list (busEvents B) event else 0))"
proof -
  have "emitter_inv ident e" using emitter_steps_inv[OF assms(1)] NewEmitter_inv by blast
  then have "(steady_step (audit_change ident) audit_receivers on_event_call (of_bool on) s)\<^sup>*\<^sup>* (bus_start (e, [])) B"
    using audit_step_steady[OF assms(2)] by blast
  from em.run_accounts[OF this] show ?thesis by (auto simp: of_bool_def split: if_splits)
qed

text \<open>
  A removed subscriber is not safe from calls: after \<open>Unsubscribe\<close> has succeeded and returned, an
  emission that copied the subscribers before still calls it, with no further change of the emitter.
\<close>

theorem called_after_Unsubscribe:
  assumes "ident s \<noteq> []"
  shows "\<exists>B B'. bus_run (audit_change ident) audit_receivers on_event_call
      (bus_start (snd (AuditSubscribe ident (Some s) NewEmitter), [])) B \<and>
    sub_at (fst (busState B)) (ident s) = None \<and> snd (busState B) = [] \<and>
    bus_run (\<lambda>_ _ _. False) audit_receivers on_event_call B B' \<and> snd (busState B') = [(s, identified uuid event)]"
proof -
  let ?ev = "identified uuid event" and ?e = "snd (AuditSubscribe ident (Some s) NewEmitter)"
  let ?step = "bus_step (audit_change ident) audit_receivers on_event_call"
  let ?B1 = "\<lparr>busState = (?e, []), busActive = {#Announcing ?ev#}, busEvents = [?ev]\<rparr>"
  let ?B2 = "\<lparr>busState = (?e, []), busActive = {#Calling [s] ?ev#}, busEvents = [?ev]\<rparr>"
  let ?B = "\<lparr>busState = (NewEmitter, []), busActive = {#Calling [s] ?ev#}, busEvents = [?ev]\<rparr>"
  let ?B' = "\<lparr>busState = (NewEmitter, [(s, ?ev)]), busActive = {#}, busEvents = [?ev]\<rparr>"
  have e: "emSubscribers ?e = [(ident s, s)]" by (simp add: AuditSubscribe_def NewEmitter_def gm_has_def gm_put_def)
  have "?step (bus_start (?e, [])) ?B1"
    using bus_step.announce[of "audit_change ident" "bus_start (?e, [])" "(?e, [])"] by (auto simp: bus_start_def intro: audit_change.emit)
  moreover have "?step ?B1 ?B2"
    using bus_step.snapshot[of ?B1 ?ev "{#}" "audit_change ident" audit_receivers on_event_call]
    by (simp add: audit_receivers_def e gm_vals_def)
  moreover have "?step ?B2 ?B"
    using bus_step.quiet[of "audit_change ident" ?B2 "(NewEmitter, [])" audit_receivers on_event_call]
      audit_change.unsubscribe[of ident ?e "[]" "ident s"] assms
    by (simp add: AuditUnsubscribe_def e gm_has_def gm_del_def NewEmitter_def AuditSubscribe_def gm_put_def)
  ultimately have "?step\<^sup>*\<^sup>* (bus_start (?e, [])) ?B" by (meson converse_rtranclp_into_rtranclp r_into_rtranclp)
  moreover have "bus_run (\<lambda>_ _ _. False) audit_receivers on_event_call ?B ?B'"
    using bus_run_calls[of ?B "[s]" ?ev "{#}" "\<lambda>_ _ _. False" audit_receivers on_event_call] by (simp add: on_event_call_def)
  ultimately show ?thesis by (intro exI[of _ ?B] exI[of _ ?B'] conjI) (simp_all add: sub_at_def NewEmitter_def)
qed

definition one_subscriber :: AuditEmitter where
  "one_subscriber = snd (AuditSubscribe show_nat (Some 2) NewEmitter)"

lemma one_subscriber_simps: "emSubscribers one_subscriber = [(show_nat 2, 2)]" "sub_at one_subscriber (show_nat 2) = Some 2"
  by (simp_all add: one_subscriber_def AuditSubscribe_def NewEmitter_def gm_has_def gm_put_def sub_at_def)

theorem concurrent_emissions_delivered_once_witness:
  "\<exists>B :: (audit_state, subscriber, AuditEvent) bus. at_rest B \<and> busEvents B = [identified ''id'' sample_event] \<and> count_list (snd (busState B)) (2, identified ''id'' sample_event) = 1"
proof -
  let ?ev = "identified ''id'' sample_event" and ?S = "audit_step show_nat 2 True"
  let ?B1 = "\<lparr>busState = (one_subscriber, []), busActive = {#Announcing ?ev#}, busEvents = [?ev]\<rparr>"
  let ?B2 = "\<lparr>busState = (one_subscriber, []), busActive = {#Calling [2] ?ev#}, busEvents = [?ev]\<rparr>"
  let ?B3 = "\<lparr>busState = (one_subscriber, [(2, ?ev)]), busActive = {#Calling [] ?ev#}, busEvents = [?ev]\<rparr>"
  let ?B4 = "\<lparr>busState = (one_subscriber, [(2, ?ev)]), busActive = {#}, busEvents = [?ev]\<rparr>"
  have "?S (bus_start (one_subscriber, [])) ?B1"
    using bus_step.announce[of "audit_change show_nat" "bus_start (one_subscriber, [])" "(one_subscriber, [])"]
    by (auto simp: audit_step_def bus_start_def one_subscriber_simps intro: audit_change.emit)
  moreover have "?S ?B1 ?B2"
    using bus_step.snapshot[of ?B1 ?ev "{#}" "audit_change show_nat" audit_receivers on_event_call]
    by (simp add: audit_step_def audit_receivers_def one_subscriber_simps gm_vals_def)
  moreover have "?S ?B2 ?B3"
    using bus_step.invoke[of ?B2 2 "[]" ?ev "{#}" "audit_change show_nat" audit_receivers on_event_call]
    by (simp add: audit_step_def on_event_call_def one_subscriber_simps)
  moreover have "?S ?B3 ?B4"
    using bus_step.return[of ?B3 ?ev "{#}" "audit_change show_nat" audit_receivers on_event_call]
    by (simp add: audit_step_def one_subscriber_simps)
  ultimately have run: "?S\<^sup>*\<^sup>* (bus_start (one_subscriber, [])) ?B4" by (meson converse_rtranclp_into_rtranclp r_into_rtranclp)
  have "(emitter_step show_nat)\<^sup>*\<^sup>* NewEmitter one_subscriber"
    unfolding one_subscriber_def by (rule r_into_rtranclp) (rule emitter_step.subscribe)
  from concurrent_emissions_delivered_once[OF this run, of ?ev] show ?thesis
    by (intro exI[of _ ?B4] conjI) (simp_all add: at_rest_def)
qed

theorem called_after_Unsubscribe_witness:
  "\<exists>B B'. sub_at (fst (busState B)) (show_nat 2) = None \<and>
     bus_run (\<lambda>_ _ _. False) audit_receivers on_event_call B B' \<and> snd (busState B') = [(2, identified ''id'' sample_event)]"
  using called_after_Unsubscribe[of show_nat 2 "''id''" sample_event] by auto

end
