(* ===== verification/Stream_Contract.thy ===== *)
theory Stream_Contract
  imports Provider_Chain
begin

text \<open>
  What the planner relies on in a streaming provider (\<open>StreamingModelProvider\<close> in \<open>ai/providers/provider.go\<close>): an error
  ends the stream. Both provider types keep this contract whatever the backend sends, so a round over either
  shows the user exactly the text it parses.
\<close>

section \<open>The contract\<close>

text \<open>The pieces of text a consumer is shown, and the text they make up.\<close>

definition pieces :: "StreamChunk list \<Rightarrow> string list" where
  "pieces cs = filter (\<lambda>t. t \<noteq> []) (map scContent cs)"

lemma concat_pieces: "concat (pieces cs) = concat (map scContent cs)"
  by (induction cs) (auto simp: pieces_def)

lemma pieces_visible: "\<forall>t \<in> set (pieces cs). t \<noteq> []"
  by (simp add: pieces_def)

lemma drain_complete:
  "\<forall>c \<in> set good. scError c = None \<Longrightarrow> drain ev good = (map (Pair ev) (pieces good), Inr (concat (pieces good)))"
  by (induction good) (auto simp: pieces_def)

lemma drain_failed:
  "\<forall>c \<in> set good. scError c = None \<Longrightarrow> scError e = Some err \<Longrightarrow>
     drain ev (good @ e # rest) = (map (Pair ev) (pieces good), Inl err)"
  by (induction good) (auto simp: pieces_def)

locale streaming_provider =
  fixes stream :: "GenerateRequest \<Rightarrow> provider_error + StreamChunk list"
  assumes error_last: "stream req = Inr chunks \<Longrightarrow> \<exists>good bad. chunks = good @ bad \<and> length bad \<le> 1 \<and>
    (\<forall>c \<in> set good. scError c = None) \<and> (\<forall>c \<in> set bad. scError c \<noteq> None)"
begin

lemma drain_stream:
  assumes "stream req = Inr chunks"
  shows "\<exists>good. (\<forall>c \<in> set good. scError c = None) \<and>
    (drain ev chunks = (map (Pair ev) (pieces good), Inr (concat (pieces good))) \<or>
     (\<exists>err. drain ev chunks = (map (Pair ev) (pieces good), Inl err)))"
proof -
  obtain good bad where gb: "chunks = good @ bad" "length bad \<le> 1" "\<forall>c \<in> set good. scError c = None"
    "\<forall>c \<in> set bad. scError c \<noteq> None" using error_last[OF assms] by blast
  show ?thesis
  proof (cases bad)
    case Nil
    with gb drain_complete[OF gb(3), of ev] show ?thesis by auto
  next
    case (Cons e rest)
    with gb obtain err where "scError e = Some err" by auto
    with gb Cons drain_failed[OF gb(3), of e err ev rest] show ?thesis by auto
  qed
qed

text \<open>A model that streams through this provider, asked by the planner.\<close>

lemma ask_streams:
  assumes "pvStream M = Some (\<lambda>req. with_text f (stream req))"
  obtains (failed) ps err where "\<forall>t \<in> set ps. t \<noteq> []"
      "ask_model cfg M True req = ((evGenerating cfg, []) # map (Pair (evToken cfg)) ps, Inl err)"
  | (answered) ps where "\<forall>t \<in> set ps. t \<noteq> []"
      "ask_model cfg M True req = ((evGenerating cfg, []) # map (Pair (evToken cfg)) ps @ [(evComplete cfg, [])], Inr (concat ps))"
proof (cases "stream req")
  case (Inl e)
  with assms show ?thesis by (intro failed[of "[]" "f e"]) (simp_all add: ask_model_def with_text_def)
next
  case (Inr chunks)
  from drain_stream[OF this, of "evToken cfg"] obtain good where
    "drain (evToken cfg) chunks = (map (Pair (evToken cfg)) (pieces good), Inr (concat (pieces good))) \<or>
     (\<exists>err. drain (evToken cfg) chunks = (map (Pair (evToken cfg)) (pieces good), Inl err))" by blast
  then show ?thesis
  proof
    assume "drain (evToken cfg) chunks = (map (Pair (evToken cfg)) (pieces good), Inr (concat (pieces good)))"
    with assms Inr pieces_visible[of good] show ?thesis
      by (intro answered[of "pieces good"]) (simp_all add: ask_model_def with_text_def)
  next
    assume "\<exists>err. drain (evToken cfg) chunks = (map (Pair (evToken cfg)) (pieces good), Inl err)"
    then obtain err where "drain (evToken cfg) chunks = (map (Pair (evToken cfg)) (pieces good), Inl err)" ..
    with assms Inr pieces_visible[of good] show ?thesis
      by (intro failed[of "pieces good" err]) (simp_all add: ask_model_def with_text_def)
  qed
qed

end

text \<open>Both provider types keep the contract.\<close>

lemma openai_error_last:
  assumes "OpenAIProviderGenerateStream L m d T cs p req = Inr chunks"
  shows "\<exists>good bad. chunks = good @ bad \<and> length bad \<le> 1 \<and>
    (\<forall>c \<in> set good. scError c = None) \<and> (\<forall>c \<in> set bad. scError c \<noteq> None)"
proof -
  obtain body where "chunks = read_openai_stream d cs body"
    using assms by (auto simp: OpenAIProviderGenerateStream_def openAICompatibleStream_def map_sum_def split: if_splits sum.splits)
  then show ?thesis
    using sse_loop_ends[OF openai_plain[of d]] unfolding read_openai_stream_def case_prod_beta by metis
qed

lemma claude_error_last:
  assumes "ClaudeGenerateStream m D T cs c req = Inr chunks"
  shows "\<exists>good bad. chunks = good @ bad \<and> length bad \<le> 1 \<and>
    (\<forall>c \<in> set good. scError c = None) \<and> (\<forall>c \<in> set bad. scError c \<noteq> None)"
proof -
  obtain body where "chunks = read_anthropic_stream D cs body"
    using assms by (auto simp: ClaudeGenerateStream_def anthropicMessagesStream_def map_sum_def split: if_splits sum.splits)
  then show ?thesis
    using sse_loop_ends[OF anthropic_plain[of D]] unfolding read_anthropic_stream_def case_prod_beta by metis
qed

interpretation os: streaming_provider "OpenAIProviderGenerateStream L m d T cs p"
  by unfold_locales (rule openai_error_last)

interpretation cl: streaming_provider "ClaudeGenerateStream m D T cs c"
  by unfold_locales (rule claude_error_last)

section \<open>What is shown is what is parsed\<close>

text \<open>A model that gives one answer in one piece, and a planner that has only this model.\<close>

definition says :: "string \<Rightarrow> ModelProvider" where
  "says answer = \<lparr>pvID = ''says'', pvCapabilities = [''text_generation''],
     pvGenerate = \<lambda>req. Inr \<lparr>gsContent = answer, gsToolCalls = [], gsUsage = zero_usage, gsFinishReason = ''stop'', gsLatency = 0\<rparr>,
     pvStream = None\<rparr>"

definition planner_told :: "string \<Rightarrow> ExecutionLimits option \<Rightarrow> LLMPlanner" where
  "planner_told answer limits = NewLLMPlanner (fst (RouterRegister (says answer) NewDefaultRouter)) limits"

lemma Route_says: "Route (lpRouter (planner_told answer limits)) [''text_generation''] no_constraints = Inr (says answer)"
  by (simp add: planner_told_def NewLLMPlanner_def Route_def RouterRegister_def NewDefaultRouter_def says_def gm_put_def gm_vals_def
      hasAllCapabilities_def no_constraints_def)

lemma ask_says: "ask_model cfg (says answer) progress req = ([], Inr answer)"
  by (cases progress) (simp_all add: ask_model_def says_def)

lemma created_streams:
  obtains (failed) ps err where "\<forall>t \<in> set ps. t \<noteq> []"
      "ask_model cfg (provider_of W (Create name baseURL apiKey model)) True req =
         ((evGenerating cfg, []) # map (Pair (evToken cfg)) ps, Inl err)"
  | (answered) ps where "\<forall>t \<in> set ps. t \<noteq> []"
      "ask_model cfg (provider_of W (Create name baseURL apiKey model)) True req =
         ((evGenerating cfg, []) # map (Pair (evToken cfg)) ps @ [(evComplete cfg, [])], Inr (concat ps))"
proof (cases "Create name baseURL apiKey model")
  case (OpenAICompatible p)
  show ?thesis
    by (rule os.ask_streams[of "provider_of W (Create name baseURL apiKey model)" "wErrorText W" "wLib W" "wStreamChat W" "wReadChunk W"
          "wTransport W" "wConsumer W" p cfg req]) (simp_all add: OpenAICompatible provider_of_def failed answered)
next
  case (Claude c)
  show ?thesis
    by (rule cl.ask_streams[of "provider_of W (Create name baseURL apiKey model)" "wErrorText W" "wMessages W" "wEvents W"
          "wTransport W" "wConsumer W" c cfg req]) (simp_all add: Claude provider_of_def failed answered)
qed

lemma Plan_asks:
  assumes "pcSkills c \<noteq> []" and "buildPrompt tmpl c = Some prompt"
    and "Route (lpRouter p) [''text_generation''] no_constraints = Inr M"
    and "Route (lpRouter q) [''text_generation''] no_constraints = Inr N" and "lpLimits p = lpLimits q"
    and "ask_model plan_config M b (build_request c prompt) = (tr, Inr answer)"
    and "ask_model plan_config N b' (build_request c prompt) = ([], Inr answer)"
  shows "Plan tmpl decode p h (c\<lparr>pcProgressFn := b\<rparr>) =
    (case Plan tmpl decode q h (c\<lparr>pcProgressFn := b'\<rparr>) of (h', tr', r) \<Rightarrow> (h', tr, r))"
  using assms by (simp add: Plan_def llmPlanRound_def split: prod.split sum.split option.split)

text \<open>C21. 
  What the user is shown while a plan is made is what the plan is made from. A streamed planning round
  over any provider from the factory, whatever its backend sends, either fails after showing some pieces of text, with
  the heap untouched and no end event; or ends as if a model had answered, in one piece, the text of the pieces shown.
\<close>

theorem Plan_parses_what_it_shows:
  assumes "pcSkills c \<noteq> []" and "buildPrompt tmpl c \<noteq> None"
  shows "\<exists>ps. (\<forall>t \<in> set ps. t \<noteq> []) \<and>
    ((\<exists>err. Plan tmpl decode (sole_planner W (Create name baseURL apiKey model) limits) h (c\<lparr>pcProgressFn := True\<rparr>) =
        (h, (''planning_generating'', []) # map (Pair ''planning_token'') ps, Inl (LLMFailed err))) \<or>
     (\<exists>h' r. Plan tmpl decode (planner_told (concat ps) limits) h (c\<lparr>pcProgressFn := False\<rparr>) = (h', [], r) \<and>
        Plan tmpl decode (sole_planner W (Create name baseURL apiKey model) limits) h (c\<lparr>pcProgressFn := True\<rparr>) =
          (h', (''planning_generating'', []) # map (Pair ''planning_token'') ps @ [(''planning_complete'', [])], r)))"
proof -
  let ?p = "sole_planner W (Create name baseURL apiKey model) limits"
  obtain prompt where prompt: "buildPrompt tmpl c = Some prompt" using assms(2) by auto
  have route: "Route (lpRouter ?p) [''text_generation''] no_constraints = Inr (provider_of W (Create name baseURL apiKey model))"
    using Route_sole by (simp add: sole_planner_def NewLLMPlanner_def)
  show ?thesis
  proof (rule created_streams[of plan_config W name baseURL apiKey model "build_request c prompt"])
    fix ps err
    assume "\<forall>t \<in> set ps. t \<noteq> []" and "ask_model plan_config (provider_of W (Create name baseURL apiKey model)) True (build_request c prompt) =
      ((evGenerating plan_config, []) # map (Pair (evToken plan_config)) ps, Inl err)"
    moreover from this(2) have "Plan tmpl decode ?p h (c\<lparr>pcProgressFn := True\<rparr>) =
        (h, (''planning_generating'', []) # map (Pair ''planning_token'') ps, Inl (LLMFailed err))"
      using assms(1) prompt route by (simp add: Plan_def llmPlanRound_def plan_config_def)
    ultimately show ?thesis by blast
  next
    fix ps
    assume ps: "\<forall>t \<in> set ps. t \<noteq> []" and ask: "ask_model plan_config (provider_of W (Create name baseURL apiKey model)) True (build_request c prompt) =
      ((evGenerating plan_config, []) # map (Pair (evToken plan_config)) ps @ [(evComplete plan_config, [])], Inr (concat ps))"
    obtain h' tr' r where told: "Plan tmpl decode (planner_told (concat ps) limits) h (c\<lparr>pcProgressFn := False\<rparr>) = (h', tr', r)"
      by (metis prod.exhaust)
    moreover have "tr' = []"
      using told assms(1) prompt Route_says[of "concat ps" limits]
      by (auto simp: Plan_def llmPlanRound_def ask_says split: prod.splits sum.splits option.splits if_splits)
    moreover have "Plan tmpl decode ?p h (c\<lparr>pcProgressFn := True\<rparr>) =
        (h', (''planning_generating'', []) # map (Pair ''planning_token'') ps @ [(''planning_complete'', [])], r)"
      using Plan_asks[OF assms(1) prompt route Route_says[of "concat ps" limits] _ ask ask_says[of plan_config "concat ps" False], of decode h] told
      by (simp add: sole_planner_def planner_told_def NewLLMPlanner_def plan_config_def)
    ultimately show ?thesis using ps by blast
  qed
qed

theorem Plan_parses_what_it_shows_witness:
  "\<exists>ps. (\<forall>t \<in> set ps. t \<noteq> []) \<and>
    ((\<exists>err. Plan (\<lambda>_. Some ''go'') demo_decode (sole_planner hi_wire (Create ''claude'' [] ''k'' ''m'') None) [] (demo_ctx\<lparr>pcProgressFn := True\<rparr>) =
        ([], (''planning_generating'', []) # map (Pair ''planning_token'') ps, Inl (LLMFailed err))) \<or>
     (\<exists>h' r. Plan (\<lambda>_. Some ''go'') demo_decode (planner_told (concat ps) None) [] (demo_ctx\<lparr>pcProgressFn := False\<rparr>) = (h', [], r) \<and>
        Plan (\<lambda>_. Some ''go'') demo_decode (sole_planner hi_wire (Create ''claude'' [] ''k'' ''m'') None) [] (demo_ctx\<lparr>pcProgressFn := True\<rparr>) =
          (h', (''planning_generating'', []) # map (Pair ''planning_token'') ps @ [(''planning_complete'', [])], r)))"
proof (rule Plan_parses_what_it_shows)
  show "pcSkills demo_ctx \<noteq> []" "buildPrompt (\<lambda>_. Some ''go'') demo_ctx \<noteq> None" by (simp_all add: planner_eval)
qed

end
