(* ===== verification/Stream_Channel.thy ===== *)
theory Stream_Channel
  imports Stream_Contract
begin

text \<open>
  The goroutine behind a stream, its buffered channel and the consumer as three parties that take
  turns (\<open>ai/providers/streaming.go\<close>, \<open>anthropic_streaming.go\<close>). The readers of \<open>Providers\<close> and \<open>Anthropic\<close> describe a
  stream as a list and leave to an arbiter when the context ends and when the channel has room; here these
  are facts about the interleaving, and the readers are shown to be its outcome.
\<close>

section \<open>The parties\<close>

text \<open>
  The goroutine reads a line; or waits to send a chunk, unless the context ends first; or makes one
  attempt to send an error; or has closed the channel; or has crashed the process.
\<close>

datatype phase = Reading | Sending StreamChunk | Failing string | Closed | Crashed

text \<open>
  \<open>pmLines\<close> are the lines that have come in and are not yet read, \<open>pmEnd\<close> whether and how the body has ended, \<open>pmTimeout\<close>
  the seconds the HTTP client grants a request with its body (0 for no limit), \<open>pmExpired\<close> whether they are over, and
  \<open>pmCancelled\<close> whether the context of the caller has ended. \<open>pmArrived\<close> and \<open>pmSeen\<close> keep all that came in and all that was received.
\<close>

record 's pump =
  pmPhase :: phase
  pmArrived :: "string list"
  pmLines :: "string list"
  pmEnd :: "string option option"
  pmParser :: 's
  pmBuffer :: "StreamChunk list"
  pmSeen :: "StreamChunk list"
  pmCancelled :: bool
  pmTimeout :: nat
  pmExpired :: bool

definition httpTimeoutSeconds :: nat where
  "httpTimeoutSeconds = 300"

definition pump_start :: "'s \<Rightarrow> nat \<Rightarrow> 's pump" where
  "pump_start s timeout = \<lparr>pmPhase = Reading, pmArrived = [], pmLines = [], pmEnd = None, pmParser = s, pmBuffer = [], pmSeen = [],
     pmCancelled = False, pmTimeout = timeout, pmExpired = False\<rparr>"

text \<open>The goroutine. A \<open>select\<close> with several ready cases takes any of them; with a \<open>default\<close> it does not wait.\<close>

inductive producer :: "('s \<Rightarrow> string \<Rightarrow> 's \<times> line_effect) \<Rightarrow> string \<Rightarrow> string \<Rightarrow> nat \<Rightarrow> 's pump \<Rightarrow> 's pump \<Rightarrow> bool"
  for step what ctx cap where
  skip: "pmPhase P = Reading \<Longrightarrow> pmLines P = l # ls \<Longrightarrow> step (pmParser P) l = (s, SkipLine) \<Longrightarrow>
    producer step what ctx cap P (P\<lparr>pmLines := ls, pmParser := s\<rparr>)"
| stop: "pmPhase P = Reading \<Longrightarrow> pmLines P = l # ls \<Longrightarrow> step (pmParser P) l = (s, StopStream) \<Longrightarrow>
    producer step what ctx cap P (P\<lparr>pmLines := ls, pmParser := s, pmPhase := Closed\<rparr>)"
| crash: "pmPhase P = Reading \<Longrightarrow> pmLines P = l # ls \<Longrightarrow> step (pmParser P) l = (s, PanicLine reason) \<Longrightarrow>
    producer step what ctx cap P (P\<lparr>pmLines := ls, pmParser := s, pmPhase := Crashed\<rparr>)"
| emit: "pmPhase P = Reading \<Longrightarrow> pmLines P = l # ls \<Longrightarrow> step (pmParser P) l = (s, EmitChunk sc) \<Longrightarrow>
    producer step what ctx cap P (P\<lparr>pmLines := ls, pmParser := s, pmPhase := Sending sc\<rparr>)"
| read_error: "pmPhase P = Reading \<Longrightarrow> pmLines P = [] \<Longrightarrow> pmEnd P = Some (Some e) \<Longrightarrow>
    producer step what ctx cap P (P\<lparr>pmPhase := Failing (what @ e)\<rparr>)"
| end_of_body: "pmPhase P = Reading \<Longrightarrow> pmLines P = [] \<Longrightarrow> pmEnd P = Some None \<Longrightarrow>
    producer step what ctx cap P (P\<lparr>pmPhase := Closed\<rparr>)"
| send: "pmPhase P = Sending sc \<Longrightarrow> length (pmBuffer P) < cap \<Longrightarrow>
    producer step what ctx cap P (P\<lparr>pmBuffer := pmBuffer P @ [sc], pmPhase := Reading\<rparr>)"
| give_up: "pmPhase P = Sending sc \<Longrightarrow> pmCancelled P \<Longrightarrow>
    producer step what ctx cap P (P\<lparr>pmPhase := Failing ctx\<rparr>)"
| send_error: "pmPhase P = Failing e \<Longrightarrow> length (pmBuffer P) < cap \<Longrightarrow>
    producer step what ctx cap P (P\<lparr>pmBuffer := pmBuffer P @ [error_chunk e], pmPhase := Closed\<rparr>)"
| drop_error: "pmPhase P = Failing e \<Longrightarrow> \<not> length (pmBuffer P) < cap \<Longrightarrow>
    producer step what ctx cap P (P\<lparr>pmPhase := Closed\<rparr>)"

text \<open>The backend and the connection: a line comes in, or the body ends, in full or with an error.\<close>

inductive backend :: "'s pump \<Rightarrow> 's pump \<Rightarrow> bool" where
  arrive: "pmEnd P = None \<Longrightarrow> backend P (P\<lparr>pmArrived := pmArrived P @ [l], pmLines := pmLines P @ [l]\<rparr>)"
| finish: "pmEnd P = None \<Longrightarrow> backend P (P\<lparr>pmEnd := Some e\<rparr>)"

text \<open>
  What goes on without the backend and the caller: the goroutine; the consumer, who takes the first chunk in the channel;
  the timer of the HTTP client; and \<open>net/http\<close>, which ends a body whose time is over or whose context has ended with an error.
\<close>

inductive quiet_step :: "('s \<Rightarrow> string \<Rightarrow> 's \<times> line_effect) \<Rightarrow> string \<Rightarrow> string \<Rightarrow> nat \<Rightarrow> 's pump \<Rightarrow> 's pump \<Rightarrow> bool"
  for step what ctx cap where
  produce: "producer step what ctx cap P P' \<Longrightarrow> quiet_step step what ctx cap P P'"
| receive: "pmPhase P \<noteq> Crashed \<Longrightarrow> pmBuffer P = sc # b \<Longrightarrow> quiet_step step what ctx cap P (P\<lparr>pmBuffer := b, pmSeen := pmSeen P @ [sc]\<rparr>)"
| expire: "pmPhase P \<noteq> Crashed \<Longrightarrow> pmTimeout P > 0 \<Longrightarrow> \<not> pmExpired P \<Longrightarrow> quiet_step step what ctx cap P (P\<lparr>pmExpired := True\<rparr>)"
| cut: "pmPhase P \<noteq> Crashed \<Longrightarrow> pmEnd P = None \<Longrightarrow> pmExpired P \<or> pmCancelled P \<Longrightarrow> quiet_step step what ctx cap P (P\<lparr>pmEnd := Some (Some e)\<rparr>)"

inductive pump_step :: "('s \<Rightarrow> string \<Rightarrow> 's \<times> line_effect) \<Rightarrow> string \<Rightarrow> string \<Rightarrow> nat \<Rightarrow> 's pump \<Rightarrow> 's pump \<Rightarrow> bool"
  for step what ctx cap where
  quiet: "quiet_step step what ctx cap P P' \<Longrightarrow> pump_step step what ctx cap P P'"
| network: "pmPhase P \<noteq> Crashed \<Longrightarrow> backend P P' \<Longrightarrow> pump_step step what ctx cap P P'"
| cancel: "pmPhase P \<noteq> Crashed \<Longrightarrow> \<not> pmCancelled P \<Longrightarrow> pump_step step what ctx cap P (P\<lparr>pmCancelled := True\<rparr>)"

lemma pump_produce: "producer step what ctx cap P P' \<Longrightarrow> pump_step step what ctx cap P P'"
  by (intro pump_step.quiet quiet_step.produce)

definition delivered :: "'s pump \<Rightarrow> StreamChunk list" where
  "delivered P = pmSeen P @ pmBuffer P"

definition pump_done :: "'s pump \<Rightarrow> bool" where
  "pump_done P \<longleftrightarrow> pmPhase P = Closed \<and> pmBuffer P = []"

section \<open>Progress\<close>

text \<open>The size of a state is the work that is left, which every step except the arrival of a line reduces.\<close>

fun phase_work :: "phase \<Rightarrow> nat" where
  "phase_work Reading = 3"
| "phase_work (Sending sc) = 5"
| "phase_work (Failing e) = 2"
| "phase_work Closed = 0"
| "phase_work Crashed = 0"

instantiation pump_ext :: (type, type) size
begin

definition size_pump_ext :: "('a, 'b) pump_ext \<Rightarrow> nat" where
  "size_pump_ext P = 3 * length (pmLines P) + phase_work (pmPhase P) + length (pmBuffer P) + of_bool (\<not> pmCancelled P) +
     of_bool (\<not> pmExpired P) + of_bool (pmEnd P = None)"

instance ..

end

lemma producer_size: "producer step what ctx cap P P' \<Longrightarrow> size P' < size P"
  by (erule producer.cases; hypsubst; simp add: size_pump_ext_def)

lemma quiet_size: "quiet_step step what ctx cap P P' \<Longrightarrow> size P' < size P"
  by (erule quiet_step.cases; simp?; (erule producer_size)?; simp add: size_pump_ext_def)

lemma backend_size: "backend P P' \<Longrightarrow> pmArrived P' = pmArrived P \<Longrightarrow> size P' < size P"
  by (erule backend.cases) (simp_all add: size_pump_ext_def)

lemma pump_size: "pump_step step what ctx cap P P' \<Longrightarrow> pmArrived P' = pmArrived P \<Longrightarrow> size P' < size P"
  by (erule pump_step.cases) (simp_all add: quiet_size backend_size, simp add: size_pump_ext_def)

text \<open>Where the goroutine waits: for the backend, or for the consumer.\<close>

definition waits_to_read :: "'s pump \<Rightarrow> bool" where
  "waits_to_read P \<longleftrightarrow> pmPhase P = Reading \<and> pmLines P = [] \<and> pmEnd P = None"

definition waits_to_send :: "nat \<Rightarrow> 's pump \<Rightarrow> bool" where
  "waits_to_send cap P \<longleftrightarrow> (\<exists>sc. pmPhase P = Sending sc) \<and> cap \<le> length (pmBuffer P) \<and> \<not> pmCancelled P"

lemma producer_waits_iff:
  "(\<nexists>P'. producer step what ctx cap P P') \<longleftrightarrow> pmPhase P \<in> {Closed, Crashed} \<or> waits_to_read P \<or> waits_to_send cap P"
proof
  assume "pmPhase P \<in> {Closed, Crashed} \<or> waits_to_read P \<or> waits_to_send cap P"
  then show "\<nexists>P'. producer step what ctx cap P P'"
    by (auto simp: waits_to_read_def waits_to_send_def elim: producer.cases)
next
  assume stuck: "\<nexists>P'. producer step what ctx cap P P'"
  show "pmPhase P \<in> {Closed, Crashed} \<or> waits_to_read P \<or> waits_to_send cap P"
  proof (cases "pmPhase P")
    case Reading
    show ?thesis
    proof (cases "pmLines P")
      case Nil
      have "pmEnd P = None"
      proof (cases "pmEnd P")
        case (Some e)
        with stuck Reading Nil show ?thesis by (cases e) (blast intro: producer.intros)+
      qed simp
      with Reading Nil show ?thesis by (simp add: waits_to_read_def)
    next
      case (Cons l ls)
      obtain s eff where "step (pmParser P) l = (s, eff)" by (rule prod.exhaust)
      with stuck Reading Cons show ?thesis by (cases eff) (blast intro: producer.intros)+
    qed
  next
    case (Sending sc)
    then have "\<not> length (pmBuffer P) < cap \<and> \<not> pmCancelled P" using stuck by (blast intro: producer.intros)
    with Sending show ?thesis by (simp add: waits_to_send_def)
  next
    case (Failing e)
    then show ?thesis using stuck by (cases "length (pmBuffer P) < cap") (blast intro: producer.intros)+
  qed simp_all
qed

lemma quiet_progress:
  assumes "pmTimeout P > 0" and "cap > 0"
  shows "pump_done P \<or> pmPhase P = Crashed \<or> (\<exists>P'. quiet_step step what ctx cap P P')"
proof (cases "pmPhase P = Crashed \<or> pmBuffer P \<noteq> [] \<or> (\<exists>P'. producer step what ctx cap P P')")
  case True
  then show ?thesis by (auto intro: quiet_step.intros dest!: neq_Nil_conv[THEN iffD1])
next
  case False
  then consider "pmPhase P = Closed" | "waits_to_read P" | "waits_to_send cap P" using producer_waits_iff[of step what ctx cap P] by auto
  then show ?thesis
  proof cases
    case 1
    with False show ?thesis by (simp add: pump_done_def)
  next
    case 2
    then have "pmPhase P \<noteq> Crashed" "pmEnd P = None" by (simp_all add: waits_to_read_def)
    with assms(1) show ?thesis using quiet_step.cut[of P] quiet_step.expire[of P] by blast
  next
    case 3
    with False assms(2) show ?thesis by (simp add: waits_to_send_def)
  qed
qed

lemma quiet_timeout: "quiet_step step what ctx cap P P' \<Longrightarrow> pmTimeout P' = pmTimeout P"
  by (erule quiet_step.cases) (auto elim: producer.cases)

lemma pump_timeout: "pump_step step what ctx cap P P' \<Longrightarrow> pmTimeout P' = pmTimeout P"
  by (erule pump_step.cases) (auto simp: quiet_timeout elim: backend.cases)

lemma run_timeout: "(pump_step step what ctx cap)\<^sup>*\<^sup>* (pump_start s n) P \<Longrightarrow> pmTimeout P = n"
  by (induction rule: rtranclp_induct) (simp_all add: pump_start_def pump_timeout)

text \<open>C19. 
  Every stream ends. A run goes on forever only if lines keep coming in forever. In every reachable state some
  step is left that needs neither the backend nor the caller, until the channel is closed and drained (or a panic has ended the process): even
  if the backend falls silent and nobody cancels, the time limit of the HTTP client ends the body, which without a limit would
  not happen. The goroutine waits exactly in two places: for the next line, as long as none has come in and the body has not ended; and to
  send, when the channel holds 64 chunks and the context of the caller has not ended. The time limit does not end this
  second wait.
\<close>

theorem streams_complete:
  "wf {(P', P). pump_step step what ctx 64 P P' \<and> pmArrived P' = pmArrived P} \<and>
   (\<forall>P. (pump_step step what ctx 64)\<^sup>*\<^sup>* (pump_start s httpTimeoutSeconds) P \<longrightarrow>
     pump_done P \<or> pmPhase P = Crashed \<or> (\<exists>P'. quiet_step step what ctx 64 P P')) \<and>
   (\<nexists>P'. quiet_step step what ctx 64 (pump_start s 0) P') \<and>
   (\<forall>P. (\<nexists>P'. producer step what ctx 64 P P') \<longleftrightarrow> pmPhase P \<in> {Closed, Crashed} \<or> waits_to_read P \<or> waits_to_send 64 P)"
proof (intro conjI allI impI)
  show "wf {(P', P). pump_step step what ctx 64 P P' \<and> pmArrived P' = pmArrived P}"
    by (rule wf_subset[of "measure size"]) (auto dest: pump_size)
next
  fix P assume "(pump_step step what ctx 64)\<^sup>*\<^sup>* (pump_start s httpTimeoutSeconds) P"
  then show "pump_done P \<or> pmPhase P = Crashed \<or> (\<exists>P'. quiet_step step what ctx 64 P P')"
    by (intro quiet_progress) (simp_all add: run_timeout httpTimeoutSeconds_def)
next
  have "\<nexists>P'. producer step what ctx 64 (pump_start s 0) P'"
    unfolding producer_waits_iff by (simp add: waits_to_read_def pump_start_def)
  then show "\<nexists>P'. quiet_step step what ctx 64 (pump_start s 0) P'"
    by (auto elim!: quiet_step.cases simp: pump_start_def)
qed (rule producer_waits_iff)

section \<open>The readers are the outcome\<close>

text \<open>
  An arbiter agrees with a state if it has let all chunks of the state through; it explains a state whose
  goroutine has stopped sending if it ends no context that has not ended and drops no error for which there was room.
\<close>

definition agrees :: "'s pump \<Rightarrow> consumer \<Rightarrow> bool" where
  "agrees P cs \<longleftrightarrow> (\<forall>k < length (delivered P). \<not> cs_cancelled cs k)"

definition explains :: "string \<Rightarrow> nat \<Rightarrow> 's pump \<Rightarrow> consumer \<Rightarrow> bool" where
  "explains ctx cap P cs \<longleftrightarrow> cs_err cs = ctx \<and> (\<not> pmCancelled P \<longrightarrow> (\<forall>k. \<not> cs_cancelled cs k)) \<and>
     (length (delivered P) < cap \<longrightarrow> (\<forall>k. cs_room cs k))"

text \<open>The lines still to come and the error at the end, as far as the state leaves them open.\<close>

definition coming :: "'s pump \<Rightarrow> string list \<Rightarrow> string option \<Rightarrow> bool" where
  "coming P ls err \<longleftrightarrow> (case pmEnd P of None \<Rightarrow> True | Some e \<Rightarrow> ls = [] \<and> err = e)"

text \<open>What the reader makes of the whole body, whatever is still to come.\<close>

definition finds :: "(consumer \<Rightarrow> string list \<Rightarrow> string option \<Rightarrow> StreamChunk list) \<Rightarrow> 's pump \<Rightarrow> consumer \<Rightarrow> StreamChunk list \<Rightarrow> bool" where
  "finds whole P cs out \<longleftrightarrow> (\<forall>ls err. coming P ls err \<longrightarrow> whole cs (pmArrived P @ ls) err = out)"

fun reads_on :: "('s \<Rightarrow> string \<Rightarrow> 's \<times> line_effect) \<Rightarrow> string \<Rightarrow> string \<Rightarrow> nat \<Rightarrow>
    (consumer \<Rightarrow> string list \<Rightarrow> string option \<Rightarrow> StreamChunk list) \<Rightarrow> 's pump \<Rightarrow> phase \<Rightarrow> bool" where
  "reads_on step what ctx cap whole P Reading \<longleftrightarrow> (\<forall>cs ls err. agrees P cs \<longrightarrow> coming P ls err \<longrightarrow>
     whole cs (pmArrived P @ ls) err = delivered P @ sse_loop step what cs (length (delivered P)) (pmParser P) (pmLines P @ ls) err)"
| "reads_on step what ctx cap whole P (Sending sc) \<longleftrightarrow> (\<forall>cs ls err. agrees P cs \<longrightarrow> coming P ls err \<longrightarrow>
     whole cs (pmArrived P @ ls) err = delivered P @
       (if cs_cancelled cs (length (delivered P)) then sendErrorChunk cs (length (delivered P)) (cs_err cs)
        else sc # sse_loop step what cs (Suc (length (delivered P))) (pmParser P) (pmLines P @ ls) err))"
| "reads_on step what ctx cap whole P (Failing e) \<longleftrightarrow> (\<forall>b. \<exists>cs. cs_err cs = ctx \<and> (\<forall>k. cs_room cs k \<longleftrightarrow> b) \<and>
     (\<not> pmCancelled P \<longrightarrow> (\<forall>k. \<not> cs_cancelled cs k)) \<and> finds whole P cs (delivered P @ (if b then [error_chunk e] else [])))"
| "reads_on step what ctx cap whole P Closed \<longleftrightarrow> (\<exists>cs. explains ctx cap P cs \<and> finds whole P cs (delivered P))"
| "reads_on step what ctx cap whole P Crashed \<longleftrightarrow> True"

text \<open>The arbiter that ends the context at the \<open>n\<close>-th chunk, if at all, and leaves room or not.\<close>

definition scenario :: "nat option \<Rightarrow> bool \<Rightarrow> string \<Rightarrow> consumer" where
  "scenario n b ctx = \<lparr>cs_cancelled = \<lambda>k. Some k = n, cs_room = \<lambda>_. b, cs_err = ctx\<rparr>"

lemma scenario_simps [simp]:
  "cs_cancelled (scenario n b ctx) k \<longleftrightarrow> Some k = n" "cs_room (scenario n b ctx) k = b" "cs_err (scenario n b ctx) = ctx"
  by (simp_all add: scenario_def)

lemma agrees_scenario [simp]: "agrees P (scenario None b ctx)" "agrees P (scenario (Some (length (delivered P))) b ctx)"
  by (auto simp: agrees_def)

definition pump_inv :: "('s \<Rightarrow> string \<Rightarrow> 's \<times> line_effect) \<Rightarrow> string \<Rightarrow> string \<Rightarrow> nat \<Rightarrow>
    (consumer \<Rightarrow> string list \<Rightarrow> string option \<Rightarrow> StreamChunk list) \<Rightarrow> 's pump \<Rightarrow> bool" where
  "pump_inv step what ctx cap whole P \<longleftrightarrow> length (pmBuffer P) \<le> cap \<and> reads_on step what ctx cap whole P (pmPhase P)"

text \<open>A step of another party leaves the goroutine where it was, at most with more lines to read.\<close>

lemma reads_on_other:
  assumes "delivered P' = delivered P" "pmParser P' = pmParser P" "pmArrived P' = pmArrived P @ k" "pmLines P' = pmLines P @ k"
    and "\<And>ls err. coming P' ls err \<Longrightarrow> coming P (k @ ls) err"
    and "pmCancelled P \<Longrightarrow> pmCancelled P'" and "reads_on step what ctx cap whole P ph"
  shows "reads_on step what ctx cap whole P' ph"
proof -
  have ag: "agrees P' cs = agrees P cs" for cs using assms(1) by (simp add: agrees_def)
  have ex: "explains ctx cap P cs \<Longrightarrow> explains ctx cap P' cs" for cs using assms(1,6) by (auto simp: explains_def)
  have fi: "finds whole P cs out \<Longrightarrow> finds whole P' cs out" for cs out using assms(3,5) by (auto simp: finds_def)
  show ?thesis
  proof (cases ph)
    case Reading
    show ?thesis using assms(5,7) unfolding Reading reads_on.simps ag assms(1-4) append_assoc by blast
  next
    case (Sending sc)
    show ?thesis using assms(5,7) unfolding Sending reads_on.simps ag assms(1-4) append_assoc by blast
  next
    case (Failing e)
    show ?thesis using assms(6,7) fi unfolding Failing reads_on.simps assms(1) by metis
  next
    case Closed
    show ?thesis using assms(7) ex fi unfolding Closed reads_on.simps assms(1) by blast
  next
    case Crashed
    then show ?thesis by simp
  qed
qed

lemma reads_on_FailingI:
  assumes "\<And>b. finds whole P (scenario n b ctx) (delivered P @ (if b then [error_chunk e] else []))" and "pmCancelled P \<or> n = None"
  shows "reads_on step what ctx cap whole P (Failing e)"
  unfolding reads_on.simps
proof
  fix b
  show "\<exists>cs. cs_err cs = ctx \<and> (\<forall>k. cs_room cs k \<longleftrightarrow> b) \<and> (\<not> pmCancelled P \<longrightarrow> (\<forall>k. \<not> cs_cancelled cs k)) \<and>
      finds whole P cs (delivered P @ (if b then [error_chunk e] else []))"
    using assms by (intro exI[of _ "scenario n b ctx"]) auto
qed

lemma reads_on_FailingD:
  assumes "reads_on step what ctx cap whole P (Failing e)"
  obtains cs where "cs_err cs = ctx" "\<forall>k. cs_room cs k \<longleftrightarrow> b" "\<not> pmCancelled P \<longrightarrow> (\<forall>k. \<not> cs_cancelled cs k)"
    "finds whole P cs (delivered P @ (if b then [error_chunk e] else []))"
  using assms unfolding reads_on.simps by metis

lemma reads_on_ClosedI: "explains ctx cap P cs \<Longrightarrow> finds whole P cs (delivered P) \<Longrightarrow> reads_on step what ctx cap whole P Closed"
  by auto

lemma finds_same: "pmEnd P' = pmEnd P \<Longrightarrow> pmArrived P' = pmArrived P \<Longrightarrow> finds whole P' cs out = finds whole P cs out"
  by (simp add: finds_def coming_def)

lemma producer_arrived: "producer step what ctx cap P P' \<Longrightarrow> pmEnd P' = pmEnd P \<and> pmArrived P' = pmArrived P"
  by (erule producer.cases) simp_all

lemma producer_reads_on:
  assumes "producer step what ctx cap P P'" and "reads_on step what ctx cap whole P (pmPhase P)"
  shows "reads_on step what ctx cap whole P' (pmPhase P')"
proof -
  have fi: "finds whole P' cs out = finds whole P cs out" for cs out using producer_arrived[OF assms(1)] by (intro finds_same) auto
  from assms(1) show ?thesis
  proof cases
    case (skip l ls s)
    with assms(2) show ?thesis by (simp add: delivered_def agrees_def coming_def)
  next
    case (stop l ls s)
    with assms(2) have "finds whole P (scenario None True ctx) (delivered P)" by (simp add: finds_def)
    with stop(1) have "reads_on step what ctx cap whole P' Closed"
      by (intro reads_on_ClosedI[of _ _ _ "scenario None True ctx"]) (simp_all add: fi[unfolded stop(1)] explains_def delivered_def)
    with stop(1) show ?thesis by (simp del: reads_on.simps)
  next
    case crash
    then show ?thesis by simp
  next
    case (emit l ls s sc)
    with assms(2) show ?thesis by (simp add: delivered_def agrees_def coming_def)
  next
    case (read_error e)
    with assms(2) have "finds whole P (scenario None b ctx) (delivered P @ (if b then [error_chunk (what @ e)] else []))" for b
      by (simp add: finds_def coming_def sendErrorChunk_def)
    with read_error(1) have "reads_on step what ctx cap whole P' (Failing (what @ e))"
      by (intro reads_on_FailingI[where n = None]) (simp_all add: fi[unfolded read_error(1)] delivered_def)
    with read_error(1) show ?thesis by (simp del: reads_on.simps)
  next
    case end_of_body
    with assms(2) have "finds whole P (scenario None True ctx) (delivered P)" by (simp add: finds_def coming_def)
    with end_of_body(1) have "reads_on step what ctx cap whole P' Closed"
      by (intro reads_on_ClosedI[of _ _ _ "scenario None True ctx"]) (simp_all add: fi[unfolded end_of_body(1)] explains_def delivered_def)
    with end_of_body(1) show ?thesis by (simp del: reads_on.simps)
  next
    case (send sc)
    have "agrees P cs \<and> \<not> cs_cancelled cs (length (delivered P))" if "agrees P' cs" for cs
      using that send(1) by (auto simp: agrees_def delivered_def)
    with send assms(2) show ?thesis by (simp add: delivered_def coming_def)
  next
    case (give_up sc)
    with assms(2) have "finds whole P (scenario (Some (length (delivered P))) b ctx) (delivered P @ (if b then [error_chunk ctx] else []))" for b
      by (simp add: finds_def sendErrorChunk_def)
    with give_up(1,3) have "reads_on step what ctx cap whole P' (Failing ctx)"
      by (intro reads_on_FailingI[where n = "Some (length (delivered P))"]) (simp_all add: fi[unfolded give_up(1)] delivered_def)
    with give_up(1) show ?thesis by (simp del: reads_on.simps)
  next
    case (send_error e)
    obtain cs where "cs_err cs = ctx" "\<forall>k. cs_room cs k \<longleftrightarrow> True" "\<not> pmCancelled P \<longrightarrow> (\<forall>k. \<not> cs_cancelled cs k)"
      "finds whole P cs (delivered P @ (if True then [error_chunk e] else []))"
      by (rule reads_on_FailingD[OF assms(2)[unfolded send_error(2)], of True])
    with send_error have "reads_on step what ctx cap whole P' Closed"
      by (intro reads_on_ClosedI[of _ _ _ cs]) (simp_all add: fi[unfolded send_error(1)] explains_def delivered_def)
    with send_error(1) show ?thesis by (simp del: reads_on.simps)
  next
    case (drop_error e)
    obtain cs where "cs_err cs = ctx" "\<forall>k. cs_room cs k \<longleftrightarrow> False" "\<not> pmCancelled P \<longrightarrow> (\<forall>k. \<not> cs_cancelled cs k)"
      "finds whole P cs (delivered P @ (if False then [error_chunk e] else []))"
      by (rule reads_on_FailingD[OF assms(2)[unfolded drop_error(2)], of False])
    with drop_error have "reads_on step what ctx cap whole P' Closed"
      by (intro reads_on_ClosedI[of _ _ _ cs]) (simp_all add: fi[unfolded drop_error(1)] explains_def delivered_def)
    with drop_error(1) show ?thesis by (simp del: reads_on.simps)
  qed
qed

lemma other_inv:
  assumes "pump_inv step what ctx cap whole P" and "pmPhase P' = pmPhase P" "length (pmBuffer P') \<le> cap" "delivered P' = delivered P"
    "pmParser P' = pmParser P" "pmArrived P' = pmArrived P @ k" "pmLines P' = pmLines P @ k"
    and "\<And>ls err. coming P' ls err \<Longrightarrow> coming P (k @ ls) err" "pmCancelled P \<Longrightarrow> pmCancelled P'"
  shows "pump_inv step what ctx cap whole P'"
  using assms(1-3) reads_on_other[OF assms(4-9)] by (simp add: pump_inv_def)

lemma quiet_step_inv:
  assumes "quiet_step step what ctx cap P P'" and "pump_inv step what ctx cap whole P"
  shows "pump_inv step what ctx cap whole P'"
  using assms(1)
proof cases
  case produce
  moreover from this have "length (pmBuffer P') \<le> cap"
    using assms(2) by cases (auto simp: pump_inv_def)
  ultimately show ?thesis using assms(2) producer_reads_on unfolding pump_inv_def by blast
next
  case (receive sc b)
  show ?thesis by (rule other_inv[OF assms(2), of _ "[]"]) (use receive assms(2) in \<open>simp_all add: delivered_def coming_def pump_inv_def\<close>)
next
  case expire
  show ?thesis by (rule other_inv[OF assms(2), of _ "[]"]) (use expire assms(2) in \<open>simp_all add: delivered_def coming_def pump_inv_def\<close>)
next
  case (cut e)
  show ?thesis by (rule other_inv[OF assms(2), of _ "[]"]) (use cut assms(2) in \<open>simp_all add: delivered_def coming_def pump_inv_def\<close>)
qed

lemma backend_inv:
  assumes "backend P P'" and "pump_inv step what ctx cap whole P"
  shows "pump_inv step what ctx cap whole P'"
  using assms(1)
proof cases
  case (arrive l)
  show ?thesis by (rule other_inv[OF assms(2), of _ "[l]"]) (use arrive assms(2) in \<open>simp_all add: delivered_def coming_def pump_inv_def\<close>)
next
  case (finish e)
  show ?thesis by (rule other_inv[OF assms(2), of _ "[]"]) (use finish assms(2) in \<open>simp_all add: delivered_def coming_def pump_inv_def\<close>)
qed

lemma pump_step_inv:
  assumes "pump_step step what ctx cap P P'" and "pump_inv step what ctx cap whole P"
  shows "pump_inv step what ctx cap whole P'"
  using assms(1)
proof cases
  case quiet
  with assms(2) show ?thesis by (rule quiet_step_inv[rotated])
next
  case network
  then show ?thesis using backend_inv[OF _ assms(2)] by blast
next
  case cancel
  show ?thesis by (rule other_inv[OF assms(2), of _ "[]"]) (use cancel assms(2) in \<open>simp_all add: delivered_def coming_def pump_inv_def\<close>)
qed

lemma pump_run_inv:
  "(pump_step step what ctx cap)\<^sup>*\<^sup>* (pump_start s timeout) P \<Longrightarrow>
     pump_inv step what ctx cap (\<lambda>cs ls err. sse_loop step what cs 0 s ls err) P"
proof (induction rule: rtranclp_induct)
  case base
  show ?case by (simp add: pump_inv_def pump_start_def delivered_def)
qed (rule pump_step_inv)

text \<open>The goroutines of the two provider types, with the 64 places their channels have and the time limit of their HTTP client.\<close>

definition openai_pump :: "tool_accum pump" where
  "openai_pump = pump_start no_calls httpTimeoutSeconds"

definition anthropic_pump :: "anthropic_state pump" where
  "anthropic_pump = pump_start no_events httpTimeoutSeconds"

definition openai_pump_step :: "(string \<Rightarrow> string + streamChunk) \<Rightarrow> string \<Rightarrow> tool_accum pump \<Rightarrow> tool_accum pump \<Rightarrow> bool" where
  "openai_pump_step decode ctx = pump_step (openai_line decode) ''stream read error: '' ctx 64"

definition anthropic_pump_step :: "event_decoders \<Rightarrow> string \<Rightarrow> anthropic_state pump \<Rightarrow> anthropic_state pump \<Rightarrow> bool" where
  "anthropic_pump_step D ctx = pump_step (anthropic_line D) ''anthropic stream read error: '' ctx 64"

text \<open>The bodies a state fits: what has come in of them, and how they ended if they have.\<close>

definition fits :: "'s pump \<Rightarrow> stream_body \<Rightarrow> bool" where
  "fits P body \<longleftrightarrow> (\<exists>ls. fst (scan_lines body) = pmArrived P @ ls \<and> coming P ls (snd (scan_lines body)))"

lemma pump_closed:
  assumes "pump_inv step what ctx cap (\<lambda>cs ls err. sse_loop step what cs 0 s ls err) P" and "pmPhase P = Closed"
  shows "\<exists>cs. explains ctx cap P cs \<and> (\<forall>body. fits P body \<longrightarrow>
    delivered P = (case scan_lines body of (ls, err) \<Rightarrow> sse_loop step what cs 0 s ls err))"
proof -
  obtain cs where "explains ctx cap P cs" and f: "finds (\<lambda>cs ls err. sse_loop step what cs 0 s ls err) P cs (delivered P)"
    using assms by (auto simp: pump_inv_def)
  moreover have "delivered P = (case scan_lines body of (ls, err) \<Rightarrow> sse_loop step what cs 0 s ls err)" if "fits P body" for body
    using that f by (auto simp: fits_def finds_def case_prod_beta)
  ultimately show ?thesis by blast
qed

text \<open>C18. 
  The readers say what interleaving can bring about. However goroutine, backend, consumer, timer and context take turns, the
  channel never holds more than 64 chunks, and what has gone through it when it is closed is the list the reader
  of the provider gives, for every body that begins with what has come in and ends as it has ended, if it has, and for some moment at
  which the context ended, which it did only if it was cancelled, and with the error left out only if 64 chunks had gone before.
\<close>

theorem channels_refine_readers:
  "(\<forall>P. (openai_pump_step decode ctx)\<^sup>*\<^sup>* openai_pump P \<longrightarrow> length (pmBuffer P) \<le> 64 \<and>
     (pmPhase P = Closed \<longrightarrow> (\<exists>cs. explains ctx 64 P cs \<and> (\<forall>body. fits P body \<longrightarrow> delivered P = read_openai_stream decode cs body)))) \<and>
   (\<forall>P. (anthropic_pump_step D ctx)\<^sup>*\<^sup>* anthropic_pump P \<longrightarrow> length (pmBuffer P) \<le> 64 \<and>
     (pmPhase P = Closed \<longrightarrow> (\<exists>cs. explains ctx 64 P cs \<and> (\<forall>body. fits P body \<longrightarrow> delivered P = read_anthropic_stream D cs body))))"
proof (intro conjI allI impI)
  fix P assume "(openai_pump_step decode ctx)\<^sup>*\<^sup>* openai_pump P"
  then have inv: "pump_inv (openai_line decode) ''stream read error: '' ctx 64
      (\<lambda>cs ls err. sse_loop (openai_line decode) ''stream read error: '' cs 0 no_calls ls err) P"
    unfolding openai_pump_step_def openai_pump_def by (rule pump_run_inv)
  then show "length (pmBuffer P) \<le> 64" by (simp add: pump_inv_def)
  assume "pmPhase P = Closed"
  from pump_closed[OF inv this]
  show "\<exists>cs. explains ctx 64 P cs \<and> (\<forall>body. fits P body \<longrightarrow> delivered P = read_openai_stream decode cs body)"
    unfolding read_openai_stream_def .
next
  fix P assume "(anthropic_pump_step D ctx)\<^sup>*\<^sup>* anthropic_pump P"
  then have inv: "pump_inv (anthropic_line D) ''anthropic stream read error: '' ctx 64
      (\<lambda>cs ls err. sse_loop (anthropic_line D) ''anthropic stream read error: '' cs 0 no_events ls err) P"
    unfolding anthropic_pump_step_def anthropic_pump_def by (rule pump_run_inv)
  then show "length (pmBuffer P) \<le> 64" by (simp add: pump_inv_def)
  assume "pmPhase P = Closed"
  from pump_closed[OF inv this]
  show "\<exists>cs. explains ctx 64 P cs \<and> (\<forall>body. fits P body \<longrightarrow> delivered P = read_anthropic_stream D cs body)"
    unfolding read_anthropic_stream_def .
qed

section \<open>An error that is not delivered\<close>

lemma receive_body:
  assumes "scan_lines body = (ls, e)"
  shows "(pump_step step what ctx cap)\<^sup>*\<^sup>* (pump_start s n) ((pump_start s n)\<lparr>pmArrived := ls, pmLines := ls, pmEnd := Some e\<rparr>)"
proof -
  let ?S = "pump_start s n"
  have "(pump_step step what ctx cap)\<^sup>*\<^sup>* ?S (?S\<lparr>pmArrived := ls, pmLines := ls\<rparr>)" for ls
  proof (induction ls rule: rev_induct)
    case Nil
    have "?S\<lparr>pmArrived := [], pmLines := []\<rparr> = ?S" by (simp add: pump_start_def)
    then show ?case by simp
  next
    case (snoc l ls)
    have "pump_step step what ctx cap (?S\<lparr>pmArrived := ls, pmLines := ls\<rparr>) (?S\<lparr>pmArrived := ls @ [l], pmLines := ls @ [l]\<rparr>)"
      using pump_step.network[OF _ backend.arrive[of "?S\<lparr>pmArrived := ls, pmLines := ls\<rparr>" l]] by (simp add: pump_start_def)
    with snoc show ?case by (rule rtranclp.rtrancl_into_rtrancl)
  qed
  moreover have "pump_step step what ctx cap (?S\<lparr>pmArrived := ls, pmLines := ls\<rparr>) (?S\<lparr>pmArrived := ls, pmLines := ls, pmEnd := Some e\<rparr>)"
    using pump_step.network[OF _ backend.finish[of "?S\<lparr>pmArrived := ls, pmLines := ls\<rparr>" e]] by (simp add: pump_start_def)
  ultimately show ?thesis by (rule rtranclp.rtrancl_into_rtrancl)
qed

lemma fill_buffer:
  assumes "\<And>s. good s \<Longrightarrow> \<exists>s' sc. step s l = (s', EmitChunk sc) \<and> scError sc = None \<and> good s'" and "\<And>s. step s [] = (s, SkipLine)"
  shows "good (pmParser P) \<Longrightarrow> pmPhase P = Reading \<Longrightarrow> pmLines P = concat (replicate n [l, []]) @ ls \<Longrightarrow> length (pmBuffer P) + n \<le> cap \<Longrightarrow>
    \<exists>s scs. length scs = n \<and> (\<forall>c \<in> set scs. scError c = None) \<and>
      (pump_step step what ctx cap)\<^sup>*\<^sup>* P (P\<lparr>pmPhase := Reading, pmLines := ls, pmParser := s, pmBuffer := pmBuffer P @ scs\<rparr>)"
proof (induction n arbitrary: P)
  case 0
  then have "P = P\<lparr>pmPhase := Reading, pmLines := ls, pmParser := pmParser P, pmBuffer := pmBuffer P @ []\<rparr>" by (cases P) simp
  then show ?case by (intro exI[of _ "pmParser P"] exI[of _ "[]"]) simp
next
  case (Suc n)
  obtain s' sc where sc: "step (pmParser P) l = (s', EmitChunk sc)" "scError sc = None" "good s'" using assms(1)[OF Suc.prems(1)] by blast
  let ?ls = "concat (replicate n [l, []]) @ ls"
  let ?P1 = "P\<lparr>pmLines := [] # ?ls, pmParser := s', pmPhase := Sending sc\<rparr>"
  let ?P2 = "P\<lparr>pmPhase := Reading, pmLines := [] # ?ls, pmParser := s', pmBuffer := pmBuffer P @ [sc]\<rparr>"
  let ?P3 = "P\<lparr>pmPhase := Reading, pmLines := ?ls, pmParser := s', pmBuffer := pmBuffer P @ [sc]\<rparr>"
  have emit: "producer step what ctx cap P ?P1" using Suc.prems(2,3) sc(1) by (intro producer.emit) simp_all
  have "?P2 = ?P1\<lparr>pmBuffer := pmBuffer ?P1 @ [sc], pmPhase := Reading\<rparr>" by (cases P) simp
  moreover have "producer step what ctx cap ?P1 (?P1\<lparr>pmBuffer := pmBuffer ?P1 @ [sc], pmPhase := Reading\<rparr>)"
    using Suc.prems(4) by (intro producer.send) simp_all
  ultimately have send: "producer step what ctx cap ?P1 ?P2" by (simp only:)
  have "?P3 = ?P2\<lparr>pmLines := ?ls, pmParser := s'\<rparr>" by (cases P) simp
  moreover have "producer step what ctx cap ?P2 (?P2\<lparr>pmLines := ?ls, pmParser := s'\<rparr>)"
    using assms(2) by (intro producer.skip) simp_all
  ultimately have skip: "producer step what ctx cap ?P2 ?P3" by (simp only:)
  let ?final = "\<lambda>s scs. P\<lparr>pmPhase := Reading, pmLines := ls, pmParser := s, pmBuffer := pmBuffer P @ sc # scs\<rparr>"
  have "?P3\<lparr>pmPhase := Reading, pmLines := ls, pmParser := s, pmBuffer := pmBuffer ?P3 @ scs\<rparr> = ?final s scs" for s scs
    by (cases P) simp
  moreover have "good (pmParser ?P3)" "pmPhase ?P3 = Reading" "pmLines ?P3 = ?ls" "length (pmBuffer ?P3) + n \<le> cap"
    using Suc.prems(4) sc(3) by simp_all
  note Suc.IH[OF this]
  ultimately obtain s scs where scs: "length scs = n" "\<forall>c \<in> set scs. scError c = None" "(pump_step step what ctx cap)\<^sup>*\<^sup>* ?P3 (?final s scs)"
    by metis
  have "pump_step step what ctx cap P ?P1" "pump_step step what ctx cap ?P1 ?P2" "pump_step step what ctx cap ?P2 ?P3"
    using emit send skip by (simp_all only: pump_produce)
  with scs(3) have "(pump_step step what ctx cap)\<^sup>*\<^sup>* P (?final s scs)" by (meson converse_rtranclp_into_rtranclp)
  with scs(1,2) sc(2) show ?case by (intro exI[of _ s] exI[of _ "sc # scs"]) simp
qed

lemma receive_all:
  "pmPhase P \<noteq> Crashed \<Longrightarrow> (pump_step step what ctx cap)\<^sup>*\<^sup>* P (P\<lparr>pmBuffer := [], pmSeen := pmSeen P @ pmBuffer P\<rparr>)"
proof (induction "pmBuffer P" arbitrary: P)
  case Nil
  then have "P = P\<lparr>pmBuffer := [], pmSeen := pmSeen P @ pmBuffer P\<rparr>" by (cases P) simp
  then show ?case by simp
next
  case (Cons sc b)
  let ?P = "P\<lparr>pmBuffer := b, pmSeen := pmSeen P @ [sc]\<rparr>"
  have "pump_step step what ctx cap P ?P" using Cons.hyps(2) Cons.prems by (intro pump_step.quiet quiet_step.receive) simp_all
  moreover have "(pump_step step what ctx cap)\<^sup>*\<^sup>* ?P (P\<lparr>pmBuffer := [], pmSeen := pmSeen P @ pmBuffer P\<rparr>)"
    using Cons.hyps(1)[of ?P] Cons.hyps(2)[symmetric] Cons.prems by simp
  ultimately show ?case by (rule converse_rtranclp_into_rtranclp)
qed

text \<open>The body with \<open>n\<close> times the same event, each followed by a blank line.\<close>

definition repeated_event :: "nat \<Rightarrow> string \<Rightarrow> string" where
  "repeated_event n p = concat (map (\<lambda>l. l @ [CHR 0x0A]) (concat (replicate n [''data: '' @ p, []])))"

lemma scan_repeated: "payload_ok p \<Longrightarrow> scan_lines (repeated_event n p, e) = (concat (replicate n [''data: '' @ p, []]), e)"
  unfolding repeated_event_def by (rule scan_exact) (auto simp: payload_ok_def)

lemma emits_again:
  assumes "decode p = Inr chunk" and "payload_ok p" and "indices_fit (chunk_deltas chunk)"
    and "\<exists>ds. indices_fit ds \<and> s = fold add_delta ds no_calls"
  shows "\<exists>s' sc. openai_line decode s (''data: '' @ p) = (s', EmitChunk sc) \<and> scError sc = None \<and>
    (\<exists>ds. indices_fit ds \<and> s' = fold add_delta ds no_calls)"
proof -
  obtain ds where ds: "indices_fit ds" "s = fold add_delta ds no_calls" using assms(4) by blast
  then have fit: "indices_fit (ds @ chunk_deltas chunk)" using assms(3) by (auto simp: indices_fit_def)
  have "p \<noteq> ''[DONE]''" using assms(2) by (simp add: payload_ok_def)
  from openai_line_data[where decode = decode, OF assms(1) this, of s] openai_chunk_seen[OF fit] ds(2)
  have "openai_line decode s (''data: '' @ p) =
      (fold add_delta (ds @ chunk_deltas chunk) no_calls, EmitChunk (chunk_seen (ds @ chunk_deltas chunk) chunk))"
    by (simp only: fst_conv snd_conv option.case)
  moreover have "scError (chunk_seen (ds @ chunk_deltas chunk) chunk) = None" by (simp add: chunk_seen_def)
  ultimately show ?thesis using fit by blast
qed

text \<open>C37. 
  A broken answer can pass for a whole one. When the connection breaks after 64 events that the consumer
  has not yet taken, the error finds no room and is dropped: the channel is closed, a consumer that then drains it sees no
  error although the context never ended, and the planner takes the text so far for the complete answer.
\<close>

theorem read_error_dropped:
  assumes "decode p = Inr chunk" and "payload_ok p" and "indices_fit (chunk_deltas chunk)"
  shows "\<exists>P. (openai_pump_step decode ctx)\<^sup>*\<^sup>* openai_pump P \<and> fits P (repeated_event 64 p, Some reason) \<and> pmEnd P = Some (Some reason) \<and>
    pump_done P \<and> \<not> pmCancelled P \<and> \<not> pmExpired P \<and> length (pmSeen P) = 64 \<and>
    drain ev (pmSeen P) = (map (Pair ev) (pieces (pmSeen P)), Inr (concat (map scContent (pmSeen P))))"
proof -
  let ?ls = "concat (replicate 64 [''data: '' @ p, []])" and ?step = "pump_step (openai_line decode) ''stream read error: '' ctx 64"
  define P0 where "P0 = openai_pump\<lparr>pmArrived := ?ls, pmLines := ?ls, pmEnd := Some (Some reason)\<rparr>"
  have scan: "scan_lines (repeated_event 64 p, Some reason) = (?ls, Some reason)" by (rule scan_repeated[OF assms(2)])
  have arrived: "?step\<^sup>*\<^sup>* openai_pump P0" unfolding P0_def openai_pump_def by (rule receive_body[OF scan])
  have P0: "pmPhase P0 = Reading" "pmLines P0 = ?ls @ []" "length (pmBuffer P0) + 64 \<le> 64" "pmBuffer P0 = []" "pmSeen P0 = []"
    "\<exists>ds. indices_fit ds \<and> pmParser P0 = fold add_delta ds no_calls"
    by (auto simp: P0_def openai_pump_def pump_start_def indices_fit_def intro!: exI[of _ "[]"])
  have blank: "openai_line decode s [] = (s, SkipLine)" for s by (simp add: openai_line_def)
  obtain s scs where scs: "length scs = 64" "\<forall>c \<in> set scs. scError c = None"
    "?step\<^sup>*\<^sup>* P0 (P0\<lparr>pmPhase := Reading, pmLines := [], pmParser := s, pmBuffer := pmBuffer P0 @ scs\<rparr>)"
    using fill_buffer[of "\<lambda>s. \<exists>ds. indices_fit ds \<and> s = fold add_delta ds no_calls" "openai_line decode" "''data: '' @ p" P0 64 "[]" 64,
        where what = "''stream read error: ''" and ctx = ctx, OF emits_again[where decode = decode, OF assms] blank P0(6,1-3)] by blast
  define P1 where "P1 = P0\<lparr>pmPhase := Reading, pmLines := [], pmParser := s, pmBuffer := scs\<rparr>"
  let ?P2 = "P1\<lparr>pmPhase := Failing (''stream read error: '' @ reason)\<rparr>" and ?P3 = "P1\<lparr>pmPhase := Closed\<rparr>"
  let ?P = "?P3\<lparr>pmBuffer := [], pmSeen := scs\<rparr>"
  have P1: "pmPhase P1 = Reading" "pmLines P1 = []" "pmEnd P1 = Some (Some reason)" "pmBuffer P1 = scs" "pmSeen P1 = []"
    "pmArrived P1 = ?ls" "\<not> pmCancelled P1" "\<not> pmExpired P1"
    by (simp_all add: P1_def P0_def openai_pump_def pump_start_def)
  have "?step ?P2 ?P3" using pump_produce[OF producer.drop_error[of ?P2 "''stream read error: '' @ reason" 64]] scs(1) P1(4) by simp
  moreover have "?step P1 ?P2" using P1(1-3) by (intro pump_produce producer.read_error)
  moreover have "?step\<^sup>*\<^sup>* ?P3 ?P" using receive_all[of ?P3 "openai_line decode" "''stream read error: ''" ctx 64] P1(4,5) by simp
  moreover have "?step\<^sup>*\<^sup>* openai_pump P1" using arrived scs(3) P0(4) by (simp add: P1_def)
  ultimately have "?step\<^sup>*\<^sup>* openai_pump ?P" by (meson rtranclp.rtrancl_into_rtrancl rtranclp_trans)
  moreover have "fits ?P (repeated_event 64 p, Some reason)" by (simp add: fits_def scan P1(3,6) coming_def)
  moreover have "drain ev scs = (map (Pair ev) (pieces scs), Inr (concat (map scContent scs)))"
    using drain_complete[OF scs(2)] by (simp add: concat_pieces)
  ultimately show ?thesis
    unfolding openai_pump_step_def using scs(1) P1(3,7,8) by (intro exI[of _ ?P] conjI) (simp_all add: pump_done_def)
qed

theorem channels_refine_readers_witness:
  "\<exists>cs. cs_err cs = ''gone'' \<and> (\<forall>k. cs_room cs k \<and> \<not> cs_cancelled cs k) \<and>
     read_openai_stream (\<lambda>_. Inl []) cs ([], Some ''reset'') = [error_chunk ''stream read error: reset'']"
proof -
  let ?step = "openai_pump_step (\<lambda>_. Inl []) ''gone''" and ?body = "([], Some ''reset'')"
  have scan: "scan_lines ?body = ([], Some ''reset'')" by (simp add: scan_lines_def raw_lines_def)
  let ?S = "openai_pump\<lparr>pmArrived := [], pmLines := [], pmEnd := Some (Some ''reset'')\<rparr>"
  let ?P1 = "?S\<lparr>pmPhase := Failing ''stream read error: reset''\<rparr>"
  let ?P = "?S\<lparr>pmBuffer := [error_chunk ''stream read error: reset''], pmPhase := Closed\<rparr>"
  have "?step\<^sup>*\<^sup>* openai_pump ?S" unfolding openai_pump_step_def openai_pump_def by (rule receive_body[OF scan])
  moreover have "?step ?S ?P1"
    using pump_produce[OF producer.read_error[of ?S "''reset''" "openai_line (\<lambda>_. Inl [])" "''stream read error: ''" "''gone''" 64]]
    by (simp add: openai_pump_step_def openai_pump_def pump_start_def)
  moreover have "?step ?P1 ?P"
    using pump_produce[OF producer.send_error[of ?P1 "''stream read error: reset''" 64 "openai_line (\<lambda>_. Inl [])" "''stream read error: ''" "''gone''"]]
    by (simp add: openai_pump_step_def openai_pump_def pump_start_def)
  ultimately have "?step\<^sup>*\<^sup>* openai_pump ?P" by (meson rtranclp.rtrancl_into_rtrancl)
  moreover have P: "pmPhase ?P = Closed" "\<not> pmCancelled ?P" "delivered ?P = [error_chunk ''stream read error: reset'']" "fits ?P ?body"
    by (simp_all add: openai_pump_def pump_start_def delivered_def fits_def scan coming_def)
  ultimately obtain cs where "explains ''gone'' 64 ?P cs" "delivered ?P = read_openai_stream (\<lambda>_. Inl []) cs ?body"
    using channels_refine_readers[of "\<lambda>_. Inl []" "''gone''" no_decoders] by blast
  with P show ?thesis by (intro exI[of _ cs]) (simp add: explains_def)
qed

theorem read_error_dropped_witness:
  "\<exists>P. (openai_pump_step (\<lambda>_. Inr sample_chunk) ''gone'')\<^sup>*\<^sup>* openai_pump P \<and> fits P (repeated_event 64 ''x'', Some ''reset'') \<and>
    pump_done P \<and> \<not> pmCancelled P \<and> (\<exists>text. snd (drain ''t'' (pmSeen P)) = Inr text)"
proof -
  have "indices_fit (chunk_deltas sample_chunk)" by (simp add: chunk_deltas_def sample_chunk_def indices_fit_def call_limit_def)
  then obtain P where "(openai_pump_step (\<lambda>_. Inr sample_chunk) ''gone'')\<^sup>*\<^sup>* openai_pump P" "fits P (repeated_event 64 ''x'', Some ''reset'')"
    "pump_done P" "\<not> pmCancelled P" "drain ''t'' (pmSeen P) = (map (Pair ''t'') (pieces (pmSeen P)), Inr (concat (map scContent (pmSeen P))))"
    using read_error_dropped[of "\<lambda>_. Inr sample_chunk" "''x''" sample_chunk "''gone''" "''reset''" "''t''"] by (auto simp: payload_ok_def)
  then show ?thesis by (intro exI[of _ P]) simp
qed

theorem streams_complete_witness:
  "pump_done openai_pump \<or> pmPhase openai_pump = Crashed \<or>
   (\<exists>P'. quiet_step (openai_line (\<lambda>_. Inl [])) ''e'' ''gone'' 64 openai_pump P')"
proof -
  have "(pump_step (openai_line (\<lambda>_. Inl [])) ''e'' ''gone'' 64)\<^sup>*\<^sup>* (pump_start no_calls httpTimeoutSeconds) openai_pump"
    by (simp add: openai_pump_def)
  then show ?thesis using streams_complete[of "openai_line (\<lambda>_. Inl [])" "''e''" "''gone''" no_calls] by blast
qed

end
