(* ===== verification/Parallel_Dispatch.thy ===== *)
theory Parallel_Dispatch
  imports Execution_Properties "HOL-Library.Multiset"
begin

text \<open>
  Batches and preparation together (\<open>execution/plan.go\<close>): the steps of a batch may be prepared in any order,
  because each preparation works on a copy, even of a map that several steps share. What a reference in a
  step means, though, depends on which steps have finished.
\<close>

section \<open>Preparing a batch\<close>

text \<open>The steps of a batch prepared one after the other, with the results of earlier batches.\<close>

fun prepare_all :: "stdlib \<Rightarrow> arg_heap \<Rightarrow> ExecutionStep list \<Rightarrow> (string, goval) gomap \<Rightarrow> arg_heap \<times> (step_error + ExecutionStep) list" where
  "prepare_all L h [] results = (h, [])"
| "prepare_all L h (s # ss) results =
     (let (h1, r) = Prepare L h s results; (h2, rs) = prepare_all L h1 ss results in (h2, r # rs))"

text \<open>What a preparation delivers: its error, or the step with the contents of its map in place of the address.\<close>

definition outcome :: "arg_heap \<Rightarrow> step_error + ExecutionStep \<Rightarrow> step_error + ExecutionStep \<times> args option" where
  "outcome h r = map_sum id (\<lambda>s. (s\<lparr>stArguments := None\<rparr>, map_option (\<lambda>a. h ! a) (stArguments s))) r"

definition prepared_alone :: "stdlib \<Rightarrow> arg_heap \<Rightarrow> (string, goval) gomap \<Rightarrow> ExecutionStep \<Rightarrow> step_error + ExecutionStep \<times> args option" where
  "prepared_alone L h results s = (let (h', r) = Prepare L h s results in outcome h' r)"

text \<open>The address of the map a prepared step holds, if any.\<close>

definition result_addr :: "step_error + ExecutionStep \<Rightarrow> nat option" where
  "result_addr r = (case r of Inl e \<Rightarrow> None | Inr s \<Rightarrow> stArguments s)"

lemma Prepare_on_copy:
  assumes "step_ok_addr h s"
  obtains (no_map) "stArguments s = None" "\<And>g. Prepare L (h @ g) s results = (h @ g, Inr s)"
  | (copied) m e where "\<And>g. Prepare L (h @ g) s results =
      (h @ g @ [m], case e of Some e \<Rightarrow> Inl e | None \<Rightarrow> Inr (s\<lparr>stArguments := Some (length (h @ g))\<rparr>))"
proof (cases "stArguments s")
  case None
  then show ?thesis
    by (intro no_map) (simp_all add: Prepare_def Clone_def CoerceStepNumbers_def ResolveArguments_def)
next
  case (Some a)
  then have a: "a < length h" using assms by (simp add: step_ok_addr_def)
  let ?c = "coerced L (fold (\<lambda>(k, v) m. gm_put k v m) (h ! a) [])"
  let ?r = "resolve_entries L results ?c"
  show ?thesis
  proof (rule copied[of "if results = [] then ?c else fst ?r" "if results = [] then None else map_option (StepError (stName s)) (snd ?r)"])
    fix g
    have "(h @ g) ! a = h ! a" using a by (simp add: nth_append)
    with Some a show "Prepare L (h @ g) s results = (h @ g @ [if results = [] then ?c else fst ?r],
        case (if results = [] then None else map_option (StepError (stName s)) (snd ?r)) of
          Some e \<Rightarrow> Inl e | None \<Rightarrow> Inr (s\<lparr>stArguments := Some (length (h @ g))\<rparr>))"
      by (simp add: Prepare_def Clone_def CoerceStepNumbers_def ResolveArguments_def coerced_def Let_def list_update_append
          split: option.split)
  qed
qed

definition own_maps :: "nat \<Rightarrow> (step_error + ExecutionStep) list \<Rightarrow> bool" where
  "own_maps n rs \<longleftrightarrow> (\<forall>a \<in> set (List.map_filter result_addr rs). n \<le> a) \<and> distinct (List.map_filter result_addr rs)"

lemma own_maps_Cons:
  "own_maps n (r # rs) \<longleftrightarrow> (case result_addr r of
     None \<Rightarrow> own_maps n rs
   | Some a \<Rightarrow> n \<le> a \<and> a \<notin> set (List.map_filter result_addr rs) \<and> own_maps n rs)"
  by (auto simp: own_maps_def List.map_filter_simps split: option.split)

lemma own_maps_less: "own_maps (Suc n) rs \<Longrightarrow> own_maps n rs \<and> n \<notin> set (List.map_filter result_addr rs)"
  by (auto simp: own_maps_def)

lemma prepare_all_spec:
  "\<forall>s \<in> set ss. step_ok_addr h s \<Longrightarrow> prepare_all L (h @ g) ss results = (h', rs) \<Longrightarrow>
     (\<exists>g'. h' = h @ g @ g') \<and> list_all2 (\<lambda>s r. outcome h' r = prepared_alone L h results s) ss rs \<and>
     own_maps (length (h @ g)) rs"
proof (induction ss arbitrary: g rs)
  case Nil
  then show ?case by (auto simp: own_maps_def List.map_filter_simps)
next
  case (Cons s ss)
  from Cons.prems(1) have ok: "step_ok_addr h s" "\<forall>s \<in> set ss. step_ok_addr h s" by simp_all
  from ok(1) show ?case
  proof (cases rule: Prepare_on_copy[of h s L results])
    case no_map
    from Cons.prems(2) obtain rs' where rest: "prepare_all L (h @ g) ss results = (h', rs')" and rs: "rs = Inr s # rs'"
      by (auto simp: no_map(2) split: prod.splits)
    have "outcome h' (Inr s) = prepared_alone L h results s"
      using no_map(2)[of "[]"] no_map(1) by (simp add: prepared_alone_def outcome_def)
    with Cons.IH[OF ok(2) rest] show ?thesis by (simp add: rs own_maps_Cons result_addr_def no_map(1))
  next
    case (copied m e)
    let ?r = "\<lambda>g. case e of Some e \<Rightarrow> Inl e | None \<Rightarrow> Inr (s\<lparr>stArguments := Some (length (h @ g))\<rparr>)"
    from Cons.prems(2) obtain rs' where rest: "prepare_all L (h @ (g @ [m])) ss results = (h', rs')" and rs: "rs = ?r g # rs'"
      by (auto simp: copied split: prod.splits)
    from Cons.IH[OF ok(2) rest] obtain g' where IH: "h' = h @ (g @ [m]) @ g'"
      "list_all2 (\<lambda>s r. outcome h' r = prepared_alone L h results s) ss rs'" "own_maps (Suc (length (h @ g))) rs'" by auto
    have "h' ! length (h @ g) = m" using nth_append_length[of "h @ g" m g'] by (simp add: IH(1))
    then have "outcome h' (?r g) = prepared_alone L h results s"
      using copied[of "[]"] by (simp add: prepared_alone_def outcome_def split: option.split)
    moreover have "own_maps (length (h @ g)) rs"
      using own_maps_less[OF IH(3)] by (simp add: rs own_maps_Cons result_addr_def split: option.split)
    ultimately show ?thesis using IH(1,2) by (simp add: rs)
  qed
qed

text \<open>C29. 
  The steps of a batch do not get in each other's way. Prepared in any order, with the results of earlier
  batches, each gives what it gives alone, error or arguments, also when steps share a map; no map of the plan changes and
  every prepared step holds its arguments in a map of its own.
\<close>

theorem batch_prepared_in_any_order:
  assumes "\<forall>s \<in> set ss. step_ok_addr h s" and "b \<in> set (GroupParallelSteps ss)" and "mset xs = mset b"
    and "prepare_all L h xs results = (h', rs)"
  shows "take (length h) h' = h \<and> map (outcome h') rs = map (prepared_alone L h results) xs \<and>
    distinct (List.map_filter result_addr rs) \<and> (\<forall>a \<in> set (List.map_filter result_addr rs). length h \<le> a)"
proof -
  have "set xs \<subseteq> set ss"
    using assms(2) arg_cong[OF GroupParallelSteps_concat[of ss], of set] mset_eq_setD[OF assms(3)] by auto
  then have "\<forall>s \<in> set xs. step_ok_addr h s" using assms(1) by blast
  from prepare_all_spec[OF this, of L "[]" results h' rs] assms(4) have
    "\<exists>g'. h' = h @ g'" "list_all2 (\<lambda>s r. outcome h' r = prepared_alone L h results s) xs rs" "own_maps (length h) rs" by simp_all
  moreover from this(2) have "map (outcome h') rs = map (prepared_alone L h results) xs"
    by (induction rule: list_all2_induct) simp_all
  ultimately show ?thesis by (auto simp: own_maps_def)
qed

definition shared_heap :: arg_heap where
  "shared_heap = [[(''n'', GStr ''42'')]]"

theorem batch_prepared_in_any_order_witness:
  "take 1 (fst (prepare_all plain_lib shared_heap [par_step, par_step] [])) = shared_heap \<and>
   distinct (List.map_filter result_addr (snd (prepare_all plain_lib shared_heap [par_step, par_step] [])))"
proof -
  have "GroupParallelSteps [par_step, par_step] = [[par_step, par_step]]" by (simp add: par_step_def demo_step_def)
  then show ?thesis
    using batch_prepared_in_any_order[of "[par_step, par_step]" shared_heap "[par_step, par_step]" "[par_step, par_step]" plain_lib "[]"
        "fst (prepare_all plain_lib shared_heap [par_step, par_step] [])" "snd (prepare_all plain_lib shared_heap [par_step, par_step] [])"]
    by (simp add: step_ok_addr_def par_step_def demo_step_def shared_heap_def)
qed

section \<open>References and finished steps\<close>

text \<open>
  A step can only be prepared if each of its references names a step that has finished, so with a result
  at hand no step of a batch can refer to another step of it.
\<close>

lemma resolvable_finished:
  assumes "resolvable results c"
  shows "\<exists>m \<in> dotted_prefixes c. gm_has results m"
  using assms named_step_longest[of c results "fst (resolveTemplateContent c results)" "snd (resolveTemplateContent c results)"]
  by (auto simp: resolvable_def lookup_ref_def gm_has_def case_prod_beta dotted_prefixes_def split: option.splits if_splits)

lemma unfinished_reference_fails:
  assumes "stArguments s = Some a" and "a < length h" and "gm_wf (h ! a)" and "results \<noteq> []"
    and "(k, GStr text) \<in> set (coerced L (h ! a))" and "c \<in> set (refs text)" and "\<forall>m \<in> dotted_prefixes c. \<not> gm_has results m"
  shows "\<exists>h' e. Prepare L h s results = (h', Inl e)"
proof -
  have "\<not> arg_resolvable results (GStr text)"
    using resolvable_finished[of results c] assms(6,7) by (auto simp: arg_resolvable_def list_all_iff)
  moreover have "GStr text \<in> set (gm_vals (coerced L (h ! a)))" using assms(5) by (force simp: gm_vals_def)
  ultimately obtain e where "snd (resolve_entries L results (coerced L (h ! a))) = Some e"
    using resolve_entries_spec[OF assms(4), of L "coerced L (h ! a)"] by fastforce
  with assms(1-4) show ?thesis by (simp add: Prepare_Some)
qed

text \<open>
  The meaning of a reference can change while a plan runs: as long as only the step \<open>a\<close> has finished,
  \<open>{{a.b}}\<close> is the field \<open>b\<close> of its result, and once a step named \<open>a.b\<close> has finished it is the result of that step.
\<close>

lemma reference_changes_meaning:
  "Resolve L ''{{a.b}}'' [(''a'', GMap [(''b'', GStr ''x'')])] = Inr (GStr ''x'') \<and>
   Resolve L ''{{a.b}}'' [(''a'', GMap [(''b'', GStr ''x'')]), (''a.b'', GStr ''y'')] = Inr (GStr ''y'')"
  by (simp add: template_eval extractField_def)

end
