(* ===== verification/Go_Float.thy ===== *)
theory Go_Float
  imports Go_Value "HOL-Library.Log_Nat"
begin

text \<open>
  The ground of \<open>strconv\<close>: the values of \<open>float64\<close> as exact numbers with a 53-bit significand, and
  rounding to nearest even with its error bound.
\<close>

section \<open>Logarithms of rationals\<close>

definition log_floor :: "nat \<Rightarrow> rat \<Rightarrow> int" where
  "log_floor b q =
     (let (n, d) = quotient_of q;
          k = int (floorlog b (nat n)) - int (floorlog b (nat d))
      in if q < of_nat b powi k then k - 1 else k)"

lemma floorlog_powi:
  fixes n :: int
  assumes "1 < b" and "0 < n"
  shows "(of_nat b :: rat) powi (int (floorlog b (nat n)) - 1) \<le> of_int n"
    and "of_int n < (of_nat b :: rat) powi int (floorlog b (nat n))"
proof -
  let ?k = "floorlog b (nat n)"
  have bounds: "b ^ (?k - 1) \<le> nat n \<and> nat n < b ^ ?k" using assms by (intro floorlog_bounds) auto
  have k: "0 < ?k" using assms by (simp add: floorlog_def)
  have n: "(of_nat (nat n) :: rat) = of_int n" using assms(2) by (simp add: of_nat_nat)
  have "(of_nat (b ^ (?k - 1)) :: rat) \<le> of_nat (nat n)" using bounds of_nat_le_iff by blast
  moreover have "(of_nat b :: rat) powi (int ?k - 1) = of_nat (b ^ (?k - 1))"
    using k by (simp add: power_int_def nat_diff_distrib')
  ultimately show "(of_nat b :: rat) powi (int ?k - 1) \<le> of_int n" using n by simp
  have "(of_nat (nat n) :: rat) < of_nat (b ^ ?k)" using bounds of_nat_less_iff by blast
  then show "of_int n < (of_nat b :: rat) powi int ?k" using n by simp
qed

lemma log_floor_bounds:
  assumes "1 < b" and "0 < q"
  shows "of_nat b powi log_floor b q \<le> q" and "q < of_nat b powi (log_floor b q + 1)"
proof -
  obtain n d where nd: "quotient_of q = (n, d)" by (rule prod.exhaust)
  have d: "0 < d" using quotient_of_denom_pos[OF nd] .
  have q: "q = of_int n / of_int d" using quotient_of_div[OF nd] .
  have n: "0 < n" using assms(2) d q by (simp add: zero_less_divide_iff)
  let ?B = "of_nat b :: rat"
  have B: "1 < ?B" "0 < ?B" using assms(1) by simp_all
  let ?i = "int (floorlog b (nat n))" and ?j = "int (floorlog b (nat d))"
  note N = floorlog_powi[OF assms(1) n] and D = floorlog_powi[OF assms(1) d]
  have "q < ?B powi ?i / ?B powi (?j - 1)"
    unfolding q using N(2) D(1) B d n
    by (intro frac_less) simp_all
  also have "\<dots> = ?B powi (?i - ?j + 1)" using B by (simp add: power_int_diff algebra_simps power_int_add)
  finally have upper: "q < ?B powi (?i - ?j + 1)" .
  have "?B powi (?i - 1) / ?B powi ?j \<le> q"
    unfolding q using N(1) D(2) B d n by (intro frac_le) simp_all
  moreover have "?B powi (?i - 1) / ?B powi ?j = ?B powi (?i - ?j - 1)"
    using B by (simp add: power_int_diff algebra_simps power_int_add)
  ultimately have lower: "?B powi (?i - ?j - 1) \<le> q" by simp
  show "?B powi log_floor b q \<le> q" "q < ?B powi (log_floor b q + 1)"
    using lower upper by (auto simp: log_floor_def nd Let_def not_less algebra_simps)
qed

section \<open>Rounding\<close>

definition round_even :: "rat \<Rightarrow> int" where
  "round_even q = (let m = \<lfloor>q\<rfloor>; r = q - of_int m in
     if r < 1 / 2 \<or> (r = 1 / 2 \<and> even m) then m else m + 1)"

text \<open>The distance of neighbours around a positive number; below \<open>2^-1022\<close> it stays the same.\<close>

definition ulp64 :: "rat \<Rightarrow> rat" where
  "ulp64 q = 2 powi (max (log_floor 2 q) (-1022) - 52)"

text \<open>
  The nearest number with a significand of 53 bits, the even one of two equally near; \<open>round64\<close> is \<open>None\<close> when
  that is out of range. Both are for numbers that are not negative, the sign of a \<open>float64\<close> is kept apart.
\<close>

definition round_raw :: "rat \<Rightarrow> rat" where
  "round_raw q = (if q = 0 then 0 else of_int (round_even (q / ulp64 q)) * ulp64 q)"

definition round64 :: "rat \<Rightarrow> rat option" where
  "round64 q = (if round_raw q < 2 powi 1024 then Some (round_raw q) else None)"

definition is_float :: "rat \<Rightarrow> bool" where
  "is_float q \<longleftrightarrow> (\<exists>m e. q = of_int m * 2 powi e \<and> 0 \<le> m \<and> m < 2 ^ 53 \<and> -1074 \<le> e)"

definition is_float64 :: "rat \<Rightarrow> bool" where
  "is_float64 q \<longleftrightarrow> is_float q \<and> q < 2 powi 1024"

lemma round_even_of_int [simp]: "round_even (of_int m) = m"
  by (simp add: round_even_def Let_def)

lemma ulp64_pos: "0 < ulp64 q"
  by (simp add: ulp64_def)

lemma is_floatE:
  assumes "is_float q"
  obtains m e where "q = of_int m * 2 powi e" and "0 \<le> m" and "m < 2 ^ 53" and "-1074 \<le> e" and "q < 2 powi (e + 53)"
proof -
  obtain m e where me: "q = of_int m * 2 powi e" "0 \<le> m" "m < 2 ^ 53" "-1074 \<le> e"
    using assms unfolding is_float_def by blast
  have "(of_int m :: rat) < 2 ^ 53" using me(3) by (metis of_int_less_iff of_int_numeral of_int_power)
  then have "q < 2 ^ 53 * 2 powi e" unfolding me(1) by (intro mult_strict_right_mono) simp_all
  also have "\<dots> = 2 powi (e + 53)" by (simp add: power_int_add)
  finally show ?thesis using that me by blast
qed

lemma is_float_nonneg: "is_float q \<Longrightarrow> 0 \<le> q"
  by (auto simp: is_float_def)

lemma is_float_0: "is_float 0"
  unfolding is_float_def by (intro exI[of _ 0] exI[of _ 0]) simp

lemma is_float_int:
  assumes "0 \<le> i" and "i \<le> 2 ^ 53"
  shows "is_float (of_int i)"
proof (cases "i < 2 ^ 53")
  case True
  with assms(1) have "of_int i = of_int i * (2 :: rat) powi 0 \<and> 0 \<le> i \<and> i < 2 ^ 53 \<and> (-1074 :: int) \<le> 0" by simp
  then show ?thesis unfolding is_float_def by blast
next
  case False
  with assms(2) have i: "i = 2 * 2 ^ 52" by simp
  have "of_int i = of_int (2 ^ 52) * (2 :: rat) powi 1" by (simp only: i of_int_mult power_int_1_right of_int_numeral of_int_power mult.commute)
  moreover have "(0 :: int) \<le> 2 ^ 52 \<and> (2 ^ 52 :: int) < 2 ^ 53 \<and> (-1074 :: int) \<le> 1" by simp
  ultimately show ?thesis unfolding is_float_def by blast
qed

lemma round_even_nearest: "\<bar>y - of_int (round_even y)\<bar> \<le> \<bar>y - of_int n\<bar>"
proof -
  define M where "M = (of_int \<lfloor>y\<rfloor> :: rat)"
  have m: "M \<le> y" "y < M + 1" using floor_correct[of y] by (simp_all add: M_def)
  have "of_int (round_even y) = (if y - M < 1 / 2 \<or> y - M = 1 / 2 \<and> even \<lfloor>y\<rfloor> then M else M + 1)"
    by (simp add: round_even_def Let_def M_def)
  with m have near: "\<bar>y - of_int (round_even y)\<bar> \<le> y - M" "\<bar>y - of_int (round_even y)\<bar> \<le> M + 1 - y"
    by (auto simp: abs_if)
  have "of_int n \<le> M \<or> M + 1 \<le> of_int n"
    unfolding M_def by (metis add1_zle_eq not_le of_int_1 of_int_add of_int_le_iff)
  then show ?thesis
  proof
    assume "of_int n \<le> M"
    with m(1) near(1) show ?thesis by (simp add: abs_if)
  next
    assume "M + 1 \<le> of_int n"
    with m(2) near(2) show ?thesis by (simp add: abs_if)
  qed
qed

lemma round_even_le: "y \<le> of_int n \<Longrightarrow> round_even y \<le> n"
proof -
  assume y: "y \<le> of_int n"
  show ?thesis
  proof (cases "y = of_int n")
    case False
    with y have "\<lfloor>y\<rfloor> < n" by (simp add: floor_less_iff)
    then show ?thesis by (simp add: round_even_def Let_def)
  qed simp
qed

lemma round_even_ge: "of_int n \<le> y \<Longrightarrow> n \<le> round_even y"
  using floor_mono[of "of_int n" y] by (simp add: round_even_def Let_def)

text \<open>Where a positive number lies between its neighbours.\<close>

lemma ulp64_place:
  assumes "0 < q"
  obtains k where "ulp64 q = 2 powi k" and "-1074 \<le> k" and "q < 2 powi (k + 53)"
    and "k = -1074 \<or> 2 powi (k + 52) \<le> q"
proof
  let ?e = "log_floor 2 q"
  let ?k = "max ?e (-1022) - 52"
  have b: "2 powi ?e \<le> q" "q < 2 powi (?e + 1)" using log_floor_bounds[of 2 q] assms by simp_all
  show "ulp64 q = 2 powi ?k" by (simp add: ulp64_def)
  show "-1074 \<le> ?k" by simp
  have "(2 :: rat) powi (?e + 1) \<le> 2 powi (?k + 53)" by (intro power_int_increasing) simp_all
  with b(2) show "q < 2 powi (?k + 53)" by simp
  show "?k = -1074 \<or> 2 powi (?k + 52) \<le> q" using b(1) by (cases "?e \<le> -1022") (simp_all add: max_def)
qed

text \<open>A number with a significand of 53 bits is a multiple of \<open>2^k\<close>, or so small that it lies well below \<open>2^(k + 52)\<close>.\<close>

lemma is_float_grid:
  assumes "is_float x" and "-1074 \<le> k"
  obtains (on) n where "x = of_int n * 2 powi k"
  | (below) "k \<noteq> -1074" and "x + 2 powi (k - 1) \<le> 2 powi (k + 52)"
proof -
  obtain m e where me: "x = of_int m * 2 powi e" "0 \<le> m" "m < 2 ^ 53" "-1074 \<le> e" using assms(1) by (rule is_floatE)
  show ?thesis
  proof (cases "k \<le> e")
    case True
    then have "x = of_int (m * 2 ^ nat (e - k)) * 2 powi k"
      using me(1) power_int_add[of "2 :: rat" "e - k" k] by (simp add: power_int_def[of _ "e - k"])
    then show ?thesis by (rule on)
  next
    case False
    have "(of_int m :: rat) + 1 \<le> 2 ^ 53"
      using me(3) of_int_le_iff[of "m + 1" "2 ^ 53", where 'a = rat] by simp
    then have m: "of_int m \<le> (2 :: rat) ^ 53 - 1" by simp
    have "x \<le> (2 ^ 53 - 1) * 2 powi e" unfolding me(1) using m by (intro mult_right_mono) simp_all
    also have "\<dots> \<le> (2 ^ 53 - 1) * 2 powi (k - 1)"
      using False by (intro mult_left_mono power_int_increasing) simp_all
    also have "\<dots> = 2 powi (k + 52) - 2 powi (k - 1)"
      using power_int_add[of "2 :: rat" 53 "k - 1"] by (simp add: left_diff_distrib add.commute)
    finally show ?thesis using False me(4) by (intro below) simp_all
  qed
qed

lemma is_float_scaled:
  assumes "0 \<le> m" and "m \<le> 2 ^ 53" and "-1074 \<le> k"
  shows "is_float (of_int m * 2 powi k)"
proof (cases "m < 2 ^ 53")
  case True
  with assms show ?thesis unfolding is_float_def by blast
next
  case False
  with assms(2) have m: "m = 2 ^ 53" by simp
  have "of_int m * (2 :: rat) powi k = of_int (2 ^ 52) * 2 powi (k + 1)" unfolding m by (simp add: power_int_add)
  moreover have "(0 :: int) \<le> 2 ^ 52" "(2 ^ 52 :: int) < 2 ^ 53" by simp_all
  moreover have "-1074 \<le> k + 1" using assms(3) by simp
  ultimately show ?thesis unfolding is_float_def by blast
qed

text \<open>Rounding gives a number of this kind, none is nearer, and such a number rounds to itself.\<close>

lemma round_raw_float:
  assumes "0 < q"
  shows "is_float (round_raw q)"
proof -
  obtain k where k: "ulp64 q = 2 powi k" "-1074 \<le> k" "q < 2 powi (k + 53)" using assms by (rule ulp64_place)
  have "q / ulp64 q < 2 ^ 53" using k(3) by (simp add: k(1) divide_less_eq power_int_add mult.commute)
  then have "0 \<le> round_even (q / ulp64 q)" "round_even (q / ulp64 q) \<le> 2 ^ 53"
    using assms ulp64_pos[of q] by (auto intro!: round_even_le round_even_ge simp: less_imp_le)
  then show ?thesis using is_float_scaled k(2) assms by (simp add: round_raw_def k(1))
qed

lemma round_raw_nearest:
  assumes "0 < q" and "is_float x"
  shows "\<bar>q - round_raw q\<bar> \<le> \<bar>q - x\<bar>"
proof -
  obtain k where k: "ulp64 q = 2 powi k" "-1074 \<le> k" "k = -1074 \<or> 2 powi (k + 52) \<le> q" using assms(1) by (rule ulp64_place)
  let ?u = "(2 :: rat) powi k"
  have near: "\<bar>q - round_raw q\<bar> \<le> \<bar>q - of_int n * ?u\<bar>" for n
  proof -
    have scaled: "\<bar>q - of_int n * ?u\<bar> = \<bar>q / ?u - of_int n\<bar> * ?u" for n
    proof -
      have "q - of_int n * ?u = (q / ?u - of_int n) * ?u" by (simp add: left_diff_distrib)
      then show ?thesis by (simp add: abs_mult)
    qed
    have "round_raw q = of_int (round_even (q / ?u)) * ?u" using assms(1) by (simp add: round_raw_def k(1))
    then show ?thesis unfolding scaled by (auto simp: scaled intro!: mult_right_mono round_even_nearest)
  qed
  show ?thesis
  proof (cases rule: is_float_grid[OF assms(2) k(2)])
    case (1 n)
    with near show ?thesis by simp
  next
    case 2
    have "0 < (2 :: rat) powi (k - 1)" by simp
    moreover have "2 powi (k + 52) \<le> q" using 2(1) k(3) by simp
    moreover have "(2 :: rat) powi (k + 52) = of_int (2 ^ 52) * ?u" by (simp add: power_int_add)
    ultimately show ?thesis using near[of "2 ^ 52"] 2(2) by linarith
  qed
qed

lemma round_raw_id: "is_float q \<Longrightarrow> round_raw q = q"
  using round_raw_nearest[of q q] is_float_nonneg[of q] by (cases "q = 0") (auto simp: round_raw_def)

lemma round64_float: "is_float64 q \<Longrightarrow> round64 q = Some q"
  by (simp add: round64_def is_float64_def round_raw_id)

text \<open>Different numbers of this kind are more than one part in \<open>10^16\<close> apart.\<close>

lemma is_float_apart:
  assumes "is_float q" and "0 < q" and "is_float x" and "x \<noteq> q"
  shows "q * 2 powi (-53) \<le> \<bar>q - x\<bar>"
proof -
  obtain k where k: "-1074 \<le> k" "q < 2 powi (k + 53)" "k = -1074 \<or> 2 powi (k + 52) \<le> q" using assms(2) by (rule ulp64_place)
  let ?u = "(2 :: rat) powi k"
  have u: "0 < ?u" "q * 2 powi (-53) \<le> ?u" "2 powi (k + 52) * 2 powi (-53) = (2 :: rat) powi (k - 1)"
    using k(2) by (simp_all add: power_int_add power_int_minus power_int_diff field_simps)
  have "\<not> (k \<noteq> -1074 \<and> q + 2 powi (k - 1) \<le> 2 powi (k + 52))"
    using k(3) zero_less_power_int[of "2 :: rat" "k - 1"] by linarith
  then obtain n where n: "q = of_int n * ?u" using is_float_grid[OF assms(1) k(1)] by blast
  show ?thesis
  proof (cases rule: is_float_grid[OF assms(3) k(1)])
    case (1 i)
    with n assms(4) have "n \<noteq> i" by auto
    then have "1 \<le> \<bar>n - i\<bar>" by simp
    then have "(1 :: rat) \<le> of_int \<bar>n - i\<bar>" by (metis of_int_1 of_int_le_iff)
    then have "(1 :: rat) \<le> \<bar>of_int (n - i)\<bar>" by simp
    then have "?u \<le> \<bar>of_int (n - i)\<bar> * ?u" using mult_right_mono[of 1 "\<bar>of_int (n - i)\<bar>" ?u] u(1) by simp
    also have "\<dots> = \<bar>q - x\<bar>" using u(1) by (simp add: n 1 left_diff_distrib[symmetric] abs_mult)
    finally show ?thesis using u(2) by linarith
  next
    case 2
    show ?thesis
    proof (cases "n = 2 ^ 52")
      case True
      then have "q = 2 powi (k + 52)" by (simp add: n power_int_add)
      then show ?thesis using 2(2) u(3) by simp
    next
      case False
      have "2 powi (k + 52) \<le> q" using 2(1) k(3) by simp
      then have "(2 :: rat) ^ 52 * ?u \<le> of_int n * ?u" by (simp add: n power_int_add)
      then have "(2 :: rat) ^ 52 \<le> of_int n" using u(1) by simp
      then have "2 ^ 52 < n" using False by (metis of_int_le_iff of_int_numeral of_int_power order_le_neq_trans)
      then have "(2 :: rat) ^ 52 + 1 \<le> of_int n" using of_int_le_iff[of "2 ^ 52 + 1" n, where 'a = rat] by simp
      then have "((2 :: rat) ^ 52 + 1) * ?u \<le> q" unfolding n using u(1) by (intro mult_right_mono) simp_all
      then have "2 powi (k + 52) + ?u \<le> q" by (simp add: power_int_add left_diff_distrib distrib_right)
      then show ?thesis using 2(2) u zero_less_power_int[of "2 :: rat" "k - 1"] by linarith
    qed
  qed
qed

end
