(* ===== verification/Go_Number.thy ===== *)
theory Go_Number
  imports Go_Float
begin

text \<open>
  Decimal literals of \<open>strconv\<close> and \<open>encoding/json\<close>: what they mean as a \<open>float64\<close> and as an \<open>int64\<close>, and which one
  is printed for a \<open>float64\<close>: the shortest that reads back, of these the nearest. That 17 digits are always enough
  is proved, so that what is printed reads back as the number it was printed for.
\<close>

section \<open>Literals\<close>

text \<open>A sign, the digits before the point, those after it, and the exponent with its sign.\<close>

datatype number = Number bool string "string option" "(bool \<times> string) option"

fun number_neg :: "number \<Rightarrow> bool" where
  "number_neg (Number ng w f e) = ng"

definition exp_of :: "(bool \<times> string) option \<Rightarrow> int" where
  "exp_of e = (case e of None \<Rightarrow> 0 | Some (ng, d) \<Rightarrow> if ng then - int (read_digits d) else int (read_digits d))"

fun number_mag :: "number \<Rightarrow> rat" where
  "number_mag (Number ng w f e) =
     (let fr = (case f of None \<Rightarrow> [] | Some d \<Rightarrow> d)
      in of_nat (read_digits (w @ fr)) * 10 powi (exp_of e - int (length fr)))"

definition with_sign :: "bool \<Rightarrow> rat \<Rightarrow> gofloat" where
  "with_sign ng r = (if \<not> ng then FFin r else if r = 0 then FNegZero else FFin (- r))"

definition ParseFloat :: "number \<Rightarrow> gofloat option" where
  "ParseFloat n = map_option (with_sign (number_neg n)) (round64 (number_mag n))"

fun ParseInt :: "number \<Rightarrow> int option" where
  "ParseInt (Number ng w f e) =
     (if f \<noteq> None \<or> e \<noteq> None then None
      else let i = (if ng then - int (read_digits w) else int (read_digits w))
           in if - (2 ^ 63) \<le> i \<and> i < 2 ^ 63 then Some i else None)"

fun number_text :: "number \<Rightarrow> string" where
  "number_text (Number ng w f e) =
     (if ng then ''-'' else []) @ w @ (case f of None \<Rightarrow> [] | Some d \<Rightarrow> CHR ''.'' # d) @
     (case e of None \<Rightarrow> [] | Some (n, d) \<Rightarrow> CHR ''e'' # (if n then CHR ''-'' else CHR ''+'') # d)"

definition digits :: "string \<Rightarrow> bool" where
  "digits d \<longleftrightarrow> d \<noteq> [] \<and> list_all is_digit d"

text \<open>The literals of the JSON grammar: no superfluous leading zeros, digits wherever some must stand.\<close>

fun literal_ok :: "number \<Rightarrow> bool" where
  "literal_ok (Number ng w f e) \<longleftrightarrow> digits w \<and> (w = ''0'' \<or> hd w \<noteq> CHR ''0'') \<and>
     (\<forall>d. f = Some d \<longrightarrow> digits d) \<and> (\<forall>n d. e = Some (n, d) \<longrightarrow> digits d)"

section \<open>The shortest decimal\<close>

text \<open>
  The decimals \<open>m * 10^k\<close> with \<open>n\<close> digits on both sides of a number, those that read back as it, and the
  nearer of these.
\<close>

definition candidates :: "nat \<Rightarrow> rat \<Rightarrow> (int \<times> int) list" where
  "candidates n q =
     (let k = log_floor 10 q - int n + 1; m = \<lfloor>q / 10 powi k\<rfloor>
      in filter (\<lambda>(m, k). round64 (of_int m * 10 powi k) = Some q)
           [(m, k), if m + 1 = 10 ^ n then (1, k + int n) else (m + 1, k)])"

definition distance :: "rat \<Rightarrow> int \<times> int \<Rightarrow> rat" where
  "distance q c = (case c of (m, k) \<Rightarrow> \<bar>of_int m * 10 powi k - q\<bar>)"

definition nearer :: "rat \<Rightarrow> (int \<times> int) list \<Rightarrow> int \<times> int" where
  "nearer q cs = (case cs of
     [a, b] \<Rightarrow> if distance q a < distance q b \<or> (distance q a = distance q b \<and> even (fst a)) then a else b
   | _ \<Rightarrow> hd cs)"

definition shortest :: "rat \<Rightarrow> int \<times> int" where
  "shortest q = (case find (\<lambda>cs. cs \<noteq> []) (map (\<lambda>n. candidates n q) [1..<18]) of
     Some cs \<Rightarrow> nearer q cs
   | None \<Rightarrow> (0, 0))"

lemma candidates_read:
  assumes "(m, k) \<in> set (candidates n q)" and "0 < q" and "0 < n"
  shows "round64 (of_int m * 10 powi k) = Some q" and "0 < m"
proof -
  let ?k = "log_floor 10 q - int n + 1"
  have "(10 :: rat) powi ?k \<le> 10 powi log_floor 10 q" using assms(3) by (intro power_int_increasing) simp_all
  also have "\<dots> \<le> q" using log_floor_bounds(1)[of 10 q] assms(2) by simp
  finally have "0 < \<lfloor>q / 10 powi ?k\<rfloor>" and "0 \<le> q / 10 powi ?k" using assms(2) by (simp_all add: le_divide_eq)
  with assms(1) show "round64 (of_int m * 10 powi k) = Some q" "0 < m"
    by (auto simp: candidates_def Let_def split: if_splits)
qed

lemma seventeen_digits:
  assumes "is_float64 q" and "0 < q"
  shows "candidates 17 q \<noteq> []"
proof -
  define k where "k = log_floor 10 q - 16"
  define m where "m = \<lfloor>q / 10 powi k\<rfloor>"
  let ?p = "(10 :: rat) powi k"
  have p: "0 < ?p" by simp
  have "?p * 10 ^ 16 \<le> q"
    using log_floor_bounds(1)[of 10 q] assms(2) by (simp add: k_def power_int_diff)
  then have fine: "?p \<le> q / 10 ^ 16" by (simp add: le_divide_eq)
  have m: "of_int m * ?p \<le> q" "q < (of_int m + 1) * ?p"
    using floor_correct[of "q / ?p"] p by (simp_all add: m_def le_divide_eq divide_less_eq)
  have "1 \<le> m" using fine p assms(2) unfolding m_def by (simp add: le_divide_eq)
  have "round64 c = Some q" if c: "\<bar>c - q\<bar> \<le> ?p / 2" "0 < c" for c
  proof -
    have "\<bar>c - round_raw c\<bar> \<le> \<bar>c - q\<bar>" using assms(1) c(2) by (intro round_raw_nearest) (simp_all add: is_float64_def)
    with c(1) have "\<bar>q - round_raw c\<bar> \<le> ?p" by linarith
    also have "\<dots> < q * 2 powi (-53)" using fine assms(2) by (simp add: power_int_minus field_simps)
    finally have "round_raw c = q"
      using is_float_apart[of q "round_raw c"] round_raw_float[OF c(2)] assms by (auto simp: is_float64_def)
    then show ?thesis using assms(1) by (simp add: round64_def is_float64_def)
  qed
  moreover have "\<bar>of_int m * ?p - q\<bar> \<le> ?p / 2 \<or> \<bar>of_int (m + 1) * ?p - q\<bar> \<le> ?p / 2"
    using m by (simp add: abs_if distrib_right) linarith
  moreover have "0 < of_int m * ?p" "0 < of_int (m + 1) * ?p" using \<open>1 \<le> m\<close> p by simp_all
  ultimately have "round64 (of_int m * ?p) = Some q \<or> round64 (of_int (m + 1) * ?p) = Some q" by blast
  moreover have "(10 :: rat) powi (k + 17) = 10 ^ 17 * ?p" by (simp add: power_int_add)
  ultimately show ?thesis
    unfolding candidates_def Let_def using m_def k_def by auto
qed

lemma nearer_mem: "cs \<noteq> [] \<Longrightarrow> nearer q cs \<in> set cs"
  by (auto simp: nearer_def split: list.split)

text \<open>What is printed reads back.\<close>

lemma shortest_reads_back:
  assumes "is_float64 q" and "0 < q" and "shortest q = (m, k)"
  shows "round64 (of_int m * 10 powi k) = Some q" and "0 < m"
proof -
  let ?css = "map (\<lambda>n. candidates n q) [1..<18]"
  have "candidates 17 q \<in> set ?css" by (simp only: set_map) (rule imageI, simp)
  with seventeen_digits[OF assms(1,2)] obtain cs where cs: "find (\<lambda>cs. cs \<noteq> []) ?css = Some cs"
    by (cases "find (\<lambda>cs. cs \<noteq> []) ?css") (auto simp: find_None_iff)
  then have "cs \<noteq> []" "cs \<in> set ?css" by (auto simp: find_Some_iff)
  then obtain n where n: "0 < n" "cs = candidates n q" by (auto simp: Suc_le_eq)
  have "(m, k) = nearer q cs" using assms(3) cs by (simp add: shortest_def)
  then have "(m, k) \<in> set (candidates n q)" using nearer_mem[OF \<open>cs \<noteq> []\<close>, of q] n(2) by simp
  from candidates_read[OF this assms(2) n(1)] show "round64 (of_int m * 10 powi k) = Some q" "0 < m" .
qed

section \<open>Printing\<close>

text \<open>The digits \<open>ds\<close> with the point after the first \<open>dp\<close> of them (format \<open>f\<close>), or after the first with an exponent (format \<open>e\<close>).\<close>

definition fixed_number :: "bool \<Rightarrow> string \<Rightarrow> int \<Rightarrow> number" where
  "fixed_number ng ds dp =
     (if dp \<le> 0 then Number ng ''0'' (Some (replicate (nat (- dp)) (CHR ''0'') @ ds)) None
      else if nat dp < length ds then Number ng (take (nat dp) ds) (Some (drop (nat dp) ds)) None
      else Number ng (ds @ replicate (nat dp - length ds) (CHR ''0'')) None None)"

definition exp_number :: "bool \<Rightarrow> string \<Rightarrow> int \<Rightarrow> number" where
  "exp_number ng ds dp =
     Number ng (take 1 ds) (if length ds > 1 then Some (drop 1 ds) else None)
       (Some (dp - 1 < 0, show_nat (nat \<bar>dp - 1\<bar>)))"

text \<open>\<open>encoding/json\<close> prints numbers of ordinary size without an exponent.\<close>

definition json_number :: "bool \<Rightarrow> rat \<Rightarrow> number" where
  "json_number ng q =
     (if q = 0 then Number ng ''0'' None None
      else let (m, k) = shortest q; ds = show_nat (nat m); dp = int (length ds) + k
           in if q < round_raw (10 powi (-6)) \<or> 10 ^ 21 \<le> q then exp_number ng ds dp else fixed_number ng ds dp)"

definition marshal_float :: "gofloat \<Rightarrow> string" where
  "marshal_float f = (case f of
     FFin q \<Rightarrow> number_text (json_number (q < 0) \<bar>q\<bar>)
   | FNegZero \<Rightarrow> number_text (json_number True 0)
   | _ \<Rightarrow> [])"

text \<open>The verb \<open>%v\<close> uses an exponent, of two digits at least, from the sixth place on.\<close>

definition two_digits :: "string \<Rightarrow> string" where
  "two_digits d = (if length d < 2 then CHR ''0'' # d else d)"

definition print_number :: "bool \<Rightarrow> rat \<Rightarrow> number" where
  "print_number ng q =
     (if q = 0 then Number ng ''0'' None None
      else let (m, k) = shortest q; ds = show_nat (nat m); dp = int (length ds) + k
           in if dp - 1 < -4 \<or> 6 \<le> dp - 1 then
                (case exp_number ng ds dp of Number n w f e \<Rightarrow> Number n w f (map_option (map_prod id two_digits) e))
              else fixed_number ng ds dp)"

definition print_float :: "gofloat \<Rightarrow> string" where
  "print_float f = (case f of
     FNaN \<Rightarrow> ''NaN'' | FPosInf \<Rightarrow> ''+Inf'' | FNegInf \<Rightarrow> ''-Inf''
   | FNegZero \<Rightarrow> number_text (print_number True 0)
   | FFin q \<Rightarrow> number_text (print_number (q < 0) \<bar>q\<bar>))"

text \<open>The values a \<open>float64\<close> can have; zero with a sign is apart.\<close>

definition float_ok :: "gofloat \<Rightarrow> bool" where
  "float_ok f = (case f of FFin q \<Rightarrow> is_float64 \<bar>q\<bar> | _ \<Rightarrow> True)"

lemma read_digits_append: "read_digits (a @ b) = read_digits a * 10 ^ length b + read_digits b"
proof (induction b rule: rev_induct)
  case (snoc c b)
  have "read_digits (a @ b @ [c]) = 10 * read_digits (a @ b) + digit_val c"
    using read_digits_snoc[of "a @ b" c] by simp
  then show ?case using snoc read_digits_snoc[of b c] by (simp add: algebra_simps)
qed (simp add: read_digits_def)

lemma read_digits_Nil [simp]: "read_digits [] = 0"
  by (simp add: read_digits_def)

lemma read_digits_zeros [simp]: "read_digits (replicate n (CHR ''0'')) = 0"
proof (induction n)
  case (Suc n)
  then show ?case using read_digits_append[of "''0''" "replicate n (CHR ''0'')"] by (simp add: read_digits_def digit_val_def)
qed simp

lemma digits_show_nat [simp]: "digits (show_nat n)"
  using show_nat_digits by (auto simp: digits_def list_all_iff)

lemma fixed_number_mag:
  "number_mag (fixed_number ng ds dp) = of_nat (read_digits ds) * 10 powi (dp - int (length ds))"
proof -
  have zero: "read_digits (''0'' @ w) = read_digits w" for w
    using read_digits_append[of "''0''" w] by (simp add: read_digits_def digit_val_def)
  consider "dp \<le> 0" | "0 < dp" "nat dp < length ds" | "0 < dp" "length ds \<le> nat dp" by linarith
  then show ?thesis
  proof cases
    case 1
    then show ?thesis
      using zero[of "replicate (nat (- dp)) (CHR ''0'') @ ds"]
      by (simp add: fixed_number_def exp_of_def read_digits_append)
  next
    case 2
    then show ?thesis by (simp add: fixed_number_def exp_of_def)
  next
    case 3
    then have "(10 :: rat) powi (dp - int (length ds)) = 10 ^ (nat dp - length ds)"
      by (simp add: power_int_def nat_diff_distrib')
    with 3 show ?thesis by (simp add: fixed_number_def exp_of_def read_digits_append)
  qed
qed

lemma exp_number_mag:
  assumes "ds \<noteq> []"
  shows "number_mag (exp_number ng ds dp) = of_nat (read_digits ds) * 10 powi (dp - int (length ds))"
proof -
  obtain c t where ds: "ds = c # t" using assms by (cases ds) auto
  show ?thesis by (cases t) (auto simp: exp_number_def exp_of_def ds algebra_simps)
qed

lemma literal_ok_printed:
  assumes "digits ds" and "hd ds \<noteq> CHR ''0''"
  shows "literal_ok (fixed_number ng ds dp)" and "literal_ok (exp_number ng ds dp)"
proof -
  have zero: "is_digit (CHR ''0'')" by (simp add: is_digit_def)
  have parts: "list_all is_digit (take n ds)" "list_all is_digit (drop n ds)" for n
    using assms(1) by (auto simp: digits_def list_all_iff dest: in_set_takeD in_set_dropD)
  show "literal_ok (fixed_number ng ds dp)"
    using assms zero parts by (auto simp: fixed_number_def digits_def list_all_iff hd_append hd_take)
  show "literal_ok (exp_number ng ds dp)"
    using assms parts by (auto simp: exp_number_def digits_def hd_take show_nat_digits list_all_iff)
qed

lemma show_nat_hd: "0 < n \<Longrightarrow> hd (show_nat n) \<noteq> CHR ''0''"
proof (induction n rule: show_nat.induct)
  case (1 n)
  show ?case
  proof (cases "n < 10")
    case True
    then have "digit n \<noteq> CHR ''0''" using 1(2) digit_val_digit[of n] by (auto simp: digit_val_def)
    with True show ?thesis by (subst show_nat.simps) simp
  next
    case False
    with 1(1) show ?thesis by (subst show_nat.simps) (simp add: hd_append)
  qed
qed

text \<open>The decimal chosen for a positive \<open>float64\<close>, in either format.\<close>

lemma shortest_printed:
  assumes "is_float64 q" and "0 < q" and "shortest q = (m, k)" and "ds = show_nat (nat m)" and "dp = int (length ds) + k"
    and "n \<in> {fixed_number ng ds dp, exp_number ng ds dp}"
  shows "literal_ok n \<and> round64 (number_mag n) = Some q"
proof -
  note m = shortest_reads_back[OF assms(1-3)]
  have "digits ds" "hd ds \<noteq> CHR ''0''" using m(2) show_nat_hd[of "nat m"] by (simp_all add: assms(4))
  moreover from this have "number_mag n = of_nat (read_digits ds) * 10 powi (dp - int (length ds))"
    using assms(6) fixed_number_mag exp_number_mag by (auto simp: digits_def)
  then have "number_mag n = of_int m * 10 powi k" using m(2) by (simp add: assms(4,5))
  ultimately show ?thesis using assms(6) m(1) literal_ok_printed by auto
qed

lemma json_number_read:
  assumes "is_float64 q"
  shows "literal_ok (json_number ng q)" and "ParseFloat (json_number ng q) = Some (with_sign ng q)"
proof -
  have neg: "number_neg (fixed_number ng ds dp) = ng" "number_neg (exp_number ng ds dp) = ng" for ds dp
    by (simp_all add: fixed_number_def exp_number_def)
  have "literal_ok (json_number ng q) \<and> ParseFloat (json_number ng q) = Some (with_sign ng q)"
  proof (cases "q = 0")
    case True
    have "round64 0 = Some 0" by (simp add: round64_def round_raw_def)
    with True show ?thesis
      by (simp add: json_number_def ParseFloat_def digits_def is_digit_def exp_of_def read_digits_def digit_val_def)
  next
    case False
    then have q: "0 < q" using is_float_nonneg[of q] assms by (simp add: is_float64_def)
    obtain m k where mk: "shortest q = (m, k)" by (rule prod.exhaust)
    then have "json_number ng q \<in> {fixed_number ng (show_nat (nat m)) (int (length (show_nat (nat m))) + k),
        exp_number ng (show_nat (nat m)) (int (length (show_nat (nat m))) + k)}"
      using False by (simp add: json_number_def Let_def)
    from shortest_printed[OF assms q mk refl refl this] this show ?thesis by (auto simp: ParseFloat_def neg)
  qed
  then show "literal_ok (json_number ng q)" "ParseFloat (json_number ng q) = Some (with_sign ng q)" by simp_all
qed

text \<open>Every finite \<open>float64\<close> is printed as a literal that reads back as it, sign of zero included.\<close>

lemma marshal_float_reads:
  assumes "float_ok f" and "f \<notin> {FNaN, FNegInf, FPosInf}"
  obtains n where "marshal_float f = number_text n" and "literal_ok n" and "ParseFloat n = Some f"
proof (cases f)
  case (FFin q)
  with assms(1) have "is_float64 \<bar>q\<bar>" by (simp add: float_ok_def)
  from json_number_read[OF this, of "q < 0"] show ?thesis
    by (intro that) (auto simp: FFin marshal_float_def with_sign_def)
next
  case FNegZero
  have "is_float64 0" by (simp add: is_float64_def is_float_0)
  from json_number_read[OF this, of True] show ?thesis
    by (intro that) (simp_all add: FNegZero marshal_float_def with_sign_def)
qed (use assms(2) in auto)

end
