(* ===== verification/Go_Json.thy ===== *)
theory Go_Json
  imports Go_Number
begin

text \<open>
  The reader of \<open>encoding/json\<close>: the grammar with its escapes, replacement of ill-formed UTF-8 and bound on
  nesting, as a function from bytes to a tree, and the value such a tree is as an \<open>any\<close>.
\<close>

section \<open>Strings\<close>

definition json_space :: "char \<Rightarrow> bool" where
  "json_space c \<longleftrightarrow> c \<in> {CHR '' '', CHR 0x09, CHR 0x0A, CHR 0x0D}"

definition skip_space :: "string \<Rightarrow> string" where
  "skip_space s = dropWhile json_space s"

definition hex_val :: "char \<Rightarrow> nat option" where
  "hex_val c = (let b = of_char c :: nat in
     if 48 \<le> b \<and> b \<le> 57 then Some (b - 48)
     else if 97 \<le> b \<and> b \<le> 102 then Some (b - 87)
     else if 65 \<le> b \<and> b \<le> 70 then Some (b - 55)
     else None)"

fun hex4 :: "string \<Rightarrow> (nat \<times> string) option" where
  "hex4 (a # b # c # d # s) = (case (hex_val a, hex_val b, hex_val c, hex_val d) of
     (Some w, Some x, Some y, Some z) \<Rightarrow> Some (4096 * w + 256 * x + 16 * y + z, s)
   | _ \<Rightarrow> None)"
| "hex4 _ = None"

definition utf8 :: "nat \<Rightarrow> string" where
  "utf8 r =
     (if r < 128 then bytes [r]
      else if r < 2048 then bytes [192 + r div 64, 128 + r mod 64]
      else if r < 65536 then bytes [224 + r div 4096, 128 + r div 64 mod 64, 128 + r mod 64]
      else bytes [240 + r div 262144, 128 + r div 4096 mod 64, 128 + r div 64 mod 64, 128 + r mod 64])"

text \<open>The replacement character, for bytes that are not UTF-8 and for halves of surrogate pairs.\<close>

definition replacement :: string where
  "replacement = bytes [239, 191, 189]"

definition low_surrogate :: "nat \<Rightarrow> string \<Rightarrow> (nat \<times> string) option" where
  "low_surrogate r s =
     (if 55296 \<le> r \<and> r < 56320 then
        (case s of
           c # d # t \<Rightarrow>
             if c = CHR 0x5C \<and> d = CHR ''u'' then
               (case hex4 t of
                  Some (r2, u) \<Rightarrow> if 56320 \<le> r2 \<and> r2 < 57344 then Some (65536 + (r - 55296) * 1024 + (r2 - 56320), u) else None
                | None \<Rightarrow> None)
             else None
         | _ \<Rightarrow> None)
      else None)"

definition simple_escape :: "char \<Rightarrow> char option" where
  "simple_escape e =
     (if e \<in> {CHR 0x22, CHR 0x5C, CHR ''/''} then Some e
      else if e = CHR ''b'' then Some (CHR 0x08)
      else if e = CHR ''f'' then Some (CHR 0x0C)
      else if e = CHR ''n'' then Some (CHR 0x0A)
      else if e = CHR ''r'' then Some (CHR 0x0D)
      else if e = CHR ''t'' then Some (CHR 0x09)
      else None)"

abbreviation prepend :: "string \<Rightarrow> (string \<times> string) option \<Rightarrow> (string \<times> string) option" where
  "prepend a r \<equiv> map_option (apfst (\<lambda>x. a @ x)) r"

lemma hex4_length: "hex4 s = Some (r, t) \<Longrightarrow> length s = length t + 4"
  by (induction s rule: hex4.induct) (auto split: option.splits)

lemma low_surrogate_length: "low_surrogate r s = Some (r2, t) \<Longrightarrow> length t < length s"
  by (auto simp: low_surrogate_def split: if_splits list.splits option.splits dest: hex4_length)

text \<open>A string after its opening quote: what it stands for, and what follows the closing quote.\<close>

function read_chars :: "string \<Rightarrow> (string \<times> string) option" where
  "read_chars s = (case s of [] \<Rightarrow> None | c # t \<Rightarrow>
     (if c = CHR 0x22 then Some ([], t)
      else if c = CHR 0x5C then
        (case t of [] \<Rightarrow> None | e # u \<Rightarrow>
           (if e = CHR ''u'' then
              (case hex4 u of
                 None \<Rightarrow> None
               | Some (r, w) \<Rightarrow>
                   (case low_surrogate r w of
                      Some (r2, w2) \<Rightarrow> prepend (utf8 r2) (read_chars w2)
                    | None \<Rightarrow> prepend (if 55296 \<le> r \<and> r < 57344 then replacement else utf8 r) (read_chars w)))
            else (case simple_escape e of None \<Rightarrow> None | Some d \<Rightarrow> prepend [d] (read_chars u))))
      else if (of_char c :: nat) < 32 then None
      else if (of_char c :: nat) < 128 then prepend [c] (read_chars t)
      else if utf8_len s = 0 then prepend replacement (read_chars t)
      else prepend (take (utf8_len s) s) (read_chars (drop (utf8_len s) s))))"
  by pat_completeness auto
termination
  by (relation "measure length") (auto dest!: hex4_length low_surrogate_length)

declare read_chars.simps [simp del]

section \<open>Numbers\<close>

definition read_digits1 :: "string \<Rightarrow> (string \<times> string) option" where
  "read_digits1 s = (if takeWhile is_digit s = [] then None else Some (takeWhile is_digit s, dropWhile is_digit s))"

definition read_whole :: "string \<Rightarrow> (string \<times> string) option" where
  "read_whole s = (case s of
     c # t \<Rightarrow> if c = CHR ''0'' then Some (''0'', t) else read_digits1 s
   | [] \<Rightarrow> None)"

definition read_frac :: "string \<Rightarrow> (string option \<times> string) option" where
  "read_frac s = (case s of
     c # t \<Rightarrow> if c = CHR ''.'' then map_option (apfst Some) (read_digits1 t) else Some (None, s)
   | [] \<Rightarrow> Some (None, s))"

definition read_exp :: "string \<Rightarrow> ((bool \<times> string) option \<times> string) option" where
  "read_exp s = (case s of
     c # t \<Rightarrow>
       if c \<in> {CHR ''e'', CHR ''E''} then
         (case t of
            d # u \<Rightarrow>
              if d \<in> {CHR ''+'', CHR ''-''} then map_option (apfst (\<lambda>x. Some (d = CHR ''-'', x))) (read_digits1 u)
              else map_option (apfst (\<lambda>x. Some (False, x))) (read_digits1 t)
          | [] \<Rightarrow> None)
       else Some (None, s)
   | [] \<Rightarrow> Some (None, s))"

definition read_number :: "string \<Rightarrow> (number \<times> string) option" where
  "read_number s =
     (let (ng, s1) = (case s of c # t \<Rightarrow> if c = CHR ''-'' then (True, t) else (False, s) | [] \<Rightarrow> (False, s)) in
      case read_whole s1 of None \<Rightarrow> None
      | Some (w, s2) \<Rightarrow> (case read_frac s2 of None \<Rightarrow> None
          | Some (f, s3) \<Rightarrow> (case read_exp s3 of None \<Rightarrow> None
              | Some (e, s4) \<Rightarrow> Some (Number ng w f e, s4))))"

section \<open>Values\<close>

text \<open>
  A JSON text as a tree. The members of an object keep their order and repetitions, and the bytes of their
  values for fields of type \<open>json.RawMessage\<close>.
\<close>

datatype json =
    JNull
  | JBool bool
  | JNum number
  | JStr string
  | JArr "json list"
  | JObj "(string \<times> string \<times> json) list"

definition read_scalar :: "string \<Rightarrow> (json \<times> string) option" where
  "read_scalar s = (case s of [] \<Rightarrow> None | c # t \<Rightarrow>
     (if c = CHR 0x22 then map_option (apfst JStr) (read_chars t)
      else if HasPrefix s ''null'' then Some (JNull, TrimPrefix s ''null'')
      else if HasPrefix s ''true'' then Some (JBool True, TrimPrefix s ''true'')
      else if HasPrefix s ''false'' then Some (JBool False, TrimPrefix s ''false'')
      else map_option (apfst JNum) (read_number s)))"

text \<open>Items separated by commas up to the closing bracket. An item is not empty, so the text gets shorter.\<close>

function items :: "(string \<Rightarrow> ('a \<times> string) option) \<Rightarrow> char \<Rightarrow> string \<Rightarrow> ('a list \<times> string) option" where
  "items item close s = (case item (skip_space s) of None \<Rightarrow> None | Some (x, r) \<Rightarrow>
     (case skip_space r of [] \<Rightarrow> None | c # t \<Rightarrow>
        (if c = close then Some ([x], t)
         else if c = CHR '','' \<and> length t < length s then map_option (apfst (Cons x)) (items item close t)
         else None)))"
  by pat_completeness auto
termination
  by (relation "measure (\<lambda>(item, close, s). length s)") auto

declare items.simps [simp del]

definition bracketed :: "(string \<Rightarrow> ('a \<times> string) option) \<Rightarrow> char \<Rightarrow> string \<Rightarrow> ('a list \<times> string) option" where
  "bracketed item close s = (case skip_space s of
     [] \<Rightarrow> None
   | c # t \<Rightarrow> if c = close then Some ([], t) else items item close s)"

definition read_member :: "(string \<Rightarrow> (json \<times> string) option) \<Rightarrow> string \<Rightarrow> ((string \<times> string \<times> json) \<times> string) option" where
  "read_member val s = (case s of [] \<Rightarrow> None | c # t \<Rightarrow>
     (if c \<noteq> CHR 0x22 then None
      else case read_chars t of None \<Rightarrow> None
      | Some (k, r) \<Rightarrow> (case skip_space r of [] \<Rightarrow> None | d # u \<Rightarrow>
          (if d \<noteq> CHR '':'' then None
           else let v = skip_space u in
             case val v of None \<Rightarrow> None
             | Some (x, w) \<Rightarrow> Some ((k, take (length v - length w) v, x), w)))))"

text \<open>A value with at most \<open>n\<close> levels of brackets.\<close>

fun read_value :: "nat \<Rightarrow> string \<Rightarrow> (json \<times> string) option" where
  "read_value 0 s = read_scalar s"
| "read_value (Suc n) s = (case s of [] \<Rightarrow> None | c # t \<Rightarrow>
     (if c = CHR ''['' then map_option (apfst JArr) (bracketed (read_value n) (CHR '']'') t)
      else if c = CHR ''{'' then map_option (apfst JObj) (bracketed (read_member (read_value n)) (CHR ''}'') t)
      else read_scalar s))"

text \<open>The bound is the \<open>maxNestingDepth\<close> of the library.\<close>

definition parse_json :: "string \<Rightarrow> json option" where
  "parse_json s = (case read_value 10000 (skip_space s) of
     None \<Rightarrow> None
   | Some (j, r) \<Rightarrow> if skip_space r = [] then Some j else None)"

text \<open>
  The \<open>any\<close> a tree is decoded into; a number out of range is left \<open>nil\<close> and makes the whole call fail. Of
  repeated keys the last one counts.
\<close>

fun any_of :: "json \<Rightarrow> goval" where
  "any_of JNull = GNil"
| "any_of (JBool b) = GBool b"
| "any_of (JNum n) = (case ParseFloat n of None \<Rightarrow> GNil | Some f \<Rightarrow> GFloat f)"
| "any_of (JStr s) = GStr s"
| "any_of (JArr js) = GList (map any_of js)"
| "any_of (JObj ms) = GMap (fold (\<lambda>(k, v). gm_put k v) (map (\<lambda>(k, raw, j). (k, any_of j)) ms) [])"

fun any_ok :: "json \<Rightarrow> bool" where
  "any_ok (JNum n) \<longleftrightarrow> ParseFloat n \<noteq> None"
| "any_ok (JArr js) \<longleftrightarrow> (\<forall>j \<in> set js. any_ok j)"
| "any_ok (JObj ms) \<longleftrightarrow> (\<forall>m \<in> set ms. any_ok (snd (snd m)))"
| "any_ok _ \<longleftrightarrow> True"

definition unmarshal_any :: "string \<Rightarrow> goval option" where
  "unmarshal_any s = (case parse_json s of
     None \<Rightarrow> None
   | Some j \<Rightarrow> if any_ok j then Some (any_of j) else None)"

end
