(* ===== verification/Json_Roundtrip.thy ===== *)
theory Json_Roundtrip
  imports Go_Json
begin

text \<open>
  \<open>json.Unmarshal\<close> after \<open>json.Marshal\<close>: strings come back with ill-formed bytes replaced, integers as the
  \<open>float64\<close> next to them, floats as they were, maps with their keys in order.
\<close>

section \<open>Strings\<close>

function fix_utf8 :: "string \<Rightarrow> string" where
  "fix_utf8 s = (case s of [] \<Rightarrow> [] | c # t \<Rightarrow>
     (if utf8_len s = 0 then replacement @ fix_utf8 t
      else take (utf8_len s) s @ fix_utf8 (drop (utf8_len s) s)))"
  by pat_completeness auto
termination
  by (relation "measure length") auto

declare fix_utf8.simps [simp del]

lemma fix_utf8_Nil [simp]: "fix_utf8 [] = []"
  by (subst fix_utf8.simps) simp

lemma cont_append: "cont lo hi s i \<Longrightarrow> i < n \<Longrightarrow> cont lo hi (take n s @ r) i"
  by (auto simp: cont_def nth_append min_def)

lemma utf8_len_le: "utf8_len s \<le> 4"
  by (auto simp: utf8_len_def Let_def split: list.split)

lemma utf8_len_cong:
  assumes "utf8_len (c # t) = n" and "0 < n" and "\<And>lo hi i. 0 < i \<Longrightarrow> i < n \<Longrightarrow> cont lo hi (c # t) i \<Longrightarrow> cont lo hi (c # t') i"
  shows "utf8_len (c # t') = n"
proof -
  let ?b = "of_char c :: nat"
  note c = assms(3)[where i = 1] assms(3)[where i = 2] assms(3)[where i = 3]
  consider "?b < 128" | "194 \<le> ?b \<and> ?b \<le> 223" | "224 \<le> ?b \<and> ?b \<le> 239" | "240 \<le> ?b \<and> ?b \<le> 244"
    using assms(1,2) by (auto simp: utf8_len_def Let_def split: if_splits)
  then show ?thesis
  proof cases
    case 1
    with assms(1) show ?thesis by (simp add: utf8_len_def)
  next
    case 2
    with assms(1,2) have "n = 2" "cont 128 191 (c # t) 1" by (simp_all add: utf8_len_def split: if_splits)
    with 2 c(1) show ?thesis by (simp add: utf8_len_def)
  next
    case 3
    define lo hi :: nat where "lo = (if ?b = 224 then 160 else 128)" and "hi = (if ?b = 237 then 159 else 191)"
    have len: "utf8_len (c # u) = (if cont lo hi (c # u) 1 \<and> cont 128 191 (c # u) 2 then 3 else 0)" for u
      using 3 unfolding utf8_len_def Let_def list.case lo_def hi_def
      by (subst if_not_P, linarith, subst if_not_P, linarith, subst if_P, linarith) (rule refl)
    then have "n = 3" "cont lo hi (c # t) 1" "cont 128 191 (c # t) 2" using assms(1,2) by (simp_all split: if_splits)
    with c(1,2) len show ?thesis by simp
  next
    case 4
    define lo hi :: nat where "lo = (if ?b = 240 then 144 else 128)" and "hi = (if ?b = 244 then 143 else 191)"
    have len: "utf8_len (c # u) = (if cont lo hi (c # u) 1 \<and> cont 128 191 (c # u) 2 \<and> cont 128 191 (c # u) 3 then 4 else 0)" for u
      using 4 unfolding utf8_len_def Let_def list.case lo_def hi_def
      by (subst if_not_P, linarith, subst if_not_P, linarith, subst if_not_P, linarith, subst if_P, linarith) (rule refl)
    then have "n = 4" "cont lo hi (c # t) 1" "cont 128 191 (c # t) 2" "cont 128 191 (c # t) 3"
      using assms(1,2) by (simp_all split: if_splits)
    with c len show ?thesis by simp
  qed
qed

lemma utf8_len_append: "0 < utf8_len s \<Longrightarrow> utf8_len (take (utf8_len s) s @ r) = utf8_len s"
proof (cases s)
  case (Cons c t)
  assume len: "0 < utf8_len s"
  have hd: "take (utf8_len s) s @ r = c # (take (utf8_len s - 1) t @ r)" using len Cons by (cases "utf8_len s") simp_all
  have "utf8_len (c # take (utf8_len s - 1) t @ r) = utf8_len s"
  proof (rule utf8_len_cong)
    show "utf8_len (c # t) = utf8_len s" "0 < utf8_len s" using Cons len by simp_all
    show "cont lo hi (c # take (utf8_len s - 1) t @ r) i" if "i < utf8_len s" "cont lo hi (c # t) i" for lo hi i
      using cont_append[of lo hi s i "utf8_len s" r] that hd Cons by simp
  qed
  then show ?thesis using hd by simp
qed (simp add: utf8_len_def)

lemma utf8_ascii: "(of_char c :: nat) < 128 \<Longrightarrow> utf8 (of_char c) = [c]"
  by (simp add: utf8_def bytes_def)

lemma hex_val_hex: "d < 16 \<Longrightarrow> hex_val (hex d) = Some d"
  by (auto simp: hex_val_def hex_def digit_def Let_def of_char_of)

lemma hex_eight_nine: "hex 8 = CHR ''8''" "hex 9 = CHR ''9''"
  by code_simp+

lemma read_quote: "read_chars (CHR 0x22 # r) = Some ([], r)"
  by (subst read_chars.simps) simp

lemma read_escape:
  "simple_escape e = Some d \<Longrightarrow> e \<noteq> CHR ''u'' \<Longrightarrow> read_chars (CHR 0x5C # e # u) = prepend [d] (read_chars u)"
  by (subst read_chars.simps) simp

lemma read_unicode:
  "hex4 u = Some (x, w) \<Longrightarrow> x < 55296 \<or> 57344 \<le> x \<Longrightarrow>
     read_chars (CHR 0x5C # CHR ''u'' # u) = prepend (utf8 x) (read_chars w)"
  by (subst read_chars.simps) (auto simp: low_surrogate_def)

lemma read_plain:
  "c \<notin> {CHR 0x22, CHR 0x5C} \<Longrightarrow> 32 \<le> (of_char c :: nat) \<Longrightarrow> (of_char c :: nat) < 128 \<Longrightarrow>
     read_chars (c # u) = prepend [c] (read_chars u)"
  by (subst read_chars.simps) simp

lemma char_eqI: "(of_char c :: nat) = of_char d \<Longrightarrow> c = d"
  by (simp only: of_char_eq_iff)

lemma read_json_ascii:
  assumes "(of_char c :: nat) < 128"
  shows "read_chars (json_ascii c @ u) = prepend [c] (read_chars u)"
proof -
  let ?b = "of_char c :: nat"
  have one: "c = d \<or> ?b \<noteq> of_char d" for d using char_eqI by blast
  consider (quote) "?b = 34" | (slash) "?b = 92" | (short) "?b \<in> {8, 9, 10, 12, 13}"
    | (hex) "?b < 32 \<or> ?b = 60 \<or> ?b = 62 \<or> ?b = 38" "?b \<notin> {34, 92, 8, 9, 10, 12, 13}"
    | (plain) "32 \<le> ?b" "?b \<notin> {34, 92, 60, 62, 38}"
    using linorder_not_less[of ?b 32] by blast
  then show ?thesis
  proof cases
    case quote
    then have "c = CHR 0x22" using one[of "CHR 0x22"] by simp
    then show ?thesis using read_escape[of "CHR 0x22" "CHR 0x22" u] by (simp add: json_ascii_def simple_escape_def)
  next
    case slash
    then have "c = CHR 0x5C" using one[of "CHR 0x5C"] by simp
    then show ?thesis using read_escape[of "CHR 0x5C" "CHR 0x5C" u] by (simp add: json_ascii_def simple_escape_def Let_def)
  next
    case short
    then have "c \<in> {CHR 0x08, CHR 0x09, CHR 0x0A, CHR 0x0C, CHR 0x0D}"
      using one[of "CHR 0x08"] one[of "CHR 0x09"] one[of "CHR 0x0A"] one[of "CHR 0x0C"] one[of "CHR 0x0D"] by auto
    then show ?thesis
      using read_escape[of "CHR ''b''" "CHR 0x08" u] read_escape[of "CHR ''t''" "CHR 0x09" u] read_escape[of "CHR ''n''" "CHR 0x0A" u]
        read_escape[of "CHR ''f''" "CHR 0x0C" u] read_escape[of "CHR ''r''" "CHR 0x0D" u]
      by (auto simp: json_ascii_def simple_escape_def)
  next
    case hex
    then have "json_ascii c = [CHR 0x5C, CHR ''u'', CHR ''0'', CHR ''0'', hex (?b div 16), hex (?b mod 16)]"
      by (simp add: json_ascii_def Let_def)
    moreover have "hex4 (CHR ''0'' # CHR ''0'' # hex (?b div 16) # hex (?b mod 16) # u) = Some (?b, u)"
      using assms hex_val_hex[of "?b div 16"] hex_val_hex[of "?b mod 16"] by (simp add: hex_val_def[of "CHR ''0''"])
    ultimately show ?thesis using read_unicode[of _ ?b u] assms by (simp add: utf8_ascii)
  next
    case plain
    have "c \<notin> {CHR 0x22, CHR 0x5C}" using plain(2) by auto
    with plain assms read_plain[of c u] show ?thesis by (simp add: json_ascii_def)
  qed
qed

lemma read_rune:
  assumes "128 \<le> (of_char c :: nat)" and "s = c # t" and "0 < utf8_len s"
  shows "read_chars (take (utf8_len s) s @ u) = prepend (take (utf8_len s) s) (read_chars u)"
proof -
  let ?n = "utf8_len s"
  have len: "length (take ?n s) = ?n"
  proof -
    have "cont lo hi s i \<Longrightarrow> i < length s" for lo hi i by (simp add: cont_def)
    then have "?n \<le> length s" using assms(2) by (auto simp: utf8_len_def Let_def Suc_le_eq eval_nat_numeral split: if_splits)
    then show ?thesis by simp
  qed
  obtain v where v: "take ?n s @ u = c # v" using assms(2,3) by (cases ?n) simp_all
  have "utf8_len (take ?n s @ u) = ?n" using utf8_len_append[OF assms(3)] .
  then have n: "utf8_len (c # v) = ?n" by (simp only: v)
  have "c \<noteq> CHR 0x22" "c \<noteq> CHR 0x5C" using assms(1) by auto
  then have "read_chars (c # v) = prepend (take ?n (c # v)) (read_chars (drop ?n (c # v)))"
    using assms(1,3) n by (subst read_chars.simps) simp
  moreover have "take ?n (c # v) = take ?n s" "drop ?n (c # v) = u" using len unfolding v[symmetric] by simp_all
  ultimately show ?thesis unfolding v by simp
qed

lemma fix_utf8_ascii: "(of_char c :: nat) < 128 \<Longrightarrow> fix_utf8 (c # t) = c # fix_utf8 t"
  by (subst fix_utf8.simps) (simp add: utf8_len_def)

lemma fix_utf8_bad: "utf8_len (c # t) = 0 \<Longrightarrow> fix_utf8 (c # t) = replacement @ fix_utf8 t"
  by (subst fix_utf8.simps) simp

lemma fix_utf8_rune: "0 < utf8_len (c # t) \<Longrightarrow>
    fix_utf8 (c # t) = take (utf8_len (c # t)) (c # t) @ fix_utf8 (drop (utf8_len (c # t)) (c # t))"
  by (subst fix_utf8.simps) simp

lemma read_fffd: "read_chars (CHR 0x5C # ''ufffd'' @ u) = prepend replacement (read_chars u)"
  using read_unicode[of "''fffd'' @ u" 65533 u] by (simp add: hex_val_def replacement_def utf8_def)

lemma read_line_separator:
  assumes "d \<in> {168, 169}" and "take 3 s = bytes [226, 128, d]"
  shows "utf8_len s = 3" and "read_chars (CHR 0x5C # ''u202'' @ hex (d - 160) # u) = prepend (bytes [226, 128, d]) (read_chars u)"
proof -
  have "s = bytes [226, 128, d] @ drop 3 s" using append_take_drop_id[of 3 s] assms(2) by simp
  moreover have "utf8_len (bytes [226, 128, d] @ v) = 3" for v using assms(1) by (auto simp: utf8_len_def bytes_def cont_def)
  ultimately show "utf8_len s = 3" by metis
  show "read_chars (CHR 0x5C # ''u202'' @ hex (d - 160) # u) = prepend (bytes [226, 128, d]) (read_chars u)"
    using read_unicode[of "''202'' @ hex (d - 160) # u" "8064 + d" u] assms(1)
    by (auto simp: hex_val_def hex_def digit_def utf8_def bytes_def)
qed

text \<open>A string is read back with the replacement character for every byte that is not part of UTF-8.\<close>

lemma read_json_chars: "read_chars (json_chars s @ CHR 0x22 # r) = Some (fix_utf8 s, r)"
proof (induction s rule: json_chars.induct)
  case (1 s)
  show ?case
  proof (cases s)
    case Nil
    then show ?thesis by (simp add: json_chars.simps[of "[]"] read_quote)
  next
    case (Cons c t)
    note IH = 1[OF Cons]
    consider (ascii) "(of_char c :: nat) < 128" | (bad) "\<not> (of_char c :: nat) < 128" "utf8_len s = 0"
      | (sep) d where "\<not> (of_char c :: nat) < 128" "utf8_len s \<noteq> 0" "take 3 s = bytes [226, 128, d]" "d \<in> {168, 169}"
      | (rune) "\<not> (of_char c :: nat) < 128" "utf8_len s \<noteq> 0" "take 3 s \<noteq> bytes [226, 128, 168]" "take 3 s \<noteq> bytes [226, 128, 169]" by blast
    then show ?thesis
    proof cases
      case ascii
      have "json_chars s = json_ascii c @ json_chars t" unfolding Cons using ascii by (subst json_chars.simps) simp
      then show ?thesis using IH(1)[OF ascii] read_json_ascii[OF ascii] Cons by (simp add: fix_utf8_ascii[OF ascii])
    next
      case bad
      have "json_chars s = CHR 0x5C # ''ufffd'' @ json_chars t" using bad unfolding Cons by (subst json_chars.simps) simp
      then show ?thesis using IH(2)[OF bad] read_fffd[of "json_chars t @ CHR 0x22 # r"] Cons bad(2) by (simp add: fix_utf8_bad)
    next
      case sep
      have ne: "bytes [226, 128, 168] \<noteq> bytes [226, 128, 169]" by (simp add: bytes_def)
      have chars: "json_chars s = CHR 0x5C # ''u202'' @ hex (d - 160) # json_chars (drop 3 s)"
        using sep ne unfolding Cons by (subst json_chars.simps) (auto simp: hex_eight_nine)
      have "read_chars (json_chars (drop 3 s) @ CHR 0x22 # r) = Some (fix_utf8 (drop 3 s), r)"
        using IH(3,4) sep ne by auto
      moreover have "fix_utf8 s = bytes [226, 128, d] @ fix_utf8 (drop 3 s)"
        using fix_utf8_rune[of c t] Cons sep read_line_separator(1)[OF sep(4,3)] by simp
      ultimately show ?thesis using read_line_separator(2)[OF sep(4,3), of "json_chars (drop 3 s) @ CHR 0x22 # r"] chars by simp
    next
      case rune
      let ?n = "utf8_len s"
      have chars: "json_chars s = take ?n s @ json_chars (drop ?n s)" using rune unfolding Cons by (subst json_chars.simps) simp
      have "fix_utf8 s = take ?n s @ fix_utf8 (drop ?n s)" using fix_utf8_rune[of c t] rune(2) Cons by simp
      moreover have "read_chars (json_chars (drop ?n s) @ CHR 0x22 # r) = Some (fix_utf8 (drop ?n s), r)"
        using IH(5)[OF rune] .
      ultimately show ?thesis
        using read_rune[of c s t "json_chars (drop ?n s) @ CHR 0x22 # r"] rune(1,2) Cons chars by simp
    qed
  qed
qed

section \<open>Numbers\<close>

text \<open>Where a number ends: no character follows that could belong to it.\<close>

definition ends_number :: "string \<Rightarrow> bool" where
  "ends_number r \<longleftrightarrow> (\<forall>c t. r = c # t \<longrightarrow> \<not> is_digit c \<and> c \<notin> {CHR ''.'', CHR ''e'', CHR ''E''})"

lemma read_digits1_append:
  "digits d \<Longrightarrow> (\<forall>c t. r = c # t \<longrightarrow> \<not> is_digit c) \<Longrightarrow> read_digits1 (d @ r) = Some (d, r)"
proof -
  assume d: "digits d" and r: "\<forall>c t. r = c # t \<longrightarrow> \<not> is_digit c"
  have "takeWhile is_digit r = []" "dropWhile is_digit r = r" using r by (cases r; simp)+
  with d show ?thesis by (auto simp: read_digits1_def digits_def list_all_iff takeWhile_append dropWhile_append)
qed

lemma not_digit: "\<not> is_digit (CHR ''.'')" "\<not> is_digit (CHR ''e'')" "\<not> is_digit (CHR ''-'')" "\<not> is_digit (CHR ''+'')"
  by (simp_all add: is_digit_def)

lemma read_exp_text:
  assumes "ends_number r" and "\<forall>n d. e = Some (n, d) \<longrightarrow> digits d"
  shows "read_exp ((case e of None \<Rightarrow> [] | Some (n, d) \<Rightarrow> CHR ''e'' # (if n then CHR ''-'' else CHR ''+'') # d) @ r) = Some (e, r)"
proof (cases e)
  case None
  with assms(1) show ?thesis by (cases r) (auto simp: read_exp_def ends_number_def)
next
  case (Some nd)
  obtain n d where nd: "nd = (n, d)" by (rule prod.exhaust)
  then have "read_digits1 (d @ r) = Some (d, r)" using assms Some by (intro read_digits1_append) (auto simp: ends_number_def)
  then show ?thesis by (simp add: read_exp_def Some nd)
qed

lemma read_frac_text:
  assumes "\<forall>d. f = Some d \<longrightarrow> digits d" and "\<forall>c t. r = c # t \<longrightarrow> \<not> is_digit c \<and> c \<noteq> CHR ''.''"
  shows "read_frac ((case f of None \<Rightarrow> [] | Some d \<Rightarrow> CHR ''.'' # d) @ r) = Some (f, r)"
proof (cases f)
  case None
  with assms(2) show ?thesis by (cases r) (auto simp: read_frac_def)
next
  case (Some d)
  then have "read_digits1 (d @ r) = Some (d, r)" using assms by (intro read_digits1_append) auto
  then show ?thesis by (simp add: read_frac_def Some)
qed

lemma read_whole_text:
  assumes "digits w" and "w = ''0'' \<or> hd w \<noteq> CHR ''0''" and "\<forall>c t. r = c # t \<longrightarrow> \<not> is_digit c"
  shows "read_whole (w @ r) = Some (w, r)"
  using assms read_digits1_append[OF assms(1,3)] by (cases w) (auto simp: read_whole_def digits_def)

text \<open>A literal of the grammar is read up to its end.\<close>

lemma read_number_text:
  assumes "literal_ok n" and "ends_number r"
  shows "read_number (number_text n @ r) = Some (n, r)"
proof -
  obtain ng w f e where n: "n = Number ng w f e" by (rule number.exhaust)
  let ?f = "case f of None \<Rightarrow> [] | Some d \<Rightarrow> CHR ''.'' # d"
  let ?e = "case e of None \<Rightarrow> [] | Some (n, d) \<Rightarrow> CHR ''e'' # (if n then CHR ''-'' else CHR ''+'') # d"
  have ok: "digits w" "w = ''0'' \<or> hd w \<noteq> CHR ''0''" "\<forall>d. f = Some d \<longrightarrow> digits d" "\<forall>n d. e = Some (n, d) \<longrightarrow> digits d"
    using assms(1) n by simp_all
  have e: "\<forall>c t. ?e @ r = c # t \<longrightarrow> \<not> is_digit c \<and> c \<noteq> CHR ''.''"
    using assms(2) not_digit by (auto simp: ends_number_def split: option.splits)
  then have f: "\<forall>c t. ?f @ ?e @ r = c # t \<longrightarrow> \<not> is_digit c" using not_digit by (auto split: option.splits)
  have sign: "w @ x \<noteq> []" "hd (w @ x) \<noteq> CHR ''-''" for x
    using ok(1) not_digit by (cases w; auto simp: digits_def)+
  have "read_number (number_text n @ r) =
     (case read_whole (w @ ?f @ ?e @ r) of None \<Rightarrow> None
      | Some (w, s2) \<Rightarrow> (case read_frac s2 of None \<Rightarrow> None
          | Some (f, s3) \<Rightarrow> (case read_exp s3 of None \<Rightarrow> None
              | Some (e, s4) \<Rightarrow> Some (Number ng w f e, s4))))"
    using sign[of "?f @ ?e @ r"] by (cases ng; cases "w @ ?f @ ?e @ r") (simp_all add: read_number_def n split: option.split prod.split)
  then show ?thesis
    using read_whole_text[OF ok(1,2) f] read_frac_text[OF ok(3) e] read_exp_text[OF assms(2) ok(4)] by (simp add: n)
qed

definition int_number :: "int \<Rightarrow> number" where
  "int_number i = Number (i < 0) (show_nat (nat \<bar>i\<bar>)) None None"

lemma show_int_text: "show_int i = number_text (int_number i)"
  by (simp add: show_int_def int_number_def)

lemma int_number_ok: "literal_ok (int_number i)"
proof -
  have "show_nat (nat \<bar>i\<bar>) = ''0'' \<or> hd (show_nat (nat \<bar>i\<bar>)) \<noteq> CHR ''0''"
    using show_nat_hd[of "nat \<bar>i\<bar>"] by (cases "i = 0") (simp_all add: show_nat.simps[of 0] digit_def)
  then show ?thesis by (simp add: int_number_def)
qed

lemma int_number_mag: "number_mag (int_number i) = of_int \<bar>i\<bar>"
  by (simp add: int_number_def exp_of_def)

text \<open>An \<open>int64\<close> is read as the nearest \<open>float64\<close>, up to \<open>2^53\<close> as itself.\<close>

lemma int_number_reads:
  assumes "\<bar>i\<bar> \<le> 2 ^ 63"
  shows "ParseFloat (int_number i) \<noteq> None"
proof -
  have "round_raw (of_int \<bar>i\<bar>) < 2 powi 1024"
  proof (cases "i = 0")
    case False
    have top: "is_float (of_int (2 ^ 63))"
      using is_float_scaled[of 1 63] by (simp add: power_int_numeral)
    have "\<bar>of_int \<bar>i\<bar> - round_raw (of_int \<bar>i\<bar>)\<bar> \<le> \<bar>of_int \<bar>i\<bar> - of_int (2 ^ 63)\<bar>"
      using False top by (intro round_raw_nearest) simp_all
    moreover have "(of_int \<bar>i\<bar> :: rat) \<le> of_int (2 ^ 63)" using assms by (simp only: of_int_le_iff)
    ultimately have "round_raw (of_int \<bar>i\<bar>) \<le> of_int (2 ^ 63)" by linarith
    also have "\<dots> = 2 powi 63" by simp
    also have "\<dots> < 2 powi 1024" by (rule power_int_strict_increasing) simp_all
    finally show ?thesis .
  qed (simp add: round_raw_def)
  then show ?thesis by (simp add: ParseFloat_def int_number_mag round64_def)
qed

lemma int_number_exact:
  assumes "\<bar>i\<bar> \<le> 2 ^ 53"
  shows "ParseFloat (int_number i) = Some (FFin (of_int i))"
proof -
  have "is_float (of_int \<bar>i\<bar>)" using assms by (intro is_float_int) simp_all
  moreover have "(of_int \<bar>i\<bar> :: rat) < 2 powi 1024"
  proof -
    have "(of_int \<bar>i\<bar> :: rat) \<le> of_int (2 ^ 53)" using assms by (simp only: of_int_le_iff)
    also have "\<dots> = 2 powi 53" by simp
    also have "\<dots> < 2 powi 1024" by (rule power_int_strict_increasing) simp_all
    finally show ?thesis .
  qed
  ultimately have "round64 (of_int \<bar>i\<bar>) = Some (of_int \<bar>i\<bar>)" by (intro round64_float) (simp add: is_float64_def)
  then show ?thesis
    unfolding ParseFloat_def int_number_mag by (auto simp: int_number_def with_sign_def)
qed

section \<open>Values\<close>

text \<open>What is left of a value: \<open>json.Marshal\<close> followed by \<open>json.Unmarshal\<close> into an \<open>any\<close>.\<close>

fun json_norm :: "goval \<Rightarrow> goval" where
  "json_norm GNil = GNil"
| "json_norm (GBool b) = GBool b"
| "json_norm (GInt w) = (case ParseFloat (int_number (sint w)) of None \<Rightarrow> GNil | Some f \<Rightarrow> GFloat f)"
| "json_norm (GFloat f) = GFloat f"
| "json_norm (GStr s) = GStr (fix_utf8 s)"
| "json_norm (GList vs) = GList (map json_norm vs)"
| "json_norm (GMap m) =
     GMap (fold (\<lambda>(k, v). gm_put (fix_utf8 k) v) (sort_key fst (map (\<lambda>(k, v). (k, json_norm v)) m)) [])"

fun val_depth :: "goval \<Rightarrow> nat" where
  "val_depth (GList vs) = Suc (foldr max (map val_depth vs) 0)"
| "val_depth (GMap m) = Suc (foldr max (map (\<lambda>(k, v). val_depth v) m) 0)"
| "val_depth _ = 0"

text \<open>The tree of the text that is written for a value.\<close>

definition float_number :: "gofloat \<Rightarrow> number" where
  "float_number f = json_number (f = FNegZero \<or> (\<exists>q. f = FFin q \<and> q < 0)) (case f of FFin q \<Rightarrow> \<bar>q\<bar> | _ \<Rightarrow> 0)"

fun tree_of :: "stdlib \<Rightarrow> goval \<Rightarrow> json" where
  "tree_of L GNil = JNull"
| "tree_of L (GBool b) = JBool b"
| "tree_of L (GInt w) = JNum (int_number (sint w))"
| "tree_of L (GFloat f) = JNum (float_number f)"
| "tree_of L (GStr s) = JStr (fix_utf8 s)"
| "tree_of L (GList vs) = JArr (map (tree_of L) vs)"
| "tree_of L (GMap m) =
     JObj (map (\<lambda>(k, t, j). (fix_utf8 k, t, j))
       (sort_key fst (map (\<lambda>(k, v). (k, the (json_marshal L v), tree_of L v)) m)))"

text \<open>The floats of a value are floats of the machine.\<close>

fun floats_ok :: "goval \<Rightarrow> bool" where
  "floats_ok (GFloat f) \<longleftrightarrow> float_ok f"
| "floats_ok (GList vs) \<longleftrightarrow> (\<forall>v \<in> set vs. floats_ok v)"
| "floats_ok (GMap m) \<longleftrightarrow> (\<forall>kv \<in> set m. floats_ok (snd kv))"
| "floats_ok _ \<longleftrightarrow> True"

lemma foldr_max_le: "foldr max xs (0 :: nat) \<le> n \<longleftrightarrow> (\<forall>x \<in> set xs. x \<le> n)"
  by (induction xs) auto

text \<open>A text starts a value: it is neither empty nor begins with a space or a closing bracket.\<close>

definition starts_value :: "string \<Rightarrow> bool" where
  "starts_value t \<longleftrightarrow> (\<exists>c u. t = c # u \<and> \<not> json_space c \<and> c \<notin> {CHR '']'', CHR ''}''})"

lemma skip_starts: "starts_value t \<Longrightarrow> skip_space (t @ r) = t @ r"
  by (auto simp: starts_value_def skip_space_def)

lemma ends_number_sep: "ends_number (c # r)" if "c \<in> {CHR '','', CHR '']'', CHR ''}''}"
  using that by (auto simp: ends_number_def is_digit_def)

lemma digits_start: "digits (c # u) \<Longrightarrow> starts_value (c # u)"
  by (auto simp: digits_def starts_value_def json_space_def is_digit_def)

lemma number_starts: "literal_ok n \<Longrightarrow> starts_value (number_text n @ x)"
proof -
  assume ok: "literal_ok n"
  obtain ng w f e where n: "n = Number ng w f e" by (rule number.exhaust)
  with ok obtain c u where w: "w = c # u" "is_digit c" by (cases w) (auto simp: digits_def)
  show ?thesis using w by (auto simp: n starts_value_def json_space_def is_digit_def)
qed

text \<open>Items that are read one by one are read as a list.\<close>

lemma items_read:
  assumes "list_all2 (\<lambda>t x. starts_value t \<and> (\<forall>r. ends_number r \<longrightarrow> item (t @ r) = Some (x, r))) ts xs" and "ts \<noteq> []"
    and "close \<in> {CHR '']'', CHR ''}''}"
  shows "items item close (Join ts '','' @ close # r) = Some (xs, r)"
  using assms(1,2)
proof (induction rule: list_all2_induct)
  case (Cons t ts x xs)
  have item: "item (skip_space (t @ c # u)) = Some (x, c # u)" "skip_space (c # u) = c # u" if "c \<in> {CHR '','', close}" for c u
    using Cons.hyps(1) that assms(3) ends_number_sep[of c u] skip_starts[of t "c # u"] by (auto simp: skip_space_def json_space_def)
  show ?case
  proof (cases ts)
    case Nil
    with Cons.hyps(2) have "xs = []" by simp
    then show ?thesis using item[of close r] by (subst items.simps) (simp add: Nil)
  next
    case (Cons t' ts')
    let ?rest = "Join ts '','' @ close # r"
    have whole: "Join (t # ts) '','' @ close # r = t @ CHR '','' # ?rest" using Cons by (simp add: Join_Cons)
    have "items item close ?rest = Some (xs, r)" using Cons.IH Cons by simp
    then show ?thesis unfolding whole using item[of "CHR '',''" ?rest] assms(3) by (subst items.simps) auto
  qed
qed simp

lemma bracketed_read:
  assumes "list_all2 (\<lambda>t x. starts_value t \<and> (\<forall>r. ends_number r \<longrightarrow> item (t @ r) = Some (x, r))) ts xs"
    and "close \<in> {CHR '']'', CHR ''}''}"
  shows "bracketed item close (Join ts '','' @ close # r) = Some (xs, r)"
proof (cases ts)
  case Nil
  with assms show ?thesis by (auto simp: bracketed_def skip_space_def json_space_def)
next
  case (Cons t ts')
  then have t: "starts_value t" using assms(1) by (auto simp: list_all2_Cons1)
  obtain u where u: "Join ts '','' @ close # r = t @ u" using Cons by (cases ts') (auto simp: Join_Cons)
  obtain c v where cv: "t = c # v" "c \<noteq> close" using t assms(2) by (auto simp: starts_value_def)
  have "skip_space (Join ts '','' @ close # r) = c # (v @ u)" using skip_starts[OF t, of u] by (simp add: u cv(1))
  then show ?thesis using items_read[OF assms(1) _ assms(2), of r] Cons cv(2) by (simp add: bracketed_def)
qed

lemma read_value_scalar: "c \<notin> {CHR ''['', CHR ''{''} \<Longrightarrow> read_value n (c # t) = read_scalar (c # t)"
  by (cases n) simp_all

lemma read_value_number:
  assumes "literal_ok n" and "ends_number r"
  shows "read_value k (number_text n @ r) = Some (JNum n, r)"
proof -
  obtain ng w f e where n: "n = Number ng w f e" by (rule number.exhaust)
  with assms(1) obtain d u where w: "w = d # u" "is_digit d" by (cases w) (auto simp: digits_def)
  obtain c v where cv: "number_text n @ r = c # v" "c = CHR ''-'' \<or> is_digit c" using w by (cases ng) (auto simp: n)
  then have c: "c \<notin> {CHR ''['', CHR ''{'', CHR 0x22, CHR ''n'', CHR ''t'', CHR ''f''}" by (auto simp: is_digit_def)
  then have "read_value k (c # v) = read_scalar (c # v)" by (intro read_value_scalar) simp
  also have "\<dots> = map_option (apfst JNum) (read_number (c # v))" using c by (simp add: read_scalar_def HasPrefix_iff)
  finally show ?thesis using read_number_text[OF assms] unfolding cv(1) by simp
qed

lemma read_member_text:
  assumes "starts_value s" and "val (s @ r) = Some (j, r)"
  shows "read_member val ((json_string k @ '':'' @ s) @ r) = Some ((fix_utf8 k, s, j), r)"
proof -
  have "skip_space (CHR '':'' # s @ r) = CHR '':'' # s @ r" by (simp add: skip_space_def json_space_def)
  moreover have "skip_space (s @ r) = s @ r" using assms(1) by (rule skip_starts)
  ultimately show ?thesis
    using assms(2) read_json_chars[of k "CHR '':'' # s @ r"] by (simp add: read_member_def json_string_def)
qed

lemma map_Some_rel: "map f vs = map Some ss \<Longrightarrow> list_all2 (\<lambda>v s. f v = Some s) vs ss"
  by (induction vs arbitrary: ss) (auto simp: Cons_eq_map_conv)

lemma insort_key_map: "(\<And>x. fst (g x) = fst x) \<Longrightarrow> insort_key fst (g x) (map g xs) = map g (insort_key fst x xs)"
  by (induction xs) simp_all

lemma sort_key_map: "(\<And>x. fst (g x) = fst x) \<Longrightarrow> sort_key fst (map g xs) = map g (sort_key fst xs)"
  by (induction xs) (simp_all add: insort_key_map)

text \<open>A text reads as a tree within \<open>n\<close> levels of brackets, whatever follows.\<close>

definition reads_as :: "nat \<Rightarrow> string \<Rightarrow> json \<Rightarrow> bool" where
  "reads_as n t j \<longleftrightarrow> starts_value t \<and> (\<forall>r. ends_number r \<longrightarrow> read_value n (t @ r) = Some (j, r))"

lemma reads_asI:
  "starts_value t \<Longrightarrow> (\<And>r. ends_number r \<Longrightarrow> read_value n (t @ r) = Some (j, r)) \<Longrightarrow> reads_as n t j"
  by (auto simp: reads_as_def)

lemma reads_number: "literal_ok m \<Longrightarrow> reads_as n (number_text m) (JNum m)"
  using number_starts[of m "[]"] by (intro reads_asI) (simp_all add: read_value_number)

lemma reads_literal:
  "reads_as n ''null'' JNull" "reads_as n ''true'' (JBool True)" "reads_as n ''false'' (JBool False)"
  by (rule reads_asI; simp add: starts_value_def json_space_def read_value_scalar read_scalar_def HasPrefix_def TrimPrefix_def)+

lemma reads_string: "reads_as n (json_string s) (JStr (fix_utf8 s))"
  by (rule reads_asI)
    (simp_all add: starts_value_def json_space_def json_string_def read_value_scalar read_scalar_def read_json_chars)

lemma reads_list:
  assumes "list_all2 (reads_as n) ts js"
  shows "reads_as (Suc n) (''['' @ Join ts '','' @ '']'') (JArr js)"
proof (rule reads_asI)
  have "list_all2 (\<lambda>t j. starts_value t \<and> (\<forall>r. ends_number r \<longrightarrow> read_value n (t @ r) = Some (j, r))) ts js"
    using assms by (rule list_all2_mono) (simp add: reads_as_def)
  from bracketed_read[OF this, of "CHR '']''"]
  show "read_value (Suc n) ((''['' @ Join ts '','' @ '']'') @ r) = Some (JArr js, r)" for r by simp
qed (simp add: starts_value_def json_space_def)

text \<open>An object of members written one after the other, in any order.\<close>

definition object_text :: "(string \<times> string) list \<Rightarrow> string" where
  "object_text kts = ''{'' @ Join (map (\<lambda>(k, t). json_string k @ '':'' @ t) kts) '','' @ ''}''"

lemma json_object_text: "json_object kts = object_text (sort_key fst kts)"
  by (simp add: json_object_def object_text_def)

lemma reads_object:
  assumes "\<forall>(k, t, j) \<in> set ms. reads_as n t j"
  shows "reads_as (Suc n) (object_text (map (\<lambda>(k, t, j). (k, t)) ms)) (JObj (map (\<lambda>(k, t, j). (fix_utf8 k, t, j)) ms))"
proof (rule reads_asI)
  let ?t = "\<lambda>(k, t, j). json_string k @ '':'' @ t" and ?x = "\<lambda>(k, t, j). (fix_utf8 k, t, j)"
  have "starts_value (?t m) \<and> (\<forall>r. ends_number r \<longrightarrow> read_member (read_value n) (?t m @ r) = Some (?x m, r))" if "m \<in> set ms" for m
  proof -
    obtain k t j where m: "m = (k, t, j)" by (cases m) auto
    then have "starts_value t" "\<forall>r. ends_number r \<longrightarrow> read_value n (t @ r) = Some (j, r)"
      using assms that by (auto simp: reads_as_def)
    with read_member_text[of t "read_value n" _ j k] show ?thesis
      by (simp add: m) (simp add: starts_value_def json_string_def json_space_def)
  qed
  then have "list_all2 (\<lambda>t x. starts_value t \<and> (\<forall>r. ends_number r \<longrightarrow> read_member (read_value n) (t @ r) = Some (x, r))) (map ?t ms) (map ?x ms)"
    unfolding list_all2_map1 list_all2_map2 list_all2_same by blast
  from bracketed_read[OF this, of "CHR ''}''"]
  show "read_value (Suc n) (object_text (map (\<lambda>(k, t, j). (k, t)) ms) @ r) = Some (JObj (map ?x ms), r)" for r
    by (simp add: object_text_def comp_def case_prod_unfold)
qed (simp add: starts_value_def json_space_def object_text_def)

text \<open>What \<open>json.Marshal\<close> writes is read as the tree of the value.\<close>

lemma float_number_ok:
  assumes "float_ok f" and "f \<notin> {FNaN, FNegInf, FPosInf}"
  shows "marshal_float f = number_text (float_number f)" and "literal_ok (float_number f)" and "ParseFloat (float_number f) = Some f"
proof -
  have zero: "is_float64 0" by (simp add: is_float64_def is_float_0)
  show "marshal_float f = number_text (float_number f)" using assms(2) by (cases f) (auto simp: marshal_float_def float_number_def)
  show "literal_ok (float_number f)" "ParseFloat (float_number f) = Some f"
    using assms zero by (cases f; auto simp: float_number_def float_ok_def json_number_read with_sign_def)+
qed

lemma marshal_reads:
  assumes "json_float L = marshal_float"
  shows "json_marshal L v = Some t \<Longrightarrow> floats_ok v \<Longrightarrow> val_depth v \<le> n \<Longrightarrow> reads_as n t (tree_of L v)"
proof (induction v arbitrary: t n)
  case (GInt w)
  then show ?case using reads_number[OF int_number_ok] by (auto simp: show_int_text)
next
  case (GFloat f)
  then have "float_ok f" "f \<notin> {FNaN, FNegInf, FPosInf}" "t = marshal_float f" by (auto simp: assms split: if_splits)
  then show ?case using float_number_ok reads_number by simp
next
  case (GList vs)
  then obtain m where n: "n = Suc m" by (cases n) simp_all
  obtain ss where ss: "map (json_marshal L) vs = map Some ss" "t = ''['' @ Join ss '','' @ '']''"
    using GList.prems(1) by (auto simp: seq_opt_eq_Some)
  have depth: "\<forall>v \<in> set vs. val_depth v \<le> m" using GList.prems(3) by (auto simp: n foldr_max_le)
  have "list_all2 (\<lambda>v s. json_marshal L v = Some s) vs ss"
    using ss(1) by (rule map_Some_rel)
  then have "list_all2 (reads_as m) ss (map (tree_of L) vs)"
    using GList.IH GList.prems(2) depth by (auto simp: list_all2_conv_all_nth)
  then show ?case unfolding n ss(2) tree_of.simps by (rule reads_list)
next
  case (GMap m)
  then obtain k where n: "n = Suc k" by (cases n) simp_all
  let ?txt = "\<lambda>kv. the (json_marshal L (snd kv))"
  let ?ms = "sort_key fst (map (\<lambda>(k, v). (k, the (json_marshal L v), tree_of L v)) m)"
  obtain kvs where kvs: "map (\<lambda>(k, v). map_option (Pair k) (json_marshal L v)) m = map Some kvs" "t = json_object kvs"
    using GMap.prems(1) by (auto simp: seq_opt_eq_Some)
  have some: "json_marshal L (snd kv) = Some (?txt kv)" if "kv \<in> set m" for kv
  proof -
    have "(\<lambda>(k, v). map_option (Pair k) (json_marshal L v)) kv \<in> set (map Some kvs)" using that by (simp flip: kvs(1))
    then show ?thesis by (auto simp: case_prod_beta)
  qed
  then have "map Some kvs = map Some (map (\<lambda>kv. (fst kv, ?txt kv)) m)" unfolding kvs(1)[symmetric] by (auto simp: case_prod_beta)
  then have "kvs = map (\<lambda>kv. (fst kv, ?txt kv)) m" by (rule map_injective) simp
  then have t: "t = object_text (map (\<lambda>(k, t, j). (k, t)) ?ms)"
    by (simp add: kvs(2) json_object_text sort_key_map case_prod_beta comp_def)
  have "reads_as k (?txt kv) (tree_of L (snd kv))" if kv: "kv \<in> set m" for kv
  proof -
    have "val_depth (snd kv) \<le> k" using GMap.prems(3) kv by (auto simp: n foldr_max_le case_prod_beta)
    with GMap.IH[OF kv _ some[OF kv]] GMap.prems(2) kv show ?thesis by (cases kv) auto
  qed
  then have "\<forall>(k', t, j) \<in> set ?ms. reads_as k t j" by auto
  then show ?case unfolding n t tree_of.simps by (rule reads_object)
qed (auto simp: reads_literal reads_string)

text \<open>That tree is the normal form of the value.\<close>

lemma tree_of_any:
  "floats_ok v \<Longrightarrow> json_marshal L v \<noteq> None \<Longrightarrow> any_ok (tree_of L v) \<and> any_of (tree_of L v) = json_norm v"
proof (induction v)
  case (GInt w)
  have "\<bar>sint w\<bar> \<le> 2 ^ 63" using sint_range_size[of w] by (simp add: word_size abs_le_iff)
  then show ?case using int_number_reads[of "sint w"] by auto
next
  case (GFloat f)
  then show ?case using float_number_ok(3)[of f] by (auto split: if_splits)
next
  case (GList vs)
  have "None \<notin> json_marshal L ` set vs" using GList.prems(2) by (simp add: seq_opt_None)
  then have "json_marshal L v \<noteq> None" if "v \<in> set vs" for v using that by (metis imageI)
  with GList show ?case by simp
next
  case (GMap m)
  let ?p = "\<lambda>(k, v). map_option (Pair k) (json_marshal L v)"
  have "None \<notin> ?p ` set m" using GMap.prems(2) by (simp add: seq_opt_None)
  then have "?p kv \<noteq> None" if "kv \<in> set m" for kv using imageI[OF that, of ?p] by metis
  then have marshals: "json_marshal L (snd kv) \<noteq> None" if "kv \<in> set m" for kv using that by (cases kv) auto
  have IH: "any_ok (tree_of L (snd kv)) \<and> any_of (tree_of L (snd kv)) = json_norm (snd kv)" if "kv \<in> set m" for kv
    using GMap.IH[OF that, of "snd kv"] GMap.prems(1) marshals[OF that] that by (cases kv) force
  then have "fold (\<lambda>kv. gm_put (fix_utf8 (fst kv)) (any_of (tree_of L (snd kv)))) (sort_key fst m) [] =
      fold (\<lambda>kv. gm_put (fix_utf8 (fst kv)) (json_norm (snd kv))) (sort_key fst m) []"
    by (intro fold_cong) simp_all
  then show ?case using IH by (simp add: sort_key_map case_prod_beta fold_map comp_def)
qed simp_all

lemma parse_marshal:
  assumes "reads_as 10000 t j"
  shows "parse_json t = Some j"
proof -
  have "read_value 10000 (t @ []) = Some (j, [])" "skip_space t = t"
    using assms skip_starts[of t "[]"] by (auto simp: reads_as_def ends_number_def)
  then show ?thesis by (simp add: parse_json_def skip_space_def)
qed

theorem unmarshal_marshal:
  assumes "json_float L = marshal_float" and "json_marshal L v = Some t" and "floats_ok v" and "val_depth v \<le> 10000"
  shows "unmarshal_any t = Some (json_norm v)"
  using parse_marshal[OF marshal_reads[OF assms]] tree_of_any[of v L] assms by (simp add: unmarshal_any_def)

end
