(* ===== verification/Json_Canonical.thy ===== *)
theory Json_Canonical
  imports Json_Roundtrip Schema_Properties
begin

text \<open>
  The values that \<open>json.Unmarshal\<close> produces: finite floats, no integers, well-formed strings, maps with distinct
  keys. Marshalling them never fails and reading the result gives the same value with its keys in order, which is
  marshalled to the same bytes and satisfies the same schemas.
\<close>

section \<open>Well-formed strings\<close>

definition rune :: "string \<Rightarrow> bool" where
  "rune a \<longleftrightarrow> a \<noteq> [] \<and> utf8_len a = length a"

lemma cont_length: "cont lo hi s 1 \<Longrightarrow> 2 \<le> length s" "cont lo hi s 2 \<Longrightarrow> 3 \<le> length s" "cont lo hi s 3 \<Longrightarrow> 4 \<le> length s"
  by (simp_all add: cont_def)

lemma utf8_len_length: "utf8_len s \<le> length s"
proof (cases s)
  case (Cons c t)
  have "1 \<le> length s" by (simp add: Cons)
  then show ?thesis using cont_length[of _ _ s]
    unfolding utf8_len_def Let_def by (simp only: Cons list.case) (auto split: if_split)
qed (simp add: utf8_len_def)

lemma rune_take: "0 < utf8_len s \<Longrightarrow> rune (take (utf8_len s) s)"
  using utf8_len_append[of s "[]"] utf8_len_length[of s] by (auto simp: rune_def)

lemma fix_utf8_append: "rune a \<Longrightarrow> fix_utf8 (a @ b) = a @ fix_utf8 b"
proof -
  assume a: "rune a"
  then obtain c t where ct: "a = c # t" by (cases a) (simp_all add: rune_def)
  have len: "utf8_len (a @ b) = length a" using a utf8_len_append[of a b] by (simp add: rune_def)
  then have "0 < utf8_len (a @ b)" by (simp add: ct)
  then have "fix_utf8 (a @ b) = take (length a) (a @ b) @ fix_utf8 (drop (length a) (a @ b))"
    using fix_utf8_rune[of c "t @ b"] len by (simp only: ct append_Cons)
  then show ?thesis by simp
qed

lemma rune_ascii: "(of_char c :: nat) < 128 \<Longrightarrow> rune [c]"
  by (simp add: rune_def utf8_len_def)

lemma rune_replacement: "rune replacement"
  by (simp add: rune_def replacement_def bytes_def utf8_len_def cont_def)

lemma rune_bytes:
  "2 \<le> a \<Longrightarrow> a < 32 \<Longrightarrow> b < 64 \<Longrightarrow> rune (bytes [192 + a, 128 + b])"
  "a < 16 \<Longrightarrow> b < 64 \<Longrightarrow> c < 64 \<Longrightarrow> (a = 0 \<Longrightarrow> 32 \<le> b) \<Longrightarrow> (a = 13 \<Longrightarrow> b < 32) \<Longrightarrow> rune (bytes [224 + a, 128 + b, 128 + c])"
  "a < 5 \<Longrightarrow> b < 64 \<Longrightarrow> c < 64 \<Longrightarrow> d < 64 \<Longrightarrow> (a = 0 \<Longrightarrow> 16 \<le> b) \<Longrightarrow> (a = 4 \<Longrightarrow> b < 16) \<Longrightarrow>
     rune (bytes [240 + a, 128 + b, 128 + c, 128 + d])"
  by (cases "a = 0"; cases "a = 13"; cases "a = 4"; simp add: rune_def bytes_def utf8_len_def cont_def)+

lemma six_bits:
  fixes r :: nat
  shows "r = 4096 * (r div 4096) + 64 * (r div 64 mod 64) + r mod 64"
    and "r = 262144 * (r div 262144) + 4096 * (r div 4096 mod 64) + r mod 4096"
  using mod_mult2_eq[of r 64 64] mult_div_mod_eq[of 4096 r] mod_mult2_eq[of r 4096 64] mult_div_mod_eq[of 262144 r] by simp_all

lemma rune_utf8:
  assumes "r < 1114112" and "\<not> (55296 \<le> r \<and> r < 57344)"
  shows "rune (utf8 r)"
proof -
  have low: "r mod 64 < 64" "r div 64 mod 64 < 64" "r div 4096 mod 64 < 64" "r mod 4096 < 4096" by simp_all
  consider "r < 128" | "128 \<le> r" "r < 2048" | "2048 \<le> r" "r < 65536" | "65536 \<le> r" by linarith
  then show ?thesis
  proof cases
    case 1
    then show ?thesis by (simp add: utf8_def bytes_def rune_ascii)
  next
    case 2
    then have "rune (bytes [192 + r div 64, 128 + r mod 64])" by (intro rune_bytes(1)) auto
    with 2 show ?thesis by (simp add: utf8_def)
  next
    case 3
    then have "rune (bytes [224 + r div 4096, 128 + r div 64 mod 64, 128 + r mod 64])"
      using assms(2) six_bits(1)[of r] low by (intro rune_bytes(2)) linarith+
    with 3 show ?thesis by (simp add: utf8_def)
  next
    case 4
    then have "rune (bytes [240 + r div 262144, 128 + r div 4096 mod 64, 128 + r div 64 mod 64, 128 + r mod 64])"
      using assms(1) six_bits(2)[of r] low by (intro rune_bytes(3)) linarith+
    with 4 show ?thesis by (simp add: utf8_def)
  qed
qed

lemma fix_utf8_idem [simp]: "fix_utf8 (fix_utf8 s) = fix_utf8 s"
proof (induction s rule: fix_utf8.induct)
  case (1 s)
  show ?case
  proof (cases s)
    case (Cons c t)
    show ?thesis
    proof (cases "utf8_len (c # t) = 0")
      case True
      with 1(1)[OF Cons] Cons show ?thesis by (simp add: fix_utf8_bad fix_utf8_append rune_replacement)
    next
      case False
      then show ?thesis using 1(2)[OF Cons] Cons rune_take[of "c # t"] by (simp only: fix_utf8_rune fix_utf8_append not_False_eq_True)
    qed
  qed simp
qed

lemma hex4_bound: "hex4 s = Some (r, t) \<Longrightarrow> r < 65536"
proof -
  have h: "hex_val c = Some x \<Longrightarrow> x < 16" for c x by (auto simp: hex_val_def Let_def split: if_splits)
  show "hex4 s = Some (r, t) \<Longrightarrow> r < 65536"
    by (induction s rule: hex4.induct) (auto split: option.splits dest!: h)
qed

lemma low_surrogate_bound: "low_surrogate r s = Some (q, t) \<Longrightarrow> 65536 \<le> q \<and> q < 1114112"
  by (auto simp: low_surrogate_def split: if_splits list.splits option.splits)

lemma simple_escape_ascii: "simple_escape e = Some d \<Longrightarrow> rune [d]"
  by (rule rune_ascii) (auto simp: simple_escape_def split: if_splits)

lemma read_chars_fixed: "read_chars s = Some (x, r) \<Longrightarrow> fix_utf8 x = x"
proof (induction s arbitrary: x rule: length_induct)
  case (1 s)
  have step: "fix_utf8 x = x" if "prepend a (read_chars u) = Some (x, r)" "rune a" "length u < length s" for a u
    using that 1(1) by (auto simp: fix_utf8_append)
  obtain c t where s: "s = c # t" using 1(2) by (cases s) (simp_all add: read_chars.simps)
  consider (stop) "x = []"
    | (one) a u where "prepend a (read_chars u) = Some (x, r)" "rune a" "length u < length s"
    | (escape) e v where "t = e # v" "c = CHR 0x5C"
  proof -
    assume stop: "x = [] \<Longrightarrow> thesis" and one: "\<And>a u. prepend a (read_chars u) = Some (x, r) \<Longrightarrow> rune a \<Longrightarrow> length u < length s \<Longrightarrow> thesis"
      and escape: "\<And>e v. t = e # v \<Longrightarrow> c = CHR 0x5C \<Longrightarrow> thesis"
    note r = 1(2)[unfolded s, unfolded read_chars.simps[of "c # t"], simplified]
    show thesis
    proof (cases "c = CHR 0x22 \<or> c = CHR 0x5C")
      case True
      with r stop escape show thesis by (auto split: list.splits)
    next
      case False
      with r show thesis
        using one[of "[c]" t] one[of replacement t] one[of "take (utf8_len s) s" "drop (utf8_len s) s"]
          rune_ascii[of c] rune_replacement rune_take[of s] by (auto simp: s split: if_splits)
    qed
  qed
  then show ?case
  proof cases
    case escape
    note r = 1(2)[unfolded s escape, unfolded read_chars.simps[of "CHR 0x5C # e # v"], simplified]
    show ?thesis
    proof (cases "e = CHR ''u''")
      case True
      then obtain q w where q: "hex4 v = Some (q, w)" using r by (auto split: option.splits)
      show ?thesis
      proof (cases "low_surrogate q w")
        case None
        with r True q have w: "prepend (if 55296 \<le> q \<and> q < 57344 then replacement else utf8 q) (read_chars w) = Some (x, r)" by simp
        have "rune (if 55296 \<le> q \<and> q < 57344 then replacement else utf8 q)"
          using hex4_bound[OF q] rune_utf8[of q] rune_replacement by simp
        with w show ?thesis by (rule step) (use hex4_length[OF q] in \<open>simp add: s escape\<close>)
      next
        case (Some y)
        obtain q2 w2 where y: "y = (q2, w2)" by (rule prod.exhaust)
        with Some r True q have "prepend (utf8 q2) (read_chars w2) = Some (x, r)" by simp
        moreover have "rune (utf8 q2)" using low_surrogate_bound[of q w q2 w2] Some y by (intro rune_utf8) simp_all
        ultimately show ?thesis
          by (rule step) (use hex4_length[OF q] low_surrogate_length[of q w q2 w2] Some y in \<open>simp add: s escape\<close>)
      qed
    next
      case False
      with r obtain d where "simple_escape e = Some d" "prepend [d] (read_chars v) = Some (x, r)" by (auto split: option.splits)
      then show ?thesis using simple_escape_ascii[of e d] by (intro step) (auto simp: s escape)
    qed
  next
    case one
    then show ?thesis by (rule step)
  qed simp
qed

section \<open>What the reader produces\<close>

fun tree_ok :: "nat \<Rightarrow> json \<Rightarrow> bool" where
  "tree_ok n (JStr s) \<longleftrightarrow> fix_utf8 s = s"
| "tree_ok n (JArr js) \<longleftrightarrow> 0 < n \<and> (\<forall>j \<in> set js. tree_ok (n - 1) j)"
| "tree_ok n (JObj ms) \<longleftrightarrow> 0 < n \<and> (\<forall>m \<in> set ms. fix_utf8 (fst m) = fst m \<and> tree_ok (n - 1) (snd (snd m)))"
| "tree_ok n _ \<longleftrightarrow> True"

lemma items_all:
  assumes "\<And>s x r. item s = Some (x, r) \<Longrightarrow> P x" and "items item close s = Some (xs, r)"
  shows "\<forall>x \<in> set xs. P x"
  using assms(2)
proof (induction s arbitrary: xs rule: length_induct)
  case (1 s)
  then show ?case
    using items.simps[of item close s] assms(1)[of "skip_space s"]
    by (auto split: option.splits list.splits if_splits)
qed

lemma bracketed_all:
  assumes "\<And>s x r. item s = Some (x, r) \<Longrightarrow> P x" and "bracketed item close s = Some (xs, r)"
  shows "\<forall>x \<in> set xs. P x"
  using assms(2) items_all[of item P close s xs r, OF assms(1)] by (auto simp: bracketed_def split: list.splits if_splits)

lemma read_member_ok:
  assumes "\<And>s j r. val s = Some (j, r) \<Longrightarrow> P j" and "read_member val s = Some (m, r)"
  shows "fix_utf8 (fst m) = fst m \<and> P (snd (snd m))"
  using assms(2)
  by (auto simp: read_member_def Let_def dest: read_chars_fixed assms(1) split: list.splits if_splits option.splits prod.splits)

lemma read_scalar_ok: "read_scalar s = Some (j, r) \<Longrightarrow> tree_ok n j"
  by (auto simp: read_scalar_def dest: read_chars_fixed split: list.splits if_splits)

lemma read_value_ok: "read_value n s = Some (j, r) \<Longrightarrow> tree_ok n j"
proof (induction n arbitrary: s j r)
  case (Suc n)
  then obtain c t where s: "s = c # t" by (cases s) simp_all
  consider (arr) js where "j = JArr js" "bracketed (read_value n) (CHR '']'') t = Some (js, r)"
    | (obj) ms where "j = JObj ms" "bracketed (read_member (read_value n)) (CHR ''}'') t = Some (ms, r)"
    | (scalar) "read_scalar s = Some (j, r)"
    using Suc.prems by (auto simp: s split: if_splits)
  then show ?case
  proof cases
    case arr
    then show ?thesis using bracketed_all[OF Suc.IH arr(2)] by simp
  next
    case obj
    have "fix_utf8 (fst m) = fst m \<and> tree_ok n (snd (snd m))" if "read_member (read_value n) u = Some (m, w)" for u m w
      using read_member_ok[of "read_value n" "tree_ok n", OF Suc.IH that] .
    from bracketed_all[OF this obj(2)] obj(1) show ?thesis by simp
  qed (rule read_scalar_ok)
qed (simp add: read_scalar_ok)

section \<open>Plain values\<close>

fun plain :: "goval \<Rightarrow> bool" where
  "plain (GInt w) \<longleftrightarrow> False"
| "plain (GFloat f) \<longleftrightarrow> float_ok f \<and> f \<notin> {FNaN, FNegInf, FPosInf}"
| "plain (GStr s) \<longleftrightarrow> fix_utf8 s = s"
| "plain (GList vs) \<longleftrightarrow> (\<forall>v \<in> set vs. plain v)"
| "plain (GMap m) \<longleftrightarrow> gm_wf m \<and> (\<forall>kv \<in> set m. fix_utf8 (fst kv) = fst kv \<and> plain (snd kv))"
| "plain _ \<longleftrightarrow> True"

lemma ParseFloat_ok: "ParseFloat n = Some f \<Longrightarrow> float_ok f \<and> f \<notin> {FNaN, FNegInf, FPosInf}"
proof -
  assume "ParseFloat n = Some f"
  then obtain q where f: "f = with_sign (number_neg n) q" "round64 (number_mag n) = Some q" by (auto simp: ParseFloat_def)
  have "0 \<le> number_mag n" by (cases n) (simp add: Let_def)
  then have "is_float64 q"
    using f(2) round_raw_float[of "number_mag n"] is_float_0
    by (cases "number_mag n = 0") (auto simp: round64_def is_float64_def round_raw_def split: if_splits)
  then show ?thesis using is_float_nonneg[of q] by (auto simp: f(1) with_sign_def float_ok_def is_float64_def)
qed

lemma fold_put:
  fixes kvs :: "(string \<times> 'a) list"
  defines "m \<equiv> fold (\<lambda>(k, v). gm_put k v) kvs []"
  shows "gm_wf m" and "set m \<subseteq> set kvs"
proof -
  have "gm_wf (fold (\<lambda>(k, v). gm_put k v) kvs m') \<and> set (fold (\<lambda>(k, v). gm_put k v) kvs m') \<subseteq> set kvs \<union> set m'" if "gm_wf m'" for m'
    using that
  proof (induction kvs arbitrary: m')
    case (Cons kv kvs)
    obtain k v where kv: "kv = (k, v)" by (rule prod.exhaust)
    from Cons.IH[of "gm_put k v m'"] Cons.prems show ?case by (auto simp: kv gm_put_set split: if_splits)
  qed simp
  from this[of "[]"] show "gm_wf m" "set m \<subseteq> set kvs" by (simp_all add: m_def)
qed

lemma any_of_plain: "tree_ok n j \<Longrightarrow> any_ok j \<Longrightarrow> plain (any_of j) \<and> floats_ok (any_of j) \<and> val_depth (any_of j) \<le> n"
proof (induction j arbitrary: n)
  case (JNum x)
  then show ?case by (auto dest: ParseFloat_ok)
next
  case (JArr js)
  then have "\<forall>j \<in> set js. plain (any_of j) \<and> floats_ok (any_of j) \<and> val_depth (any_of j) \<le> n - 1" by auto
  moreover from this have "foldr max (map val_depth (map any_of js)) 0 \<le> n - 1" by (auto simp: foldr_max_le)
  ultimately show ?case using JArr.prems by (cases n) simp_all
next
  case (JObj ms)
  let ?kvs = "map (\<lambda>(k, raw, j). (k, any_of j)) ms"
  have "fix_utf8 (fst kv) = fst kv \<and> plain (snd kv) \<and> floats_ok (snd kv) \<and> val_depth (snd kv) \<le> n - 1" if "kv \<in> set ?kvs" for kv
  proof -
    from that obtain m where m: "m \<in> set ms" "kv = (fst m, any_of (snd (snd m)))" by (auto simp: case_prod_beta)
    with JObj.IH[OF m(1), of "snd m" "snd (snd m)" "n - 1"] JObj.prems show ?thesis
      by (auto simp: snds.simps)
  qed
  then have "\<forall>kv \<in> set (fold (\<lambda>(k, v). gm_put k v) ?kvs []). fix_utf8 (fst kv) = fst kv \<and> plain (snd kv) \<and> floats_ok (snd kv) \<and> val_depth (snd kv) \<le> n - 1"
    using fold_put(2)[of ?kvs] by blast
  moreover from this have "foldr max (map (\<lambda>(k, v). val_depth v) (fold (\<lambda>(k, v). gm_put k v) ?kvs [])) 0 \<le> n - 1"
    by (simp add: foldr_max_le case_prod_beta)
  ultimately show ?case using JObj.prems fold_put(1)[of ?kvs] by (cases n) simp_all
qed auto

lemma unmarshal_plain:
  assumes "unmarshal_any s = Some v"
  shows "plain v" and "floats_ok v" and "val_depth v \<le> 10000"
  using assms any_of_plain[OF read_value_ok, of 10000 "skip_space s"]
  by (auto simp: unmarshal_any_def parse_json_def split: option.splits if_splits)

section \<open>The normal form\<close>

lemma fold_put_distinct: "gm_wf (m @ kvs) \<Longrightarrow> fold (\<lambda>(k, v). gm_put k v) kvs m = m @ kvs"
proof (induction kvs arbitrary: m)
  case (Cons kv kvs)
  obtain k v where kv: "kv = (k, v)" by (rule prod.exhaust)
  have "\<not> gm_has m k" using Cons.prems by (auto simp: kv gm_wf_def gm_has_def gm_get_None_iff)
  then have put: "gm_put k v m = m @ [(k, v)]" by (rule gm_put_new)
  have "gm_wf ((m @ [(k, v)]) @ kvs)" using Cons.prems by (simp add: kv)
  from Cons.IH[OF this] put show ?case by (simp add: kv)
qed simp

abbreviation norm_vals :: "(string, goval) gomap \<Rightarrow> (string, goval) gomap" where
  "norm_vals m \<equiv> map (\<lambda>(k, v). (k, json_norm v)) m"

lemma gm_wf_map: "gm_wf (map (\<lambda>(k, v). (k, f k v)) m) \<longleftrightarrow> gm_wf m"
  by (simp add: gm_wf_def case_prod_beta comp_def)

lemma gm_wf_sort: "gm_wf (sort_key f m) \<longleftrightarrow> gm_wf m"
  unfolding gm_wf_def by (rule mset_eq_imp_distinct_iff) simp

lemma json_norm_map:
  assumes "plain (GMap m)"
  shows "json_norm (GMap m) = GMap (sort_key fst (norm_vals m))" and "gm_same (sort_key fst (norm_vals m)) (norm_vals m)"
proof -
  let ?s = "sort_key fst (norm_vals m)"
  have wf: "gm_wf (norm_vals m)" using assms by (simp add: gm_wf_map)
  then show same: "gm_same ?s (norm_vals m)"
    by (simp add: gm_same_def gm_wf_sort)
  have "map (\<lambda>(k, v). (fix_utf8 k, v)) ?s = ?s"
    using assms by (intro map_idI) (auto simp: case_prod_beta)
  then have "fold (\<lambda>(k, v). gm_put (fix_utf8 k) v) ?s [] = fold (\<lambda>(k, v). gm_put k v) ?s []"
    using fold_map[of "\<lambda>(k, v). gm_put k v" "\<lambda>(k, v). (fix_utf8 k, v)" ?s] unfolding comp_def case_prod_beta by simp
  also have "\<dots> = ?s" using fold_put_distinct[of "[]" ?s] same by (simp add: gm_same_def)
  finally show "json_norm (GMap m) = GMap ?s" by simp
qed

lemma gm_get_map: "gm_get (map (\<lambda>(k, v). (k, f v)) m) k = map_option f (gm_get m k)"
  by (induction m) auto

text \<open>The normal form of a plain value is plain, has the same bytes, and is its own normal form.\<close>

lemma marshal_norm: "plain v \<Longrightarrow> json_marshal L (json_norm v) = json_marshal L v"
proof (induction v)
  case (GList vs)
  then have "map (json_marshal L) (map json_norm vs) = map (json_marshal L) vs" by simp
  then show ?case by (simp only: json_norm.simps json_marshal.simps)
next
  case (GMap m)
  have "json_marshal L (json_norm (GMap m)) = json_marshal L (GMap (norm_vals m))"
    using json_norm_map[OF GMap.prems] json_marshal_same by simp
  also have "map (\<lambda>(k, v). map_option (Pair k) (json_marshal L v)) (norm_vals m) = map (\<lambda>(k, v). map_option (Pair k) (json_marshal L v)) m"
    using GMap by (auto simp: case_prod_beta snds.simps)
  then have "json_marshal L (GMap (norm_vals m)) = json_marshal L (GMap m)" by (simp only: json_marshal.simps)
  finally show ?case .
qed simp_all

lemma norm_plain: "plain v \<Longrightarrow> plain (json_norm v)"
proof (induction v)
  case (GMap m)
  note n = json_norm_map[OF GMap.prems]
  have "\<forall>kv \<in> set (sort_key fst (norm_vals m)). fix_utf8 (fst kv) = fst kv \<and> plain (snd kv)"
    using GMap by (auto simp: snds.simps)
  with n(2) show ?case unfolding n(1) by (simp add: gm_same_def)
qed simp_all

lemma norm_idem: "plain v \<Longrightarrow> json_norm (json_norm v) = json_norm v"
proof (induction v)
  case (GMap m)
  note n = json_norm_map[OF GMap.prems]
  let ?s = "sort_key fst (norm_vals m)"
  have "norm_vals ?s = ?s" using GMap by (intro map_idI) (auto simp: snds.simps)
  moreover have "sort_key fst ?s = ?s" by (intro sort_key_id_if_sorted sorted_sort_key)
  ultimately show ?case using json_norm_map(1)[of ?s] norm_plain[OF GMap.prems] unfolding n(1) by simp
qed simp_all

text \<open>Marshalling a plain value never fails.\<close>

lemma plain_marshals: "plain v \<Longrightarrow> json_marshal L v \<noteq> None"
proof (induction v)
  case (GMap m)
  have "json_marshal L (snd kv) \<noteq> None" if "kv \<in> set m" for kv
    using GMap.IH[OF that, of "snd kv"] GMap.prems that by (simp add: snds.simps)
  then have "None \<notin> set (map (\<lambda>(k, v). map_option (Pair k) (json_marshal L v)) m)" by force
  then show ?case by (simp add: seq_opt_None)
next
  case (GList vs)
  then have "None \<notin> set (map (json_marshal L) vs)" by force
  then show ?case by (simp add: seq_opt_None)
qed auto

text \<open>A value and its normal form satisfy the same schemas.\<close>

lemma jsonEqual_norm: "plain v \<Longrightarrow> jsonEqual L (json_norm v) w = jsonEqual L v w"
  by (simp add: jsonEqual_def marshal_bytes_def marshal_norm)

lemma norm_shape:
  assumes "plain v"
  shows "json_norm v = GStr t \<longleftrightarrow> v = GStr t" and "json_norm v = GFloat f \<longleftrightarrow> v = GFloat f"
    and "json_norm v = GBool b \<longleftrightarrow> v = GBool b" and "json_norm v = GList vs \<longleftrightarrow> (\<exists>ws. v = GList ws \<and> vs = map json_norm ws)"
    and "json_norm v = GMap m \<longleftrightarrow> (\<exists>m'. v = GMap m' \<and> m = sort_key fst (norm_vals m'))"
  using assms json_norm_map(1) by (cases v; force)+

lemma head_ok_norm: "plain v \<Longrightarrow> head_ok L (json_norm v) b = head_ok L v b"
  by (simp add: head_ok_def type_ok_def jsonEqual_norm norm_shape)

lemma object_ok_norm:
  assumes "\<And>v t. plain v \<Longrightarrow> t \<in> subs s \<Longrightarrow> w (json_norm v) t = w v t" and "plain (GMap m)"
  shows "object_ok w st (norm_vals m) s = object_ok w st m s"
proof -
  have "(\<forall>v. gm_get (norm_vals m) k = Some v \<longrightarrow> w v t) = (\<forall>v. gm_get m k = Some v \<longrightarrow> w v t)" if "(k, t) \<in> set (props s)" for k t
  proof -
    have "t \<in> subs s" using that by (force simp: subs_def)
    moreover have "plain v" if "gm_get m k = Some v" for v using gm_get_SomeD[OF that] assms(2) by auto
    ultimately show ?thesis using assms(1) by (auto simp: gm_get_map)
  qed
  then have "(\<forall>(k, t) \<in> set (props s). \<forall>v. gm_get (norm_vals m) k = Some v \<longrightarrow> w v t) =
      (\<forall>(k, t) \<in> set (props s). \<forall>v. gm_get m k = Some v \<longrightarrow> w v t)"
    by (intro ball_cong refl) auto
  moreover have "gm_keys (norm_vals m) = gm_keys m" by (simp add: gm_keys_def case_prod_beta comp_def)
  moreover have "gm_has (norm_vals m) k = gm_has m k" for k by (simp add: gm_has_def gm_get_map)
  ultimately show ?thesis unfolding object_ok_def by simp
qed

lemma satisfies_norm: "plain v \<Longrightarrow> satisfies L st (json_norm v) t = satisfies L st v t"
proof (induction "schema_depth t" arbitrary: t v rule: less_induct)
  case less
  show ?case
  proof (cases t)
    case (Some s)
    let ?w = "satisfies L st"
    have IH: "?w (json_norm u) t = ?w u t" if "plain u" "t \<in> subs s" for u t
      using that less subs_smaller Some by blast
    have "(\<exists>!i. i < length (OneOf s) \<and> ?w (json_norm v) (OneOf s ! i)) = (\<exists>!i. i < length (OneOf s) \<and> ?w v (OneOf s ! i))"
      by (rule arg_cong[where f = Ex1]) (use IH less.prems in \<open>auto simp: fun_eq_iff subs_def\<close>)
    then have "comp_ok ?w (json_norm v) s = comp_ok ?w v s"
      unfolding comp_ok_def using IH[OF less.prems] by (simp add: subs_def)
    moreover have "array_ok ?w (map json_norm vs) s = array_ok ?w vs s" if "v = GList vs" for vs
      using IH less.prems that by (auto simp: array_ok_def subs_def)
    moreover have "object_ok ?w st (sort_key fst (norm_vals m)) s = object_ok ?w st m s" if "v = GMap m" for m
      using object_ok_norm[of s ?w m st] object_ok_same[OF json_norm_map(2)[of m]] IH less.prems that by simp
    ultimately have "body_ok ?w st (json_norm v) s = body_ok ?w st v s"
      unfolding body_ok_def by (auto simp: norm_shape[OF less.prems])
    with \<open>comp_ok ?w (json_norm v) s = comp_ok ?w v s\<close> show ?thesis
      unfolding Some satisfies.simps(2) by (simp add: head_ok_norm[OF less.prems])
  qed simp
qed

end
