(* ===== verification/Go_Library.thy ===== *)
theory Go_Library
  imports Json_Canonical
begin

text \<open>
  The standard library with its JSON codec and its number layer in place: the arithmetic of \<open>float64\<close> as correctly
  rounded operations on exact numbers, and \<open>go_lib\<close>, which leaves of a \<open>stdlib\<close> only Unicode case mapping, regular
  expressions, the conversion of floats out of the range of \<open>int64\<close>, and the wording of the reader's errors open.
\<close>

section \<open>Arithmetic\<close>

definition float_round :: "bool \<Rightarrow> rat \<Rightarrow> gofloat" where
  "float_round ng r = (case round64 r of Some x \<Rightarrow> with_sign ng x | None \<Rightarrow> if ng then FNegInf else FPosInf)"

definition f_sign :: "gofloat \<Rightarrow> bool" where
  "f_sign f = (case f of FNegInf \<Rightarrow> True | FNegZero \<Rightarrow> True | FFin q \<Rightarrow> q < 0 | _ \<Rightarrow> False)"

definition f_rat :: "gofloat \<Rightarrow> rat" where
  "f_rat f = (case f of FFin q \<Rightarrow> q | _ \<Rightarrow> 0)"

definition ieee_add :: "gofloat \<Rightarrow> gofloat \<Rightarrow> gofloat" where
  "ieee_add a b =
     (if a = FNaN \<or> b = FNaN then FNaN
      else if a \<in> {FPosInf, FNegInf} then (if b \<in> {FPosInf, FNegInf} - {a} then FNaN else a)
      else if b \<in> {FPosInf, FNegInf} then b
      else if a = FNegZero \<and> b = FNegZero then FNegZero
      else let s = f_rat a + f_rat b in float_round (s < 0) \<bar>s\<bar>)"

definition ieee_mul :: "gofloat \<Rightarrow> gofloat \<Rightarrow> gofloat" where
  "ieee_mul a b =
     (let ng = (f_sign a \<noteq> f_sign b); inf = (if ng then FNegInf else FPosInf) in
      if a = FNaN \<or> b = FNaN then FNaN
      else if a \<in> {FPosInf, FNegInf} then (if b \<in> {FNegZero, FFin 0} then FNaN else inf)
      else if b \<in> {FPosInf, FNegInf} then (if a \<in> {FNegZero, FFin 0} then FNaN else inf)
      else float_round ng \<bar>f_rat a * f_rat b\<bar>)"

definition ieee_div :: "gofloat \<Rightarrow> gofloat \<Rightarrow> gofloat" where
  "ieee_div a b =
     (let ng = (f_sign a \<noteq> f_sign b); inf = (if ng then FNegInf else FPosInf) in
      if a = FNaN \<or> b = FNaN then FNaN
      else if a \<in> {FPosInf, FNegInf} then (if b \<in> {FPosInf, FNegInf} then FNaN else inf)
      else if b \<in> {FPosInf, FNegInf} then with_sign ng 0
      else if b \<in> {FNegZero, FFin 0} then (if a \<in> {FNegZero, FFin 0} then FNaN else inf)
      else float_round ng \<bar>f_rat a / f_rat b\<bar>)"

section \<open>The library\<close>

definition go_lib :: "stdlib \<Rightarrow> (string \<Rightarrow> string) \<Rightarrow> stdlib" where
  "go_lib L wording = L\<lparr>json_float := marshal_float, fmt_float := print_float,
     float_add := ieee_add, float_mul := ieee_mul, float_div := ieee_div,
     json_unmarshal := \<lambda>s. case unmarshal_any s of None \<Rightarrow> Inl (wording s) | Some v \<Rightarrow> Inr v\<rparr>"

lemma go_lib_simps [simp]:
  "json_float (go_lib L e) = marshal_float" "fmt_float (go_lib L e) = print_float"
  "float_add (go_lib L e) = ieee_add" "float_mul (go_lib L e) = ieee_mul" "float_div (go_lib L e) = ieee_div"
  "int64_oor (go_lib L e) = int64_oor L" "to_lower (go_lib L e) = to_lower L" "regexp_compile (go_lib L e) = regexp_compile L"
  "json_unmarshal (go_lib L e) s = (case unmarshal_any s of None \<Rightarrow> Inl (e s) | Some v \<Rightarrow> Inr v)"
  by (simp_all add: go_lib_def)

text \<open>What was marshalled is unmarshalled to its normal form.\<close>

lemma go_roundtrip:
  "json_marshal (go_lib L e) v = Some t \<Longrightarrow> floats_ok v \<Longrightarrow> val_depth v \<le> 10000 \<Longrightarrow> json_unmarshal (go_lib L e) t = Inr (json_norm v)"
  using unmarshal_marshal[of "go_lib L e" v t] by simp

section \<open>Rounding by hand\<close>

text \<open>A number less than half a unit away from a \<open>float64\<close> with full significand is rounded to it.\<close>

lemma round64_near:
  assumes "2 ^ 52 < m" and "m < 2 ^ 53" and "-1074 \<le> e" and "e \<le> 971" and "\<bar>q / 2 powi e - of_int m\<bar> < 1 / 2"
  shows "round64 q = Some (of_int m * 2 powi e)"
proof -
  let ?u = "(2 :: rat) powi e" and ?y = "q / 2 powi e"
  have lo: "(2 ^ 52 + 1 :: rat) \<le> of_int m" and hi: "of_int m + 1 \<le> (2 ^ 53 :: rat)"
    using assms(1,2) of_int_le_iff[of "2 ^ 52 + 1" m, where 'a = rat] of_int_le_iff[of "m + 1" "2 ^ 53", where 'a = rat] by simp_all
  have y: "2 ^ 52 \<le> ?y" "?y < 2 ^ 53" using assms(5) lo hi by linarith+
  have q: "2 powi (e + 52) \<le> q" "q < 2 powi (e + 53)"
    using y by (simp_all add: power_int_add le_divide_eq divide_less_eq mult.commute)
  have pos: "0 < q" using q(1) zero_less_power_int[of "2 :: rat" "e + 52"] by linarith
  note b = log_floor_bounds[of 2 q, OF _ pos, simplified]
  have mono: "(2 :: rat) powi i \<le> 2 powi j" if "i \<le> j" for i j using that by (intro power_int_increasing) simp_all
  have "log_floor 2 q < e + 53" using b(1) q(2) mono[of "e + 53" "log_floor 2 q"] by linarith
  moreover have "e + 52 < log_floor 2 q + 1" using b(2) q(1) mono[of "log_floor 2 q + 1" "e + 52"] by linarith
  ultimately have "log_floor 2 q = e + 52" by linarith
  then have "ulp64 q = ?u" using assms(3) by (simp add: ulp64_def)
  moreover have "round_even ?y = m"
  proof -
    have "\<bar>of_int (round_even ?y) - of_int m :: rat\<bar> < 1" using round_even_nearest[of ?y m] assms(5) by linarith
    then have "\<bar>of_int (round_even ?y - m) :: rat\<bar> < of_int 1" by simp
    then have "\<bar>round_even ?y - m\<bar> < 1" by (simp only: of_int_less_iff flip: of_int_abs)
    then show ?thesis by simp
  qed
  ultimately have raw: "round_raw q = of_int m * ?u" using pos by (simp add: round_raw_def)
  have "of_int m * ?u < 2 ^ 53 * ?u" using hi by (intro mult_strict_right_mono) simp_all
  also have "\<dots> = 2 powi (e + 53)" by (simp add: power_int_add)
  also have "\<dots> \<le> 2 powi 1024" using assms(4) by (intro power_int_increasing) simp_all
  finally show ?thesis by (simp add: round64_def raw)
qed

end
