(* ===== verification/Json_Contract.thy ===== *)
theory Json_Contract
  imports Go_Library Execution_Properties Runtime_Parts
begin

text \<open>
  Components joined by JSON: the arguments of a step validated as values and as the bytes a skill receives, constants
  of a schema written and read back, and what coercion of decimal strings makes of a number.
\<close>

section \<open>Arguments as values and as bytes\<close>

text \<open>What a step's arguments are validated as once they are bytes.\<close>

lemma validate_bytes:
  assumes "json_marshal (go_lib L e) v = Some b" and "floats_ok v" and "val_depth v \<le> 10000"
  shows "ValidateInput (go_lib L e) b t = map_option Invalid (ValidateValue (go_lib L e) (json_norm v) t)"
    and "ValidateInputStrict (go_lib L e) b t = map_option Invalid (validateValueStrict (go_lib L e) (json_norm v) t [])"
proof -
  have "unmarshal_any b = Some (json_norm v)" using unmarshal_marshal[of "go_lib L e"] assms by simp
  then show "ValidateInput (go_lib L e) b t = map_option Invalid (ValidateValue (go_lib L e) (json_norm v) t)"
    "ValidateInputStrict (go_lib L e) b t = map_option Invalid (validateValueStrict (go_lib L e) (json_norm v) t [])"
    by (auto simp: ValidateInput_def ValidateValue_def ValidateInputStrict_def)
qed

lemma plain_floats_ok: "plain v \<Longrightarrow> floats_ok v"
  by (induction v) (auto simp: snds.simps)

text \<open>C10. 
  The verdict on a step's arguments does not depend on where they are validated: arguments as JSON decodes them are
  always serialised by \<open>ArgumentsJSON\<close>, and \<open>ValidateInput\<close> (or \<open>ValidateInputStrict\<close>) accepts the bytes exactly when \<open>ValidateValue\<close>
  (or the strict validator) accepts the decoded values.
\<close>

theorem arguments_validate_alike:
  assumes "stArguments s = Some a" and "plain (GMap (h ! a))" and "val_depth (GMap (h ! a)) \<le> 10000"
  shows "\<exists>b. ArgumentsJSON (go_lib L e) h s = Some b \<and>
    (ValidateInput (go_lib L e) b t = None \<longleftrightarrow> ValidateValue (go_lib L e) (GMap (h ! a)) t = None) \<and>
    (ValidateInputStrict (go_lib L e) b t = None \<longleftrightarrow> validateValueStrict (go_lib L e) (GMap (h ! a)) t [] = None)"
proof -
  obtain b where b: "json_marshal (go_lib L e) (GMap (h ! a)) = Some b" using plain_marshals[OF assms(2)] by blast
  note v = validate_bytes[OF b plain_floats_ok[OF assms(2)] assms(3), of t]
  have "ValidateValue (go_lib L e) (json_norm (GMap (h ! a))) t = None \<longleftrightarrow> ValidateValue (go_lib L e) (GMap (h ! a)) t = None"
    "validateValueStrict (go_lib L e) (json_norm (GMap (h ! a))) t [] = None \<longleftrightarrow> validateValueStrict (go_lib L e) (GMap (h ! a)) t [] = None"
    using satisfies_norm[OF assms(2)] by (simp_all add: ValidateValue_def validateValue_None validateValueStrict_None del: json_norm.simps)
  with b v show ?thesis by (simp add: ArgumentsJSON_def assms(1) del: json_norm.simps json_marshal.simps)
qed

theorem arguments_validate_alike_witness:
  "\<exists>b. ArgumentsJSON (go_lib plain_lib id) [[(''on'', GBool True), (''id'', GStr ''x'')]] (demo_step\<lparr>stArguments := Some 0\<rparr>) = Some b \<and>
    (ValidateInput (go_lib plain_lib id) b None = None \<longleftrightarrow>
       ValidateValue (go_lib plain_lib id) (GMap ([[(''on'', GBool True), (''id'', GStr ''x'')]] ! 0)) None = None) \<and>
    (ValidateInputStrict (go_lib plain_lib id) b None = None \<longleftrightarrow>
       validateValueStrict (go_lib plain_lib id) (GMap ([[(''on'', GBool True), (''id'', GStr ''x'')]] ! 0)) None [] = None)"
  by (rule arguments_validate_alike) (simp_all add: gm_wf_def fix_utf8_ascii)

section \<open>Constants\<close>

text \<open>C32. 
  A constant survives being written and read: a constant that was read from JSON can always be written, the text reads
  as a constant that is written the same way, and exactly the same values match both.
\<close>

theorem const_survives:
  assumes "ConstUnmarshalJSON (go_lib L e) data c0 = (None, c)"
  shows "\<exists>b c'. ConstMarshalJSON (go_lib L e) c = Some b \<and> ConstUnmarshalJSON (go_lib L e) b c0 = (None, c') \<and>
    ConstMarshalJSON (go_lib L e) c' = Some b \<and>
    (validateConst (go_lib L e) d (cvVal c') p = None \<longleftrightarrow> validateConst (go_lib L e) d (cvVal c) p = None)"
proof -
  let ?L = "go_lib L e"
  obtain v where v: "unmarshal_any data = Some v" "c = c0\<lparr>cvVal := v\<rparr>"
    using assms by (auto simp: ConstUnmarshalJSON_def split: option.splits)
  note ok = unmarshal_plain[OF v(1)]
  obtain b where b: "json_marshal ?L v = Some b" using plain_marshals[OF ok(1)] by blast
  have "ConstUnmarshalJSON ?L b c0 = (None, c0\<lparr>cvVal := json_norm v\<rparr>)"
    using go_roundtrip[OF b ok(2,3)] by (simp add: ConstUnmarshalJSON_def)
  with b marshal_norm[OF ok(1), of ?L] show ?thesis
    by (simp add: ConstMarshalJSON_def v(2) validateConst_None jsonEqual_def marshal_bytes_def)
qed

theorem const_survives_witness:
  "\<exists>b c'. ConstMarshalJSON (go_lib plain_lib id) \<lparr>cvVal = GBool True\<rparr> = Some b \<and>
    ConstUnmarshalJSON (go_lib plain_lib id) b \<lparr>cvVal = GNil\<rparr> = (None, c') \<and> ConstMarshalJSON (go_lib plain_lib id) c' = Some b \<and>
    (validateConst (go_lib plain_lib id) GNil (cvVal c') [] = None \<longleftrightarrow> validateConst (go_lib plain_lib id) GNil (GBool True) [] = None)"
proof -
  have "unmarshal_any ''true'' = Some (GBool True)" using unmarshal_marshal[of "go_lib plain_lib id" "GBool True" "''true''"] by simp
  then have "ConstUnmarshalJSON (go_lib plain_lib id) ''true'' \<lparr>cvVal = GNil\<rparr> = (None, \<lparr>cvVal = GBool True\<rparr>)" by (simp add: ConstUnmarshalJSON_def)
  from const_survives[OF this, of GNil "[]"] show ?thesis by simp
qed

section \<open>Decimal strings\<close>

lemma decimal_roundings:
  "round64 (8 / 10) = Some (of_int 7205759403792794 * 2 powi (-53))"
  "round64 (5 / 100) = Some (of_int 7205759403792794 * 2 powi (-57))"
  "round64 (of_int 7205759403792794 * 2 powi (-53) + of_int 7205759403792794 * 2 powi (-57)) = Some (of_int 7656119366529844 * 2 powi (-53))"
  "round64 (85 / 100) = Some (of_int 7656119366529843 * 2 powi (-53))"
  by (rule round64_near; simp)+

lemma small_roundings: "round64 0 = Some 0" "round64 100 = Some 100" "round64 1000 = Some 1000"
proof -
  have top: "(1000 :: rat) < 2 powi 1024"
  proof -
    have "(1000 :: rat) < 2 powi 10" by simp
    also have "\<dots> < 2 powi 1024" by (rule power_int_strict_increasing) simp_all
    finally show ?thesis .
  qed
  have "round64 (of_int i) = Some (of_int i)" if "0 \<le> i" "i \<le> 1000" for i
  proof -
    have "(of_int i :: rat) \<le> 1000" using that(2) by (metis of_int_le_iff of_int_numeral)
    then have "(of_int i :: rat) < 2 powi 1024" using top by linarith
    with that show ?thesis by (intro round64_float) (simp add: is_float64_def is_float_int)
  qed
  from this[of 0] this[of 100] this[of 1000] show "round64 0 = Some 0" "round64 100 = Some 100" "round64 1000 = Some 1000" by simp_all
qed

lemma ieee_nonneg:
  assumes "0 \<le> p" and "0 \<le> q"
  shows "round64 (p + q) = Some x \<Longrightarrow> ieee_add (FFin p) (FFin q) = FFin x"
    and "round64 (p * q) = Some x \<Longrightarrow> ieee_mul (FFin p) (FFin q) = FFin x"
    and "q \<noteq> 0 \<Longrightarrow> round64 (p / q) = Some x \<Longrightarrow> ieee_div (FFin p) (FFin q) = FFin x"
  using assms by (simp_all add: ieee_add_def ieee_mul_def ieee_div_def Let_def float_round_def f_sign_def f_rat_def with_sign_def)

lemma parse_085: "tryParseFloat (go_lib L e) ''0.85'' = Some (FFin (of_int 7656119366529844 * 2 powi (-53)))"
proof -
  define a b s :: rat where "a = of_int 7205759403792794 * 2 powi (-53)" and "b = of_int 7205759403792794 * 2 powi (-57)"
    and "s = of_int 7656119366529844 * 2 powi (-53)"
  have pos: "0 \<le> a" "0 \<le> b" "0 \<le> s" by (simp_all add: a_def b_def s_def)
  have top: "(1 :: rat) < 2 powi 1024" by (rule one_less_power_int) simp_all
  have floats: "is_float a" "is_float s" unfolding a_def s_def by (intro is_float_scaled; simp)+
  moreover have "a < 1" "s < 1" by (simp_all add: a_def s_def)
  ultimately have same: "round64 a = Some a" "round64 s = Some s" using top by (intro round64_float; simp add: is_float64_def)+
  note r = decimal_roundings[folded a_def b_def s_def]
  have "ieee_div (FFin 8) (FFin 10) = FFin a" "ieee_div (FFin 5) (FFin 100) = FFin b"
    using r(1,2) by (auto intro: ieee_nonneg(3))
  moreover have "ieee_add (FFin 0) (FFin a) = FFin a" "ieee_add (FFin a) (FFin b) = FFin s" "ieee_add (FFin 0) (FFin s) = FFin s"
    "ieee_add (FFin 0) (FFin 0) = FFin 0"
    using r(3) same small_roundings pos by (auto intro!: ieee_nonneg(1))
  moreover have "ieee_mul (FFin 0) (FFin 10) = FFin 0" "ieee_mul (FFin 10) (FFin 10) = FFin 100" "ieee_mul (FFin 100) (FFin 10) = FFin 1000"
    using small_roundings by (auto intro!: ieee_nonneg(2))
  ultimately show ?thesis
    unfolding s_def[symmetric]
    by (simp add: tryParseFloat_def one_dot_digits_def digit_tail_def is_digit_def digit_val_def Let_def)
qed

text \<open>C39. 
  A decimal string is not coerced to the number it denotes: \<open>CoerceStringNumbers\<close> adds up rounded digits, so \<open>"0.85"\<close>
  becomes the float after the one that JSON reads for \<open>0.85\<close>, and a schema with maximum \<open>0.85\<close> accepts the number but
  refuses the coerced string.
\<close>

theorem coerced_decimal_off:
  "\<exists>f g. CoerceStringNumbers (go_lib L e) [(''dose'', GStr ''0.85'')] = ([(''dose'', GFloat f)], 1) \<and>
     json_unmarshal (go_lib L e) ''0.85'' = Inr (GFloat g) \<and>
     (let t = Some (scalar_schema (empty_base\<lparr>sType := ''number'', sMaximum := Some g\<rparr>)) in
      ValidateValue (go_lib L e) (GFloat g) t = None \<and>
      ValidateValue (go_lib L e) (GFloat f) t = Some (ValidationError [] (AboveMaximum f g)))"
proof -
  let ?f = "FFin (of_int 7656119366529844 * 2 powi (-53))" and ?g = "FFin (of_int 7656119366529843 * 2 powi (-53))"
  let ?n = "Number False ''0'' (Some ''85'') None"
  have "tryParseInt ''0.85'' = None" by (simp add: tryParseInt_def digit_tail_def is_digit_def)
  then have coerce: "CoerceStringNumbers (go_lib L e) [(''dose'', GStr ''0.85'')] = ([(''dose'', GFloat ?f)], 1)"
    using parse_085[of L e] by (simp add: CoerceStringNumbers_def coerce_value_def)
  have "number_mag ?n = 85 / 100" by (simp add: exp_of_def read_digits_def digit_val_def power_int_minus)
  then have "ParseFloat ?n = Some ?g" using decimal_roundings(4) by (simp only: ParseFloat_def number_neg.simps) (simp add: with_sign_def)
  moreover have "read_value 10000 (number_text ?n @ []) = Some (JNum ?n, [])"
    by (rule read_value_number) (simp_all add: digits_def is_digit_def ends_number_def)
  ultimately have "unmarshal_any ''0.85'' = Some (GFloat ?g)"
    by (simp add: unmarshal_any_def parse_json_def skip_space_def json_space_def)
  with coerce show ?thesis
    by (intro exI[of _ ?f] exI[of _ ?g])
      (simp add: ValidateValue_def schema_eval checkHead_def validateType_def validateNumber_def Let_def)
qed

end
