(* ===== verification/Json_Structs.thy ===== *)
theory Json_Structs
  imports Json_Roundtrip
begin

text \<open>
  \<open>json.Unmarshal\<close> into Go types. A decoder takes the tree and the value that is already there and returns the new
  value and whether all went well: a mismatch of types is noted and decoding goes on. \<open>null\<close> leaves strings, numbers,
  flags and structs as they are and makes pointers, maps and slices nil; a slice is decoded into the elements it has,
  then grown with zero values or cut; a map keeps its entries; a struct field is found by its exact name or else up to case.
  Elements behind the end of a slice that was cut are taken to be zero: they would show only if a third occurrence of
  the same key grew the slice again.
\<close>

section \<open>Basic types\<close>

type_synonym 'a decodes = "json \<Rightarrow> 'a \<Rightarrow> 'a \<times> bool"

definition dec_string :: "string decodes" where
  "dec_string j old = (case j of JStr t \<Rightarrow> (t, True) | JNull \<Rightarrow> (old, True) | _ \<Rightarrow> (old, False))"

definition dec_bool :: "bool decodes" where
  "dec_bool j old = (case j of JBool b \<Rightarrow> (b, True) | JNull \<Rightarrow> (old, True) | _ \<Rightarrow> (old, False))"

definition dec_int :: "int decodes" where
  "dec_int j old = (case j of
     JNum n \<Rightarrow> (case ParseInt n of Some i \<Rightarrow> (i, True) | None \<Rightarrow> (old, False))
   | JNull \<Rightarrow> (old, True)
   | _ \<Rightarrow> (old, False))"

definition dec_float :: "gofloat decodes" where
  "dec_float j old = (case j of
     JNum n \<Rightarrow> (case ParseFloat n of Some f \<Rightarrow> (f, True) | None \<Rightarrow> (old, False))
   | JNull \<Rightarrow> (old, True)
   | _ \<Rightarrow> (old, False))"

definition dec_any :: "goval decodes" where
  "dec_any j old = (case j of
     JNum n \<Rightarrow> (case ParseFloat n of Some f \<Rightarrow> (GFloat f, True) | None \<Rightarrow> (old, False))
   | _ \<Rightarrow> (any_of j, any_ok j))"

section \<open>Pointers, slices and maps\<close>

definition dec_ptr :: "'a \<Rightarrow> 'a decodes \<Rightarrow> 'a option decodes" where
  "dec_ptr zero d j old = (case j of
     JNull \<Rightarrow> (None, True)
   | _ \<Rightarrow> apfst Some (d j (case old of None \<Rightarrow> zero | Some x \<Rightarrow> x)))"

text \<open>The elements may share a state, such as the heap their maps live in.\<close>

fun dec_elems :: "'a \<Rightarrow> ('h \<times> 'a) decodes \<Rightarrow> json list \<Rightarrow> 'h \<times> 'a list \<Rightarrow> ('h \<times> 'a list) \<times> bool" where
  "dec_elems zero d [] (h, old) = ((h, []), True)"
| "dec_elems zero d (j # js) (h, old) =
     (let ((h1, x), ok) = d j (h, case old of [] \<Rightarrow> zero | x # _ \<Rightarrow> x);
          ((h2, xs), oks) = dec_elems zero d js (h1, drop 1 old)
      in ((h2, x # xs), ok \<and> oks))"

definition dec_slice :: "'a \<Rightarrow> ('h \<times> 'a) decodes \<Rightarrow> ('h \<times> 'a list) decodes" where
  "dec_slice zero d j st = (case j of
     JNull \<Rightarrow> ((fst st, []), True)
   | JArr js \<Rightarrow> dec_elems zero d js st
   | _ \<Rightarrow> (st, False))"

definition pure :: "'a decodes \<Rightarrow> ('h \<times> 'a) decodes" where
  "pure d j st = apfst (Pair (fst st)) (d j (snd st))"

definition dec_list :: "'a \<Rightarrow> 'a decodes \<Rightarrow> 'a list decodes" where
  "dec_list zero d j old = apfst snd (dec_slice zero (pure d) j ((), old))"

definition dec_entries :: "'a \<Rightarrow> 'a decodes \<Rightarrow> (string \<times> string \<times> json) list \<Rightarrow> (string, 'a) gomap \<Rightarrow> (string, 'a) gomap \<times> bool" where
  "dec_entries zero d ms old =
     (fold (\<lambda>(k, raw, j). gm_put k (fst (d j zero))) ms old, \<forall>(k, raw, j) \<in> set ms. snd (d j zero))"

definition dec_map :: "'a \<Rightarrow> 'a decodes \<Rightarrow> (string, 'a) gomap option decodes" where
  "dec_map zero d j old = (case j of
     JNull \<Rightarrow> (None, True)
   | JObj ms \<Rightarrow> apfst Some (dec_entries zero d ms (case old of None \<Rightarrow> [] | Some m \<Rightarrow> m))
   | _ \<Rightarrow> (old, False))"

section \<open>Structs\<close>

text \<open>
  Names are compared up to the case of their letters; two letters outside ASCII, the long s and the Kelvin
  sign, are cases of \<open>s\<close> and \<open>k\<close> too.
\<close>

fun fold_name :: "string \<Rightarrow> string" where
  "fold_name [] = []"
| "fold_name (c # s) =
     (if take 2 (c # s) = bytes [197, 191] then CHR ''S'' # fold_name (drop 1 s)
      else if take 3 (c # s) = bytes [226, 132, 170] then CHR ''K'' # fold_name (drop 2 s)
      else (if 97 \<le> (of_char c :: nat) \<and> (of_char c :: nat) \<le> 122 then char_of ((of_char c :: nat) - 32) else c) # fold_name s)"

type_synonym 's fields = "(string \<times> 's decodes) list"

definition find_field :: "'s fields \<Rightarrow> string \<Rightarrow> 's decodes option" where
  "find_field fs k = (case find (\<lambda>f. fst f = k) fs of
     Some f \<Rightarrow> Some (snd f)
   | None \<Rightarrow> map_option snd (find (\<lambda>f. fold_name (fst f) = fold_name k) fs))"

definition dec_member :: "'s fields \<Rightarrow> string \<times> string \<times> json \<Rightarrow> 's \<times> bool \<Rightarrow> 's \<times> bool" where
  "dec_member fs m st = (case m of (k, raw, j) \<Rightarrow>
     (case find_field fs k of
        None \<Rightarrow> st
      | Some d \<Rightarrow> (let (s, ok) = d j (fst st) in (s, snd st \<and> ok))))"

definition dec_struct :: "'s fields \<Rightarrow> 's decodes" where
  "dec_struct fs j s = (case j of
     JNull \<Rightarrow> (s, True)
   | JObj ms \<Rightarrow> fold (dec_member fs) ms (s, True)
   | _ \<Rightarrow> (s, False))"

definition on :: "('s \<Rightarrow> 'a) \<Rightarrow> (('a \<Rightarrow> 'a) \<Rightarrow> 's \<Rightarrow> 's) \<Rightarrow> 'a decodes \<Rightarrow> 's decodes" where
  "on get upd d j s = (let (x, ok) = d j (get s) in (upd (\<lambda>_. x) s, ok))"

text \<open>The whole call: a text that is not JSON changes nothing.\<close>

definition unmarshal :: "'a decodes \<Rightarrow> string \<Rightarrow> 'a \<Rightarrow> 'a \<times> bool" where
  "unmarshal d s old = (case parse_json s of None \<Rightarrow> (old, False) | Some j \<Rightarrow> d j old)"

section \<open>Lemmas\<close>

lemma dec_any_tree:
  "floats_ok v \<Longrightarrow> json_marshal L v \<noteq> None \<Longrightarrow> dec_any (tree_of L v) old = (json_norm v, True)"
  using tree_of_any[of v L] by (cases "tree_of L v") (auto simp: dec_any_def split: option.splits)

lemma dec_struct_Obj: "dec_struct fs (JObj ms) s = fold (dec_member fs) ms (s, True)"
  by (simp add: dec_struct_def)

lemma dec_member_known: "find_field fs k = Some d \<Longrightarrow> dec_member fs (k, raw, j) (s, ok) = (fst (d j s), ok \<and> snd (d j s))"
  by (simp add: dec_member_def case_prod_beta)

lemma dec_member_unknown: "find_field fs k = None \<Longrightarrow> dec_member fs (k, raw, j) st = st"
  by (simp add: dec_member_def)

lemma fold_name_ascii:
  "(of_char c :: nat) < 128 \<Longrightarrow>
   fold_name (c # s) = (if 97 \<le> (of_char c :: nat) \<and> (of_char c :: nat) \<le> 122 then char_of ((of_char c :: nat) - 32) else c) # fold_name s"
  by (auto simp: bytes_def take_Cons')

end
