(* ===== verification/Plan_Json.thy ===== *)
theory Plan_Json
  imports Json_Structs Go_Library Planner_Properties MCP_Server
begin

text \<open>
  The structs of the program that are read from JSON: schemas (\<open>ai/types/types.go\<close>), plans and their steps
  (\<open>execution/plan.go\<close>), the parameters of a tool call (\<open>mcp/types.go\<close>), field by field with their tags; and that the depth
  of a tree is enough fuel for the reader of schemas.
\<close>

section \<open>Schemas\<close>

abbreviation zero_schema :: JSONSchema where
  "zero_schema \<equiv> scalar_schema empty_base"

primrec upd_base where "upd_base f (JSONSchema b ps it an oo al ds pre i th el) = JSONSchema (f b) ps it an oo al ds pre i th el"
primrec upd_Properties where "upd_Properties f (JSONSchema b ps it an oo al ds pre i th el) = JSONSchema b (f ps) it an oo al ds pre i th el"
primrec upd_Items where "upd_Items f (JSONSchema b ps it an oo al ds pre i th el) = JSONSchema b ps (f it) an oo al ds pre i th el"
primrec upd_AnyOf where "upd_AnyOf f (JSONSchema b ps it an oo al ds pre i th el) = JSONSchema b ps it (f an) oo al ds pre i th el"
primrec upd_OneOf where "upd_OneOf f (JSONSchema b ps it an oo al ds pre i th el) = JSONSchema b ps it an (f oo) al ds pre i th el"
primrec upd_AllOf where "upd_AllOf f (JSONSchema b ps it an oo al ds pre i th el) = JSONSchema b ps it an oo (f al) ds pre i th el"
primrec upd_Defs where "upd_Defs f (JSONSchema b ps it an oo al ds pre i th el) = JSONSchema b ps it an oo al (f ds) pre i th el"
primrec upd_PrefixItems where "upd_PrefixItems f (JSONSchema b ps it an oo al ds pre i th el) = JSONSchema b ps it an oo al ds (f pre) i th el"
primrec upd_If where "upd_If f (JSONSchema b ps it an oo al ds pre i th el) = JSONSchema b ps it an oo al ds pre (f i) th el"
primrec upd_Then where "upd_Then f (JSONSchema b ps it an oo al ds pre i th el) = JSONSchema b ps it an oo al ds pre i (f th) el"
primrec upd_Else where "upd_Else f (JSONSchema b ps it an oo al ds pre i th el) = JSONSchema b ps it an oo al ds pre i th (f el)"

definition base_field :: "(schema_base \<Rightarrow> 'a) \<Rightarrow> (('a \<Rightarrow> 'a) \<Rightarrow> schema_base \<Rightarrow> schema_base) \<Rightarrow> 'a decodes \<Rightarrow> JSONSchema decodes" where
  "base_field get upd d = on (\<lambda>s. get (base s)) (\<lambda>f. upd_base (upd f)) d"

text \<open>
  A constant is read by the method of its type (\<open>ConstUnmarshalJSON\<close>), except for \<open>null\<close>, which makes the
  pointer nil without a call of the method. Its failure ends the decoding, and then nothing that was decoded is used.
\<close>

definition dec_const :: "goval option decodes" where
  "dec_const = dec_ptr GNil (\<lambda>j old. if any_ok j then (any_of j, True) else (old, False))"

definition dec_defs :: "'a \<Rightarrow> 'a decodes \<Rightarrow> (string, 'a) gomap decodes" where
  "dec_defs zero d j old = apfst (\<lambda>m. case m of None \<Rightarrow> [] | Some m \<Rightarrow> m) (dec_map zero d j (Some old))"

definition schema_fields :: "JSONSchema decodes \<Rightarrow> JSONSchema fields" where
  "schema_fields sub =
     (let ptr = dec_ptr zero_schema sub in
     [(''type'', base_field sType sType_update dec_string),
      (''properties'', on Properties upd_Properties (dec_map None ptr)),
      (''required'', base_field sRequired sRequired_update (dec_list [] dec_string)),
      (''description'', base_field sDescription sDescription_update dec_string),
      (''title'', base_field sTitle sTitle_update dec_string),
      (''default'', base_field sDefault sDefault_update dec_any),
      (''examples'', base_field sExamples sExamples_update (dec_list GNil dec_any)),
      (''minLength'', base_field sMinLength sMinLength_update (dec_ptr 0 dec_int)),
      (''maxLength'', base_field sMaxLength sMaxLength_update (dec_ptr 0 dec_int)),
      (''pattern'', base_field sPattern sPattern_update dec_string),
      (''minimum'', base_field sMinimum sMinimum_update (dec_ptr (FFin 0) dec_float)),
      (''maximum'', base_field sMaximum sMaximum_update (dec_ptr (FFin 0) dec_float)),
      (''enum'', base_field sEnum sEnum_update (dec_list GNil dec_any)),
      (''items'', on Items upd_Items ptr),
      (''additionalProperties'', base_field sAdditionalProperties sAdditionalProperties_update (dec_ptr False dec_bool)),
      (''anyOf'', on AnyOf upd_AnyOf (dec_list None ptr)),
      (''oneOf'', on OneOf upd_OneOf (dec_list None ptr)),
      (''allOf'', on AllOf upd_AllOf (dec_list None ptr)),
      (''$defs'', on Defs upd_Defs (dec_defs None ptr)),
      (''const'', base_field sConst sConst_update dec_const),
      (''prefixItems'', on PrefixItems upd_PrefixItems (dec_list None ptr)),
      (''if'', on IfS upd_If ptr),
      (''then'', on ThenS upd_Then ptr),
      (''else'', on ElseS upd_Else ptr),
      (''$schema'', base_field sSchema sSchema_update dec_string),
      (''requiresEvidence'', base_field sRequiresEvidence sRequiresEvidence_update (dec_list [] dec_string))])"

text \<open>The recursion follows the depth of the tree.\<close>

fun json_depth :: "json \<Rightarrow> nat" where
  "json_depth (JArr js) = Suc (foldr max (map json_depth js) 0)"
| "json_depth (JObj ms) = Suc (foldr max (map (\<lambda>(k, raw, j). json_depth j) ms) 0)"
| "json_depth _ = 0"

fun dec_schema_upto :: "nat \<Rightarrow> JSONSchema decodes" where
  "dec_schema_upto 0 j s = dec_struct [] j s"
| "dec_schema_upto (Suc n) j s = dec_struct (schema_fields (dec_schema_upto n)) j s"

definition dec_schema :: "JSONSchema decodes" where
  "dec_schema j s = dec_schema_upto (json_depth j) j s"

section \<open>Plans\<close>

definition zero_step :: ExecutionStep where
  "zero_step = \<lparr>stName = [], stType = [], stArguments = None, stStepID = [], stTimeout = 0, stExpectedOutput = [],
     stOutputSchema = None, stParallelizable = False, stParallelGroup = [], stRiskLevel = []\<rparr>"

definition dec_args :: "(arg_heap \<times> ExecutionStep) decodes" where
  "dec_args j st = (case st of (h, s) \<Rightarrow> (case j of
     JNull \<Rightarrow> ((h, s\<lparr>stArguments := None\<rparr>), True)
   | JObj ms \<Rightarrow>
       (case stArguments s of
          None \<Rightarrow> (let (m, ok) = dec_entries GNil dec_any ms [] in ((h @ [m], s\<lparr>stArguments := Some (length h)\<rparr>), ok))
        | Some a \<Rightarrow> (let (m, ok) = dec_entries GNil dec_any ms (h ! a) in ((h[a := m], s), ok)))
   | _ \<Rightarrow> (st, False)))"

definition step_fields :: "(arg_heap \<times> ExecutionStep) fields" where
  "step_fields =
     [(''name'', pure (on stName stName_update dec_string)),
      (''type'', pure (on stType stType_update dec_string)),
      (''arguments'', dec_args),
      (''step_id'', pure (on stStepID stStepID_update dec_string)),
      (''timeout_ms'', pure (on stTimeout stTimeout_update dec_int)),
      (''expected_output'', pure (on stExpectedOutput stExpectedOutput_update dec_string)),
      (''output_schema'', pure (on stOutputSchema stOutputSchema_update (dec_ptr zero_schema dec_schema))),
      (''parallelizable'', pure (on stParallelizable stParallelizable_update dec_bool)),
      (''parallel_group'', pure (on stParallelGroup stParallelGroup_update dec_string)),
      (''risk_level'', pure (on stRiskLevel stRiskLevel_update dec_string))]"

definition dec_steps :: "plan_state decodes" where
  "dec_steps j st =
     (let ((h, ss), ok) = dec_slice zero_step (dec_struct step_fields) j (fst st, plSteps (snd st))
      in ((h, (snd st)\<lparr>plSteps := ss\<rparr>), ok))"

definition plan_fields :: "plan_state fields" where
  "plan_fields =
     [(''id'', pure (on plID plID_update dec_string)),
      (''parent_id'', pure (on plParentID plParentID_update dec_string)),
      (''assistant_id'', pure (on plAssistantID plAssistantID_update dec_string)),
      (''steps'', dec_steps),
      (''reasoning'', pure (on plReasoning plReasoning_update dec_string))]"

definition plan_decoder :: "(string \<Rightarrow> string) \<Rightarrow> decoder" where
  "plan_decoder wording s st =
     (let (st', ok) = unmarshal (dec_struct plan_fields) s st in (st', if ok then None else Some (wording s)))"

section \<open>Parameters of a tool call\<close>

definition param_fields :: "(string \<times> (string, goval) gomap option) fields" where
  "param_fields =
     [(''name'', \<lambda>j p. (case dec_string j (fst p) of (n, ok) \<Rightarrow> ((n, snd p), ok))),
      (''arguments'', pure (dec_map GNil dec_any))]"

definition params_decoder :: "(string \<Rightarrow> string) \<Rightarrow> string \<Rightarrow> string + (string \<times> (string, goval) gomap option)" where
  "params_decoder wording s =
     (let (p, ok) = unmarshal (dec_struct param_fields) s ([], None) in if ok then Inr p else Inl (wording s))"

section \<open>The reader of schemas\<close>

text \<open>
  The depth of the tree is enough fuel: the reader of schemas satisfies the equation of the recursion it bounds, every
  nested schema being read by the reader itself.
\<close>

lemma dec_elems_cong:
  assumes "\<And>j x. j \<in> set js \<Longrightarrow> d j x = d' j x"
  shows "dec_elems zero d js st = dec_elems zero d' js st"
  using assms
proof (induction js arbitrary: st)
  case (Cons j js)
  then show ?case by (cases st) (simp add: Let_def case_prod_beta)
next
  case Nil
  show ?case by (cases st) simp
qed

lemma depth_elem: "j \<in> set js \<Longrightarrow> json_depth j < json_depth (JArr js)"
  using foldr_max_le[of "map json_depth js" "foldr max (map json_depth js) 0"] by (simp add: less_Suc_eq_le)

lemma depth_member: "(k, raw, j) \<in> set ms \<Longrightarrow> json_depth j < json_depth (JObj ms)"
  using foldr_max_le[of "map (\<lambda>(k, raw, j). json_depth j) ms" "foldr max (map (\<lambda>(k, raw, j). json_depth j) ms) 0"]
  by (force simp: less_Suc_eq_le)

lemma dec_list_cong: "(\<And>i x. json_depth i \<le> json_depth j \<Longrightarrow> d i x = d' i x) \<Longrightarrow> dec_list zero d j old = dec_list zero d' j old"
  unfolding dec_list_def dec_slice_def
  by (cases j) (auto simp: pure_def intro!: arg_cong[where f = "apfst snd"] dec_elems_cong dest: depth_elem)

lemma dec_map_cong: "(\<And>i x. json_depth i \<le> json_depth j \<Longrightarrow> d i x = d' i x) \<Longrightarrow> dec_map zero d j old = dec_map zero d' j old"
proof (cases j)
  case (JObj ms)
  assume eq: "\<And>i x. json_depth i \<le> json_depth j \<Longrightarrow> d i x = d' i x"
  have "d i x = d' i x" if "(k, raw, i) \<in> set ms" for k raw i x using eq depth_member[OF that] by (simp add: JObj)
  then have "dec_entries zero d ms m = dec_entries zero d' ms m" for m
    unfolding dec_entries_def by (intro arg_cong2[where f = Pair] fold_cong ball_cong refl) auto
  then show ?thesis by (simp add: dec_map_def JObj)
qed (simp_all add: dec_map_def)

lemma dec_ptr_cong: "d j = d' j \<Longrightarrow> dec_ptr zero d j old = dec_ptr zero d' j old"
  by (cases j) (simp_all add: dec_ptr_def)

lemma on_cong: "(\<And>x. d j x = d' j x) \<Longrightarrow> on get upd d j s = on get upd d' j s"
  by (simp add: on_def)

lemma schema_fields_cong:
  assumes "\<And>i. json_depth i \<le> json_depth j \<Longrightarrow> sub i = sub' i"
  shows "list_all2 (\<lambda>f g. fst f = fst g \<and> snd f j s = snd g j s) (schema_fields sub) (schema_fields sub')"
proof -
  have ptr: "dec_ptr zero_schema sub i x = dec_ptr zero_schema sub' i x" if "json_depth i \<le> json_depth j" for i x
    using assms[OF that] by (rule dec_ptr_cong)
  have "dec_list None (dec_ptr zero_schema sub) j x = dec_list None (dec_ptr zero_schema sub') j x" for x
    using ptr by (rule dec_list_cong)
  moreover have map: "dec_map None (dec_ptr zero_schema sub) j x = dec_map None (dec_ptr zero_schema sub') j x" for x
    using ptr by (rule dec_map_cong)
  moreover have "dec_defs None (dec_ptr zero_schema sub) j x = dec_defs None (dec_ptr zero_schema sub') j x" for x
    using map by (simp add: dec_defs_def)
  ultimately show ?thesis using ptr[of j] by (simp add: schema_fields_def Let_def on_def)
qed

lemma dec_struct_cong:
  assumes "\<And>k raw i s. (k, raw, i) \<in> set ms \<Longrightarrow> list_all2 (\<lambda>f g. fst f = fst g \<and> snd f i s = snd g i s) fs gs"
  shows "dec_struct fs (JObj ms) s = dec_struct gs (JObj ms) s"
proof -
  have find: "rel_option (\<lambda>f g. snd f i s = snd g i s) (find (\<lambda>f. P (fst f)) fs) (find (\<lambda>f. P (fst f)) gs)"
    if "list_all2 (\<lambda>f g. fst f = fst g \<and> snd f i s = snd g i s) fs gs" for i s P
    using that by (induction rule: list_all2_induct) auto
  have "dec_member fs m st = dec_member gs m st" if "m \<in> set ms" for m st
  proof -
    obtain k raw i where m: "m = (k, raw, i)" by (rule prod_cases3)
    note rel = assms[OF that[unfolded m], of "fst st"]
    show ?thesis
      using find[OF rel, of "\<lambda>n. n = k"] find[OF rel, of "\<lambda>n. fold_name n = fold_name k"]
      by (auto simp: m dec_member_def find_field_def case_prod_beta option_rel_Some1 option_rel_Some2 split: option.split)
  qed
  then show ?thesis unfolding dec_struct_Obj by (intro fold_cong) auto
qed

lemma dec_schema_fuel: "json_depth j \<le> n \<Longrightarrow> dec_schema_upto n j = dec_schema j"
proof (induction n arbitrary: j rule: less_induct)
  case (less n)
  show ?case
  proof (cases j)
    case (JObj ms)
    then obtain d m where d: "json_depth j = Suc d" and n: "n = Suc m" using less.prems by (cases n) simp_all
    have "dec_schema_upto m i = dec_schema_upto d i" if "json_depth i \<le> d" for i
      using less.IH[of m i] less.IH[of d i] that less.prems by (simp add: d n)
    moreover have "json_depth i \<le> d" if "(k, raw, i) \<in> set ms" for k raw i using depth_member[OF that] d JObj by simp
    ultimately have "dec_struct (schema_fields (dec_schema_upto m)) j s = dec_struct (schema_fields (dec_schema_upto d)) j s" for s
      unfolding JObj by (intro dec_struct_cong schema_fields_cong) (meson order_trans)
    then show ?thesis by (simp add: fun_eq_iff dec_schema_def d n)
  qed (cases n; auto simp: dec_schema_def dec_struct_def fun_eq_iff)+
qed

theorem dec_schema_rec: "dec_schema j s = dec_struct (schema_fields dec_schema) j s"
proof (cases j)
  case (JObj ms)
  then obtain d where d: "json_depth j = Suc d" by simp
  have "json_depth i \<le> d" if "(k, raw, i) \<in> set ms" for k raw i using depth_member[OF that] d JObj by simp
  then have "dec_struct (schema_fields (dec_schema_upto d)) j s = dec_struct (schema_fields dec_schema) j s"
    unfolding JObj by (intro dec_struct_cong schema_fields_cong dec_schema_fuel) (meson order_trans)
  then show ?thesis by (simp add: dec_schema_def d)
qed (simp_all add: dec_schema_def dec_struct_def)

end
