(* ===== verification/Plan_Json_Properties.thy ===== *)
theory Plan_Json_Properties
  imports Plan_Json
begin

text \<open>
  What reading the program's structs from JSON gives: the plan a model has answered with, in a fence or within prose; the
  arguments a tool is called with; and a schema whose constant is \<open>null\<close>.
\<close>

section \<open>Text of names\<close>

lemma json_chars_Nil [simp]: "json_chars [] = []"
  by (simp add: json_chars.simps)

lemma json_chars_ascii: "(of_char c :: nat) < 128 \<Longrightarrow> json_chars (c # s) = json_ascii c @ json_chars s"
  by (subst json_chars.simps) simp

text \<open>A name of ASCII characters is well formed.\<close>

lemma fix_utf8_name [simp]: "list_all (\<lambda>c. (of_char c :: nat) < 128) k \<Longrightarrow> fix_utf8 k = k"
  by (induction k) (simp_all add: fix_utf8_ascii)

section \<open>Schemas\<close>

lemma const_null_parsed: "parse_json (object_text [(''const'', ''null'')]) = Some (JObj [(''const'', ''null'', JNull)])"
  using parse_marshal[of "object_text [(''const'', ''null'')]" "JObj [(''const'', ''null'', JNull)]"]
    reads_object[of "[(''const'', ''null'', JNull)]" 9999] reads_literal(1)[of 9999] by (simp add: eval_nat_numeral(3)[symmetric])

text \<open>
  A schema read from JSON loses the constant \<open>null\<close>: \<open>{"const": null}\<close> is read without error as the schema without any
  constraint, which accepts every value, although a schema whose constant is \<open>null\<close> refuses everything but \<open>null\<close>.
\<close>

theorem const_null_lost:
  "unmarshal dec_schema (object_text [(''const'', ''null'')]) zero_schema = (zero_schema, True) \<and>
   ValidateValue L v (Some zero_schema) = None \<and>
   (ValidateValue L (GBool b) (Some (scalar_schema (empty_base\<lparr>sConst := Some GNil\<rparr>))) =
      Some (ValidationError [] (MustBe GNil)))"
proof -
  have "dec_schema (JObj [(''const'', ''null'', JNull)]) zero_schema = (zero_schema, True)"
    by (simp add: dec_schema_def dec_struct_Obj dec_member_def find_field_def schema_fields_def Let_def base_field_def on_def
        dec_const_def dec_ptr_def scalar_schema_def empty_base_def)
  then show ?thesis
    by (auto simp: unmarshal_def const_null_parsed ValidateValue_def schema_eval empty_base_def checkHead_def validateConst_def
        jsonEqual_def marshal_bytes_def validateComposition_def)
qed

section \<open>Arguments of a tool call\<close>

lemma dec_any_nil: "dec_any j GNil = (any_of j, any_ok j)"
  by (cases j) (auto simp: dec_any_def split: option.split)

lemma dec_entries_any:
  assumes "any_of (JObj ms) = GMap m"
  shows "dec_entries GNil dec_any ms [] = (m, any_ok (JObj ms))"
proof -
  have "fold (\<lambda>(k, raw, j). gm_put k (fst (dec_any j GNil))) ms [] = m"
    using assms by (simp add: dec_any_nil fold_map comp_def case_prod_unfold)
  then show ?thesis by (auto simp: dec_entries_def dec_any_nil)
qed

definition norm_args :: "(string, goval) gomap \<Rightarrow> (string, goval) gomap" where
  "norm_args m = (case json_norm (GMap m) of GMap m' \<Rightarrow> m' | _ \<Rightarrow> [])"

lemma dec_entries_tree:
  assumes "floats_ok (GMap m)" and "json_marshal L (GMap m) \<noteq> None" and "tree_of L (GMap m) = JObj ms"
  shows "dec_entries GNil dec_any ms [] = (norm_args m, True)"
proof -
  have "any_of (JObj ms) = GMap (norm_args m)" "any_ok (JObj ms)"
    using tree_of_any[OF assms(1,2)] unfolding assms(3) by (simp_all add: norm_args_def)
  then show ?thesis using dec_entries_any by simp
qed

lemma tree_of_map: "\<exists>ms. tree_of L (GMap m) = JObj ms"
  by simp

text \<open>What a tool call that names its tool answers.\<close>

definition call_response :: "ToolProvider \<Rightarrow> JSONRPCRequest \<Rightarrow> string \<Rightarrow> (string, goval) gomap \<Rightarrow> JSONRPCResponse" where
  "call_response pr req n args = rpc_ok req (CallResult (case CallTool pr n args of
     Inl err \<Rightarrow> Some \<lparr>tcrContent = [\<lparr>ciType = ''text'', ciText = err, ciData = [], ciMimeType = [], ciURI = []\<rparr>], tcrIsError = True\<rparr>
   | Inr r \<Rightarrow> r))"

text \<open>C11. 
  A tool is called with the arguments of the request: a \<open>tools/call\<close> request with a name and arguments that JSON can
  express calls that tool with the arguments in JSON's normal form (numbers as floats), and answers with its result.
\<close>

theorem tool_receives_arguments:
  assumes "rqMethod req = ''tools/call''" and "rqParams req = GMap [(''name'', GStr n), (''arguments'', GMap args)]"
    and "n \<noteq> []" and "fix_utf8 n = n"
    and "floats_ok (GMap args)" and "val_depth (GMap args) < 10000" and "json_marshal (go_lib L e) (GMap args) \<noteq> None"
  shows "HandleRequest (go_lib L e) (params_decoder w) pr req = call_response pr req n (norm_args args)"
proof -
  let ?L = "go_lib L e" and ?p = "GMap [(''name'', GStr n), (''arguments'', GMap args)]"
  obtain t where t: "json_marshal ?L (GMap args) = Some t" using assms(7) by blast
  obtain ms where ms: "tree_of ?L (GMap args) = JObj ms" using tree_of_map by blast
  obtain b where b: "json_marshal ?L ?p = Some b" using t by (simp del: json_marshal.simps(7) add: json_marshal.simps(7)[of _ "[_, _]"])
  have "parse_json b = Some (tree_of ?L ?p)"
    using assms(5,6) by (intro parse_marshal marshal_reads[OF _ b]) (simp_all del: val_depth.simps(2) add: val_depth.simps(2)[of "[_, _]"])
  moreover have "tree_of ?L ?p = JObj [(''arguments'', t, JObj ms), (''name'', json_string n, JStr n)]"
    using t ms assms(4) by (subst tree_of.simps) (simp del: json_marshal.simps(7) tree_of.simps(7))
  moreover have "dec_map GNil dec_any (JObj ms) None = (Some (norm_args args), True)"
    using dec_entries_tree[OF assms(5,7) ms] by (simp add: dec_map_def)
  ultimately have "params_decoder w b = Inr (n, Some (norm_args args))"
    by (simp add: params_decoder_def unmarshal_def dec_struct_Obj dec_member_def find_field_def param_fields_def pure_def dec_string_def)
  with b show ?thesis
    unfolding HandleRequest_def handleToolsCall_def assms(1,2) call_response_def using assms(3)
    by (simp add: Let_def split: sum.split del: json_marshal.simps)
qed

definition demo_call :: JSONRPCRequest where
  "demo_call = \<lparr>rqJSONRPC = ''2.0'', rqID = GInt 1, rqMethod = ''tools/call'',
     rqParams = GMap [(''name'', GStr ''t''), (''arguments'', GMap [(''on'', GBool True)])]\<rparr>"

theorem tool_receives_arguments_witness:
  "HandleRequest (go_lib plain_lib id) (params_decoder id) demo_tools demo_call = call_response demo_tools demo_call ''t'' [(''on'', GBool True)]"
proof -
  have "norm_args [(''on'', GBool True)] = [(''on'', GBool True)]" by (simp add: norm_args_def gm_put_def)
  with tool_receives_arguments[of demo_call "''t''" "[(''on'', GBool True)]" plain_lib id id demo_tools] show ?thesis
    by (simp add: demo_call_def)
qed

section \<open>Plans\<close>

text \<open>The members of the JSON text of a struct, each with its text and its tree; empty optional fields are left out.\<close>

type_synonym member = "string \<times> string \<times> json"

definition str_member :: "string \<Rightarrow> string \<Rightarrow> member list" where
  "str_member k v = [(k, json_string v, JStr (fix_utf8 v))]"

definition opt_member :: "string \<Rightarrow> string \<Rightarrow> member list" where
  "opt_member k v = (if v = [] then [] else str_member k v)"

definition args_member :: "stdlib \<Rightarrow> arg_heap \<Rightarrow> ExecutionStep \<Rightarrow> member" where
  "args_member L h s = (''arguments'', case stArguments s of
     None \<Rightarrow> (''null'', JNull)
   | Some a \<Rightarrow> (the (json_marshal L (GMap (h ! a))), tree_of L (GMap (h ! a))))"

definition step_members :: "stdlib \<Rightarrow> arg_heap \<Rightarrow> ExecutionStep \<Rightarrow> member list" where
  "step_members L h s =
     str_member ''name'' (stName s) @ str_member ''type'' (stType s) @ [args_member L h s] @
     opt_member ''step_id'' (stStepID s) @
     (if stTimeout s = 0 then [] else [(''timeout_ms'', show_int (stTimeout s), JNum (int_number (stTimeout s)))]) @
     opt_member ''expected_output'' (stExpectedOutput s) @
     (if stParallelizable s then [(''parallelizable'', ''true'', JBool True)] else []) @
     opt_member ''parallel_group'' (stParallelGroup s) @ opt_member ''risk_level'' (stRiskLevel s)"

definition members_text :: "member list \<Rightarrow> string" where
  "members_text ms = object_text (map (\<lambda>(k, t, j). (k, t)) ms)"

definition members_tree :: "member list \<Rightarrow> json" where
  "members_tree ms = JObj (map (apfst fix_utf8) ms)"

definition steps_member :: "stdlib \<Rightarrow> arg_heap \<Rightarrow> ExecutionStep list \<Rightarrow> member" where
  "steps_member L h ss = (''steps'',
     ''['' @ Join (map (\<lambda>s. members_text (step_members L h s)) ss) '','' @ '']'',
     JArr (map (\<lambda>s. members_tree (step_members L h s)) ss))"

definition plan_members :: "stdlib \<Rightarrow> arg_heap \<Rightarrow> ExecutionPlan \<Rightarrow> member list" where
  "plan_members L h p =
     opt_member ''id'' (plID p) @ opt_member ''parent_id'' (plParentID p) @ str_member ''assistant_id'' (plAssistantID p) @
     [steps_member L h (plSteps p)] @ opt_member ''reasoning'' (plReasoning p)"

definition plan_text :: "stdlib \<Rightarrow> arg_heap \<Rightarrow> ExecutionPlan \<Rightarrow> string" where
  "plan_text L h p = members_text (plan_members L h p)"

text \<open>Plans that JSON can express: well-formed strings, arguments that can be written, timeouts of 64 bits, no output schemas.\<close>

definition args_ok :: "stdlib \<Rightarrow> (string, goval) gomap \<Rightarrow> bool" where
  "args_ok L m \<longleftrightarrow> floats_ok (GMap m) \<and> val_depth (GMap m) \<le> 9997 \<and> json_marshal L (GMap m) \<noteq> None"

definition step_ok :: "stdlib \<Rightarrow> arg_heap \<Rightarrow> ExecutionStep \<Rightarrow> bool" where
  "step_ok L h s \<longleftrightarrow> stOutputSchema s = None \<and> - (2 ^ 63) \<le> stTimeout s \<and> stTimeout s < 2 ^ 63 \<and>
     (\<forall>a. stArguments s = Some a \<longrightarrow> args_ok L (h ! a)) \<and>
     (\<forall>t \<in> {stName s, stType s, stStepID s, stExpectedOutput s, stParallelGroup s, stRiskLevel s}. fix_utf8 t = t)"

definition plan_ok :: "stdlib \<Rightarrow> arg_heap \<Rightarrow> ExecutionPlan \<Rightarrow> bool" where
  "plan_ok L h p \<longleftrightarrow> (\<forall>s \<in> set (plSteps p). step_ok L h s) \<and>
     (\<forall>t \<in> {plID p, plParentID p, plAssistantID p, plReasoning p}. fix_utf8 t = t)"

text \<open>The same steps with argument maps of their own, in normal form, behind what the heap holds already.\<close>

definition place_step :: "arg_heap \<Rightarrow> arg_heap \<Rightarrow> ExecutionStep \<Rightarrow> arg_heap \<times> ExecutionStep" where
  "place_step h h0 s = (case stArguments s of
     None \<Rightarrow> (h0, s)
   | Some a \<Rightarrow> (h0 @ [norm_args (h ! a)], s\<lparr>stArguments := Some (length h0)\<rparr>))"

fun place :: "arg_heap \<Rightarrow> arg_heap \<Rightarrow> ExecutionStep list \<Rightarrow> arg_heap \<times> ExecutionStep list" where
  "place h h0 [] = (h0, [])"
| "place h h0 (s # ss) =
     (let (h1, s1) = place_step h h0 s;
          (h2, ss2) = place h h1 ss
      in (h2, s1 # ss2))"

lemma ParseInt_show: "- (2 ^ 63) \<le> i \<Longrightarrow> i < 2 ^ 63 \<Longrightarrow> ParseInt (int_number i) = Some i"
  by (auto simp: int_number_def Let_def)

lemma fold_opt:
  assumes "find_field fs k = Some (pure (on get upd dec_string))" and "fix_utf8 k = k" and "fix_utf8 v = v"
    and "v = [] \<Longrightarrow> upd (\<lambda>_. []) s = s"
  shows "fold (dec_member fs) (map (apfst fix_utf8) (opt_member k v)) ((h, s), ok) = ((h, upd (\<lambda>_. v) s), ok)"
    and "fold (dec_member fs) (map (apfst fix_utf8) (str_member k v)) ((h, s), ok) = ((h, upd (\<lambda>_. v) s), ok)"
  using assms by (auto simp: opt_member_def str_member_def dec_member_known pure_def on_def dec_string_def)

lemma dec_args_member:
  assumes "\<forall>a. stArguments s = Some a \<longrightarrow> args_ok L (h ! a)" and "stArguments z = None"
  shows "dec_args (snd (snd (args_member L h s))) (h0, z) = (case stArguments s of
     None \<Rightarrow> ((h0, z), True)
   | Some a \<Rightarrow> ((h0 @ [norm_args (h ! a)], z\<lparr>stArguments := Some (length h0)\<rparr>), True))"
proof (cases "stArguments s")
  case None
  then show ?thesis using assms(2) by (simp add: args_member_def dec_args_def)
next
  case (Some a)
  then have ok: "floats_ok (GMap (h ! a))" "json_marshal L (GMap (h ! a)) \<noteq> None" using assms(1) by (auto simp: args_ok_def)
  obtain ms where ms: "tree_of L (GMap (h ! a)) = JObj ms" using tree_of_map by blast
  then show ?thesis using dec_entries_tree[OF ok ms] Some assms(2) by (simp add: args_member_def dec_args_def del: tree_of.simps)
qed

lemma step_find:
  "find_field step_fields ''name'' = Some (pure (on stName stName_update dec_string))"
  "find_field step_fields ''type'' = Some (pure (on stType stType_update dec_string))"
  "find_field step_fields ''step_id'' = Some (pure (on stStepID stStepID_update dec_string))"
  "find_field step_fields ''expected_output'' = Some (pure (on stExpectedOutput stExpectedOutput_update dec_string))"
  "find_field step_fields ''parallel_group'' = Some (pure (on stParallelGroup stParallelGroup_update dec_string))"
  "find_field step_fields ''risk_level'' = Some (pure (on stRiskLevel stRiskLevel_update dec_string))"
  "find_field step_fields ''arguments'' = Some dec_args"
  "find_field step_fields ''timeout_ms'' = Some (pure (on stTimeout stTimeout_update dec_int))"
  "find_field step_fields ''parallelizable'' = Some (pure (on stParallelizable stParallelizable_update dec_bool))"
  by (simp_all add: find_field_def step_fields_def)

lemma plan_find:
  "find_field plan_fields ''id'' = Some (pure (on plID plID_update dec_string))"
  "find_field plan_fields ''parent_id'' = Some (pure (on plParentID plParentID_update dec_string))"
  "find_field plan_fields ''assistant_id'' = Some (pure (on plAssistantID plAssistantID_update dec_string))"
  "find_field plan_fields ''reasoning'' = Some (pure (on plReasoning plReasoning_update dec_string))"
  "find_field plan_fields ''steps'' = Some dec_steps"
  by (simp_all add: find_field_def plan_fields_def)

abbreviation read_members :: "'s fields \<Rightarrow> member list \<Rightarrow> 's \<times> bool \<Rightarrow> 's \<times> bool" where
  "read_members fs ms \<equiv> fold (dec_member fs) (map (apfst fix_utf8) ms)"

lemma read_args:
  assumes "\<forall>a. stArguments s = Some a \<longrightarrow> args_ok L (h ! a)" and "stArguments z = None"
  shows "read_members step_fields [args_member L h s] ((h0, z), ok) = (case stArguments s of
     None \<Rightarrow> ((h0, z), ok)
   | Some a \<Rightarrow> ((h0 @ [norm_args (h ! a)], z\<lparr>stArguments := Some (length h0)\<rparr>), ok))"
proof -
  obtain t j where m: "args_member L h s = (''arguments'', t, j)" by (cases "args_member L h s") (simp add: args_member_def)
  then show ?thesis
    using dec_args_member[OF assms, of h0] by (simp add: dec_member_known[OF step_find(7)] split: option.split)
qed

lemma read_timeout:
  "- (2 ^ 63) \<le> i \<Longrightarrow> i < 2 ^ 63 \<Longrightarrow> stTimeout z = 0 \<Longrightarrow>
   read_members step_fields (if i = 0 then [] else [(''timeout_ms'', show_int i, JNum (int_number i))]) ((h0, z), ok) =
     ((h0, z\<lparr>stTimeout := i\<rparr>), ok)"
  by (auto simp: dec_member_known[OF step_find(8)] pure_def on_def dec_int_def ParseInt_show)

lemma read_parallelizable:
  "\<not> stParallelizable z \<Longrightarrow>
   read_members step_fields (if b then [(''parallelizable'', ''true'', JBool True)] else []) ((h0, z), ok) =
     ((h0, z\<lparr>stParallelizable := b\<rparr>), ok)"
  by (auto simp: dec_member_known[OF step_find(9)] pure_def on_def dec_bool_def)

lemma dec_step:
  assumes "step_ok L h s"
  shows "dec_struct step_fields (members_tree (step_members L h s)) (h0, zero_step) = (place_step h h0 s, True)"
proof -
  note ok = assms[unfolded step_ok_def]
  have args: "\<forall>a. stArguments s = Some a \<longrightarrow> args_ok L (h ! a)" using ok by blast
  have fixed: "fix_utf8 (stName s) = stName s" "fix_utf8 (stType s) = stType s" "fix_utf8 (stStepID s) = stStepID s"
    "fix_utf8 (stExpectedOutput s) = stExpectedOutput s" "fix_utf8 (stParallelGroup s) = stParallelGroup s"
    "fix_utf8 (stRiskLevel s) = stRiskLevel s" and int: "- (2 ^ 63) \<le> stTimeout s" "stTimeout s < 2 ^ 63" "stOutputSchema s = None"
    using ok by auto
  note reads = fold_opt[OF step_find(1) _ fixed(1)] fold_opt[OF step_find(2) _ fixed(2)] fold_opt[OF step_find(3) _ fixed(3)]
    fold_opt[OF step_find(4) _ fixed(4)] fold_opt[OF step_find(5) _ fixed(5)] fold_opt[OF step_find(6) _ fixed(6)]
    read_args[OF args] read_timeout[OF int(1,2)] read_parallelizable
  show ?thesis
    unfolding members_tree_def dec_struct_Obj step_members_def map_append fold_append comp_def
    by (cases "stArguments s") (simp_all add: reads zero_step_def place_step_def int(3) del: list.map fold.simps split del: if_split)
qed

lemma dec_step_elems:
  assumes "\<forall>s \<in> set ss. step_ok L h s"
  shows "dec_elems zero_step (dec_struct step_fields) (map (\<lambda>s. members_tree (step_members L h s)) ss) (h0, []) = (place h h0 ss, True)"
  using assms by (induction ss arbitrary: h0) (auto simp: dec_step Let_def split: prod.split)

lemma dec_plan:
  assumes "plan_ok L h p"
  shows "dec_struct plan_fields (members_tree (plan_members L h p)) (h0, zero_plan) =
    ((fst (place h h0 (plSteps p)), p\<lparr>plSteps := snd (place h h0 (plSteps p)), plfrozen := False\<rparr>), True)"
proof -
  note ok = assms[unfolded plan_ok_def]
  have fixed: "fix_utf8 (plID p) = plID p" "fix_utf8 (plParentID p) = plParentID p" "fix_utf8 (plAssistantID p) = plAssistantID p"
    "fix_utf8 (plReasoning p) = plReasoning p" using ok by auto
  have steps: "read_members plan_fields [steps_member L h (plSteps p)] ((h0, z), b) =
      ((fst (place h h0 (plSteps p)), z\<lparr>plSteps := snd (place h h0 (plSteps p))\<rparr>), b)" if "plSteps z = []" for z b
    using ok dec_step_elems[of "plSteps p" L h h0] that
    by (simp add: steps_member_def dec_member_known[OF plan_find(5)] dec_steps_def dec_slice_def case_prod_beta)
  note reads = fold_opt[OF plan_find(1) _ fixed(1)] fold_opt[OF plan_find(2) _ fixed(2)] fold_opt[OF plan_find(3) _ fixed(3)]
    fold_opt[OF plan_find(4) _ fixed(4)] steps
  show ?thesis
    unfolding members_tree_def dec_struct_Obj plan_members_def map_append fold_append comp_def
    by (simp add: reads zero_plan_def del: list.map fold.simps)
qed

text \<open>The text reads as the tree.\<close>

lemma members_read: "\<forall>(k, t, j) \<in> set ms. reads_as n t j \<Longrightarrow> reads_as (Suc n) (members_text ms) (members_tree ms)"
  using reads_object[of ms n] unfolding members_text_def members_tree_def by (simp add: apfst_def map_prod_def)

lemma member_reads:
  "\<forall>(k, t, j) \<in> set (str_member k v). reads_as n t j" "\<forall>(k, t, j) \<in> set (opt_member k v). reads_as n t j"
  by (simp_all add: str_member_def opt_member_def reads_string)

lemma step_reads:
  assumes "json_float L = marshal_float" and "step_ok L h s"
  shows "reads_as 9998 (members_text (step_members L h s)) (members_tree (step_members L h s))"
proof -
  have "reads_as 9997 t j" if "args_member L h s = (k, t, j)" for k t j
  proof (cases "stArguments s")
    case None
    with that show ?thesis by (auto simp: args_member_def reads_literal)
  next
    case (Some a)
    then have "args_ok L (h ! a)" using assms(2) by (auto simp: step_ok_def)
    then obtain t' where "json_marshal L (GMap (h ! a)) = Some t'" "floats_ok (GMap (h ! a))" "val_depth (GMap (h ! a)) \<le> 9997"
      by (auto simp: args_ok_def simp del: json_marshal.simps val_depth.simps floats_ok.simps)
    with marshal_reads[OF assms(1) this] that Some show ?thesis
      by (auto simp: args_member_def simp del: json_marshal.simps tree_of.simps)
  qed
  moreover have "reads_as 9997 (show_int i) (JNum (int_number i))" for i
    unfolding show_int_text by (rule reads_number) (rule int_number_ok)
  moreover obtain k t j where "args_member L h s = (k, t, j)" by (rule prod_cases3)
  ultimately have "\<forall>(k, t, j) \<in> set (step_members L h s). reads_as 9997 t j"
    unfolding step_members_def set_append ball_Un by (simp add: member_reads reads_literal(2))
  from members_read[OF this] show ?thesis by simp
qed

lemma plan_reads:
  assumes "json_float L = marshal_float" and "plan_ok L h p"
  shows "parse_json (plan_text L h p) = Some (members_tree (plan_members L h p))"
proof -
  have "list_all2 (reads_as 9998) (map (\<lambda>s. members_text (step_members L h s)) (plSteps p)) (map (\<lambda>s. members_tree (step_members L h s)) (plSteps p))"
    using assms step_reads unfolding list_all2_map1 list_all2_map2 list_all2_same plan_ok_def by blast
  from reads_list[OF this] have "\<forall>(k, t, j) \<in> set [steps_member L h (plSteps p)]. reads_as 9999 t j" by (simp add: steps_member_def)
  then have "\<forall>(k, t, j) \<in> set (plan_members L h p). reads_as 9999 t j"
    unfolding plan_members_def set_append ball_Un by (simp add: member_reads)
  from members_read[OF this] show ?thesis unfolding plan_text_def by (intro parse_marshal) simp
qed

section \<open>The answer of a model\<close>

lemma space_runes_invisible: "r \<in> set space_runes \<Longrightarrow> c \<in> set r \<Longrightarrow> \<not> visible c"
proof -
  have "list_all (list_all (\<lambda>c. \<not> visible c)) space_runes" by (simp add: space_runes_eq visible_def)
  then show "r \<in> set space_runes \<Longrightarrow> c \<in> set r \<Longrightarrow> \<not> visible c" by (auto simp: list_all_iff)
qed

lemma TrimRightSpace_invisible: "\<exists>b. s = TrimRightSpace s @ b \<and> (\<forall>c \<in> set b. \<not> visible c)"
proof (induction s rule: TrimRightSpace.induct)
  case (1 s)
  show ?case
  proof (cases "strip_space_rune_end s")
    case (Some t)
    then obtain r where r: "s = t @ r" "r \<in> set space_runes"
      by (auto simp: strip_space_rune_end_def find_Some_iff HasSuffix_iff)
    obtain b where "t = TrimRightSpace t @ b" "\<forall>c \<in> set b. \<not> visible c" using 1[OF Some] by blast
    moreover have "TrimRightSpace s = TrimRightSpace t" using Some by (simp add: TrimRightSpace.simps[of s])
    ultimately show ?thesis using r space_runes_invisible[OF r(2)] by (intro exI[of _ "b @ r"]) auto
  qed (simp add: TrimRightSpace.simps[of s])
qed

lemma TrimRightSpace_keeps:
  assumes "visible c"
  obtains post' where "TrimRightSpace (x @ c # post) = x @ c # post'" and "set post' \<subseteq> set post"
proof -
  obtain b where b: "x @ c # post = TrimRightSpace (x @ c # post) @ b" "\<forall>d \<in> set b. \<not> visible d"
    using TrimRightSpace_invisible by blast
  let ?T = "TrimRightSpace (x @ c # post)"
  have "length x < length ?T"
  proof (rule ccontr)
    assume short: "\<not> length x < length ?T"
    have "c = (?T @ b) ! length x" using b(1)[symmetric] by simp
    then have "c = b ! (length x - length ?T)" using short by (simp add: nth_append)
    moreover have "length x - length ?T < length b" using arg_cong[OF b(1), of length] short by simp
    ultimately show False using b(2) assms by (metis nth_mem)
  qed
  then obtain n where n: "length ?T - length x = Suc n" by (cases "length ?T - length x") simp_all
  have "?T = take (length ?T) (x @ c # post)" using arg_cong[OF b(1), of "take (length ?T)"] by simp
  then have "?T = x @ c # take n post" using \<open>length x < length ?T\<close> n by simp
  then show thesis using that set_take_subset by metis
qed

lemma TrimRightSpace_newline: "TrimRightSpace (s @ [CHR 0x0A]) = TrimRightSpace s"
  by (subst TrimRightSpace.simps) (simp add: strip_space_rune_end_def space_runes_eq HasSuffix_def)

text \<open>The text of an object, and what may stand before one without being JSON.\<close>

definition braced :: "string \<Rightarrow> bool" where
  "braced t \<longleftrightarrow> (\<exists>u. t = CHR ''{'' # u @ [CHR ''}''])"

definition prose_start :: "char \<Rightarrow> bool" where
  "prose_start c \<longleftrightarrow> visible c \<and> \<not> is_digit c \<and> c \<notin> {CHR 0x60, CHR 0x22, CHR ''['', CHR ''{'', CHR ''-'', CHR ''n'', CHR ''t'', CHR ''f''}"

lemma prose_number: "prose_start c \<Longrightarrow> read_number (c # s) = None"
proof -
  assume c: "prose_start c"
  have "is_digit (CHR ''0'')" by (simp add: is_digit_def)
  moreover have "\<not> is_digit c" "c \<noteq> CHR ''-''" using c unfolding prose_start_def by blast+
  ultimately have "\<not> is_digit c" "c \<noteq> CHR ''-''" "c \<noteq> CHR ''0''" by metis+
  then show ?thesis by (simp add: read_number_def read_whole_def read_digits1_def)
qed

lemma prose_scalar: "prose_start c \<Longrightarrow> read_scalar (c # s) = None"
proof -
  assume c: "prose_start c"
  then have "c \<noteq> CHR 0x22" "c \<noteq> CHR ''n''" "c \<noteq> CHR ''t''" "c \<noteq> CHR ''f''" unfolding prose_start_def by blast+
  then show ?thesis using prose_number[OF c] by (simp add: read_scalar_def HasPrefix_iff)
qed

lemma parse_prose: "prose_start c \<Longrightarrow> parse_json (c # s) = None"
proof -
  assume c: "prose_start c"
  have "json_space c \<Longrightarrow> \<not> visible c" by (elim json_space_def[THEN iffD1, elim_format] insertE emptyE) (simp_all add: visible_def)
  then have "\<not> json_space c" using c unfolding prose_start_def by blast
  then have "skip_space (c # s) = c # s" by (simp add: skip_space_def)
  moreover have "read_value 10000 (c # s) = read_scalar (c # s)" by (rule read_value_scalar) (use c in \<open>unfold prose_start_def, blast\<close>)
  ultimately show ?thesis using prose_scalar[OF c] by (simp add: parse_json_def)
qed

lemma visible_braces: "visible (CHR ''{'')" "visible (CHR ''}'')" "visible (CHR 0x60)"
  by (simp_all add: visible_def)

lemma fence_snoc: "fence = [CHR 0x60, CHR 0x60] @ [CHR 0x60]" "fence = CHR 0x60 # [CHR 0x60, CHR 0x60]"
  by (simp_all add: fence_def numeral_3_eq_3)

lemma no_fence:
  "c \<noteq> CHR 0x60 \<Longrightarrow> TrimSuffix (s @ [c]) fence = s @ [c]" "c \<noteq> CHR 0x60 \<Longrightarrow> TrimPrefix (c # s) (fence @ u) = c # s"
  by (auto simp: TrimSuffix_def HasSuffix_iff TrimPrefix_def HasPrefix_iff fence_snoc(1) simp flip: append_assoc)

lemma strip_fences_braced: "braced t \<Longrightarrow> strip_fences t = t"
  using no_fence(1)[of "CHR ''}''" "CHR ''{'' # u" for u] no_fence(2)[of "CHR ''{''" _ "[]"]
  by (auto simp: braced_def strip_fences_def TrimSpace_visible visible_braces no_fence)

lemma extract_within:
  assumes "braced t" and "CHR ''{'' \<notin> set pre" and "CHR ''}'' \<notin> set post"
  shows "extract_object (pre @ t @ post) = Some t"
proof -
  obtain u where t: "t = CHR ''{'' # u @ [CHR ''}'']" using assms(1) by (auto simp: braced_def)
  have "dropWhile (\<lambda>c. c \<noteq> CHR ''{'') (pre @ t @ post) = t @ post"
    using assms(2) by (subst dropWhile_append2) (auto simp: t)
  moreover have "dropWhile (\<lambda>c. c \<noteq> CHR ''}'') (rev (t @ post)) = rev t"
    using assms(3) by (simp only: rev_append) (subst dropWhile_append2, auto simp: t)
  ultimately show ?thesis by (simp add: extract_object_def Let_def) (simp add: t)
qed

lemma strip_fences_fenced:
  assumes "braced t" and "tag \<in> {[], ''json''}"
  shows "strip_fences (fence @ tag @ CHR 0x0A # t @ CHR 0x0A # fence) = t"
proof -
  obtain u where t: "t = CHR ''{'' # u @ [CHR ''}'']" using assms(1) by (auto simp: braced_def)
  have whole: "TrimSpace (fence @ v @ fence) = fence @ v @ fence" for v
    by (rule TrimSpace_visible) (simp_all add: fence_snoc(2) visible_braces)
  have inner: "TrimSpace (CHR 0x0A # t @ [CHR 0x0A]) = t"
  proof -
    have "TrimLeftSpace (CHR 0x0A # t @ [CHR 0x0A]) = t @ [CHR 0x0A]" by (simp add: TrimLeftSpace_Cons t TrimLeftSpace_visible visible_braces)
    then show ?thesis by (simp only: TrimSpace_def TrimRightSpace_newline) (rule TrimRightSpace_visible, simp_all add: t visible_braces)
  qed
  let ?rest = "CHR 0x0A # t @ CHR 0x0A # fence"
  have "TrimPrefix (TrimPrefix (fence @ tag @ ?rest) (fence @ ''json'')) fence = ?rest"
    using assms(2)
  proof (elim insertE emptyE)
    assume tag: "tag = []"
    have "TrimPrefix (fence @ tag @ ?rest) (fence @ ''json'') = fence @ ?rest" by (simp add: tag TrimPrefix_def HasPrefix_iff)
    then show ?thesis by simp
  next
    assume tag: "tag = ''json''"
    have "TrimPrefix (fence @ tag @ ?rest) (fence @ ''json'') = ?rest"
      using TrimPrefix_append[of "fence @ ''json''" ?rest] by (simp add: tag)
    then show ?thesis using no_fence(2)[of "CHR 0x0A" _ "[]"] by simp
  qed
  moreover have "TrimSuffix ?rest fence = CHR 0x0A # t @ [CHR 0x0A]" using TrimSuffix_append[of "CHR 0x0A # t @ [CHR 0x0A]" fence] by simp
  ultimately show ?thesis
    unfolding strip_fences_def using whole[of "tag @ CHR 0x0A # t @ [CHR 0x0A]"] inner by simp
qed

lemma before_suffix: "y @ a # p = x @ z \<Longrightarrow> a \<notin> set z \<Longrightarrow> \<exists>q. x = y @ a # q \<and> p = q @ z"
  by (auto simp: append_eq_append_conv2 Cons_eq_append_conv)

lemma strip_fences_prose:
  assumes "braced t" and "prose_start c"
  obtains post' where "strip_fences (c # pre @ t @ post) = c # pre @ t @ post'" and "set post' \<subseteq> set post"
proof -
  obtain u where t: "t = CHR ''{'' # u @ [CHR ''}'']" using assms(1) by (auto simp: braced_def)
  have c: "visible c" "c \<noteq> CHR 0x60" using assms(2) unfolding prose_start_def by blast+
  have trim: "\<exists>post'. TrimSpace (c # pre @ t @ post) = c # pre @ t @ post' \<and> set post' \<subseteq> set post" for post
  proof -
    obtain post' where "TrimRightSpace ((c # pre @ CHR ''{'' # u) @ CHR ''}'' # post) = (c # pre @ CHR ''{'' # u) @ CHR ''}'' # post'"
      "set post' \<subseteq> set post" using visible_braces(2) by (rule TrimRightSpace_keeps)
    then show ?thesis using c by (intro exI[of _ post']) (simp add: TrimSpace_def TrimLeftSpace_visible t)
  qed
  obtain p1 where p1: "TrimSpace (c # pre @ t @ post) = c # pre @ t @ p1" "set p1 \<subseteq> set post" using trim by blast
  have "\<exists>p2. TrimSuffix (c # pre @ t @ p1) fence = c # pre @ t @ p2 \<and> set p2 \<subseteq> set p1"
  proof (cases "HasSuffix (c # pre @ t @ p1) fence")
    case True
    then obtain x where x: "(c # pre @ CHR ''{'' # u) @ CHR ''}'' # p1 = x @ fence" by (auto simp: HasSuffix_iff t)
    have "CHR ''}'' \<notin> set fence" by (simp add: fence_def)
    with before_suffix[OF x] obtain p2 where "x = (c # pre @ CHR ''{'' # u) @ CHR ''}'' # p2" "p1 = p2 @ fence" by blast
    then show ?thesis using TrimSuffix_append[of x fence] by (intro exI[of _ p2]) (simp add: t)
  qed (auto simp: TrimSuffix_def)
  then obtain p2 where p2: "TrimSuffix (c # pre @ t @ p1) fence = c # pre @ t @ p2" "set p2 \<subseteq> set p1" by blast
  obtain p3 where p3: "TrimSpace (c # pre @ t @ p2) = c # pre @ t @ p3" "set p3 \<subseteq> set p2" using trim by blast
  have "strip_fences (c # pre @ t @ post) = c # pre @ t @ p3"
    unfolding strip_fences_def p1(1) using no_fence(2)[OF c(2), of _ "[]"] no_fence(2)[OF c(2), of _ "''json''"] p2(1) p3(1) by simp
  then show thesis using that p1(2) p2(2) p3(2) by blast
qed

text \<open>The ways a model wraps its answer: not at all, in a fence with or without a language tag, or in prose without braces.\<close>

definition wrapped :: "string \<Rightarrow> string \<Rightarrow> bool" where
  "wrapped t r \<longleftrightarrow> r = t \<or>
     (\<exists>tag \<in> {[], ''json''}. r = fence @ tag @ CHR 0x0A # t @ CHR 0x0A # fence) \<or>
     (\<exists>c pre post. r = c # pre @ t @ post \<and> prose_start c \<and> CHR ''{'' \<notin> set pre \<and> CHR ''}'' \<notin> set post)"

lemma parse_wrapped:
  assumes "braced t" and "wrapped t r" and "decode t (h, zero_plan) = (st, None)" and "\<And>s u. parse_json u = None \<Longrightarrow> decode u s = (s, Some (w u))"
  shows "parseResponse decode h r = (fst st, Inr (snd st))"
proof -
  consider "strip_fences r = t"
    | c pre post where "strip_fences r = c # pre @ t @ post" "prose_start c" "CHR ''{'' \<notin> set pre" "CHR ''}'' \<notin> set post"
    using assms(2) strip_fences_braced[OF assms(1)] strip_fences_fenced[OF assms(1)] strip_fences_prose[OF assms(1)]
    unfolding wrapped_def by (metis subsetD)
  then show ?thesis
  proof cases
    case 1
    then show ?thesis using assms(3) by (simp add: parseResponse_def case_prod_beta)
  next
    case 2
    have "CHR ''{'' \<notin> set (c # pre)" using 2(2,3) unfolding prose_start_def by auto
    from extract_within[OF assms(1) this 2(4)] have "extract_object (c # pre @ t @ post) = Some t" by simp
    moreover have "decode (c # pre @ t @ post) s = (s, Some (w (c # pre @ t @ post)))" for s
      using assms(4) parse_prose[OF 2(2)] by blast
    ultimately show ?thesis using assms(3) by (simp add: parseResponse_def 2(1) case_prod_beta)
  qed
qed

lemma plan_answer_parsed:
  assumes "plan_ok (go_lib L e) h p" and "wrapped (plan_text (go_lib L e) h p) r"
  shows "parseResponse (plan_decoder w) h0 r =
    (fst (place h h0 (plSteps p)), Inr (p\<lparr>plSteps := snd (place h h0 (plSteps p)), plfrozen := False\<rparr>))"
proof -
  let ?t = "plan_text (go_lib L e) h p"
  have "braced ?t" by (auto simp: braced_def plan_text_def members_text_def object_text_def)
  moreover have parsed: "parse_json ?t = Some (members_tree (plan_members (go_lib L e) h p))"
    using assms(1) by (intro plan_reads) simp_all
  moreover have "plan_decoder w ?t (h0, zero_plan) =
      ((fst (place h h0 (plSteps p)), p\<lparr>plSteps := snd (place h h0 (plSteps p)), plfrozen := False\<rparr>), None)"
    using dec_plan[OF assms(1), of h0] by (simp add: plan_decoder_def unmarshal_def parsed)
  moreover have "plan_decoder w u s = (s, Some (w u))" if "parse_json u = None" for u s
    using that by (simp add: plan_decoder_def unmarshal_def)
  ultimately show ?thesis using parse_wrapped[OF _ assms(2)] by simp
qed

text \<open>C7. 
  The plan a model answers with is the plan that is read: whether the JSON text of a plan stands alone, in a Markdown
  fence or in prose without braces, \<open>parseResponse\<close> returns exactly that plan, unfrozen, with the arguments of its steps in
  JSON's normal form in maps of their own, and leaves all other maps alone.
\<close>

theorem plan_answer_read:
  assumes "plan_ok (go_lib L e) h p" and "wrapped (plan_text (go_lib L e) h p) r"
  shows "parseResponse (plan_decoder w) h0 r =
    (fst (place h h0 (plSteps p)), Inr (p\<lparr>plSteps := snd (place h h0 (plSteps p)), plfrozen := False\<rparr>))"
  using assms by (rule plan_answer_parsed)

definition demo_answer :: string where
  "demo_answer = ''Plan: '' @ plan_text (go_lib plain_lib id) [[(''on'', GBool True)]] demo_plan @ ''.''"

theorem plan_answer_read_witness:
  "parseResponse (plan_decoder id) [] demo_answer = ([[(''on'', GBool True)]], Inr demo_plan)"
proof -
  have "plan_ok (go_lib plain_lib id) [[(''on'', GBool True)]] demo_plan"
    by (simp add: plan_ok_def demo_plan_def demo_step_def step_ok_def args_ok_def)
  moreover have "wrapped (plan_text (go_lib plain_lib id) [[(''on'', GBool True)]] demo_plan) demo_answer"
    unfolding wrapped_def demo_answer_def prose_start_def
    by (intro disjI2 exI[of _ "CHR ''P''"] exI[of _ "''lan: ''"] exI[of _ "''.''"]) (simp add: visible_def is_digit_def)
  moreover have "place [[(''on'', GBool True)]] [] (plSteps demo_plan) = ([[(''on'', GBool True)]], plSteps demo_plan)"
    by (simp add: demo_plan_def demo_step_def place_step_def norm_args_def gm_put_def)
  ultimately show ?thesis using plan_answer_read[of plain_lib id "[[(''on'', GBool True)]]" demo_plan demo_answer id "[]"]
    by (simp add: demo_plan_def)
qed

lemma place_shape: "map stName (snd (place h h0 ss)) = map stName ss \<and> map stType (snd (place h h0 ss)) = map stType ss"
proof (induction ss arbitrary: h0)
  case (Cons s ss)
  have "stName (snd (place_step h h0 s)) = stName s" "stType (snd (place_step h h0 s)) = stType s"
    by (simp_all add: place_step_def split: option.split)
  with Cons[of "fst (place_step h h0 s)"] show ?case by (simp add: case_prod_beta Let_def)
qed simp

text \<open>The assistant of a plan that names none is the one of the request.\<close>

definition owned :: "PlannerContext \<Rightarrow> ExecutionPlan \<Rightarrow> ExecutionPlan" where
  "owned pCtx p = (if plAssistantID p = [] then p\<lparr>plAssistantID := pcAssistantID pCtx\<rparr> else p)"

text \<open>
  A good answer is delivered: when the model of the chosen provider answers a planning round with the text of a plan, alone,
  fenced or in prose, and that plan keeps the limits, \<open>Plan\<close> returns it, with the assistant of the request if it names none.
\<close>

lemma Plan_delivers_answer:
  assumes "pcSkills pCtx \<noteq> []" and "buildPrompt tmpl pCtx = Some prompt"
    and "Route (lpRouter lp) [''text_generation''] no_constraints = Inr provider"
    and "ask_model plan_config provider (pcProgressFn pCtx) (build_request pCtx prompt) = (tr, Inr r)"
    and "plan_ok (go_lib L e) h p" and "wrapped (plan_text (go_lib L e) h p) r"
    and "plSteps p = [] \<or> within_limits (lpLimits lp) (owned pCtx p)"
  shows "Plan tmpl (plan_decoder w) lp h0 pCtx =
    (fst (place h h0 (plSteps p)), tr, Inr ((owned pCtx p)\<lparr>plSteps := snd (place h h0 (plSteps p)), plfrozen := False\<rparr>))"
proof -
  let ?p = "p\<lparr>plSteps := snd (place h h0 (plSteps p)), plfrozen := False\<rparr>"
  let ?q = "(owned pCtx p)\<lparr>plSteps := snd (place h h0 (plSteps p)), plfrozen := False\<rparr>"
  have "llmPlanRound (plan_decoder w) (lpRouter lp) h0 pCtx prompt plan_config = (fst (place h h0 (plSteps p)), tr, Inr ?q)"
    using plan_answer_parsed[OF assms(5,6), of w h0] by (simp add: llmPlanRound_def assms(3,4) owned_def)
  moreover have "ValidatorValidate (lpLimits lp) (Some ?q) = None" if "snd (place h h0 (plSteps p)) \<noteq> []"
  proof -
    have "plSteps p \<noteq> []" using that by auto
    then have "within_limits (lpLimits lp) (owned pCtx p)" using assms(7) by simp
    moreover have "plSteps (owned pCtx p) = plSteps p" by (simp add: owned_def)
    ultimately show ?thesis
      unfolding ValidatorValidate_None using place_shape[of h h0 "plSteps p"] by (intro limits_by_shape[of ?q "owned pCtx p"]) simp_all
  qed
  ultimately show ?thesis using assms(1) by (simp add: Plan_def assms(2))
qed

end
