(* ===== verification/Wire_Json.thy ===== *)
theory Wire_Json
  imports Plan_Json_Properties Provider_Chain
begin

text \<open>
  The JSON of the OpenAI-compatible protocol (\<open>ai/providers/providers.go\<close>, \<open>streaming.go\<close>): the readers of its responses
  and of the events of its streams, field by field, and what follows for planning: a plan is read off the bytes of the
  stream, and an error that a backend reports within a stream is not seen.
\<close>

section \<open>Readers\<close>

text \<open>A field the program has in its struct and never reads: only a mismatch of types counts.\<close>

definition ignored :: "'a \<Rightarrow> 'a decodes \<Rightarrow> 's decodes" where
  "ignored zero d j s = (s, snd (d j zero))"

definition usage_fields :: "TokenUsage fields" where
  "usage_fields =
     [(''prompt_tokens'', on tuPromptTokens tuPromptTokens_update dec_int),
      (''completion_tokens'', on tuCompletionTokens tuCompletionTokens_update dec_int),
      (''total_tokens'', on tuTotalTokens tuTotalTokens_update dec_int)]"

definition zero_delta :: toolCallDelta where
  "zero_delta = \<lparr>dlIndex = 0, dlID = [], dlName = [], dlArguments = []\<rparr>"

definition delta_function_fields :: "toolCallDelta fields" where
  "delta_function_fields =
     [(''name'', on dlName dlName_update dec_string), (''arguments'', on dlArguments dlArguments_update dec_string)]"

definition delta_call_fields :: "toolCallDelta fields" where
  "delta_call_fields =
     [(''index'', on dlIndex dlIndex_update dec_int), (''id'', on dlID dlID_update dec_string),
      (''type'', ignored [] dec_string), (''function'', dec_struct delta_function_fields)]"

definition delta_fields :: "streamChoice fields" where
  "delta_fields =
     [(''role'', ignored [] dec_string), (''content'', on soContent soContent_update dec_string),
      (''tool_calls'', on soToolCalls soToolCalls_update (dec_list zero_delta (dec_struct delta_call_fields)))]"

definition stream_choice_fields :: "streamChoice fields" where
  "stream_choice_fields =
     [(''delta'', dec_struct delta_fields),
      (''finish_reason'', on soFinishReason soFinishReason_update (dec_ptr [] dec_string))]"

definition zero_stream_choice :: streamChoice where
  "zero_stream_choice = \<lparr>soContent = [], soToolCalls = [], soFinishReason = None\<rparr>"

definition chunk_fields :: "streamChunk fields" where
  "chunk_fields =
     [(''choices'', on stChoices stChoices_update (dec_list zero_stream_choice (dec_struct stream_choice_fields))),
      (''usage'', on stUsage stUsage_update (dec_ptr zero_usage (dec_struct usage_fields)))]"

definition zero_chunk :: streamChunk where
  "zero_chunk = \<lparr>stChoices = [], stUsage = None\<rparr>"

definition chunk_decoder :: "(string \<Rightarrow> string) \<Rightarrow> string \<Rightarrow> string + streamChunk" where
  "chunk_decoder wording s =
     (let (c, ok) = unmarshal (dec_struct chunk_fields) s zero_chunk in if ok then Inr c else Inl (wording s))"

definition zero_call :: chatToolCall where
  "zero_call = \<lparr>ccID = [], ccName = [], ccArguments = []\<rparr>"

definition chat_function_fields :: "chatToolCall fields" where
  "chat_function_fields =
     [(''name'', on ccName ccName_update dec_string), (''arguments'', on ccArguments ccArguments_update dec_string)]"

definition chat_call_fields :: "chatToolCall fields" where
  "chat_call_fields =
     [(''id'', on ccID ccID_update dec_string), (''type'', ignored [] dec_string),
      (''function'', dec_struct chat_function_fields)]"

definition chat_message_fields :: "chatChoice fields" where
  "chat_message_fields =
     [(''role'', ignored [] dec_string), (''content'', on chContent chContent_update dec_string),
      (''reasoning_content'', on chReasoningContent chReasoningContent_update dec_string),
      (''tool_calls'', on chToolCalls chToolCalls_update (dec_list zero_call (dec_struct chat_call_fields)))]"

definition chat_choice_fields :: "chatChoice fields" where
  "chat_choice_fields =
     [(''message'', dec_struct chat_message_fields), (''finish_reason'', on chFinishReason chFinishReason_update dec_string)]"

definition zero_chat_choice :: chatChoice where
  "zero_chat_choice = \<lparr>chContent = [], chReasoningContent = [], chToolCalls = [], chFinishReason = []\<rparr>"

definition chat_error_fields :: "(string \<times> string) fields" where
  "chat_error_fields =
     [(''message'', on fst apfst dec_string), (''type'', on snd apsnd dec_string)]"

definition chat_fields :: "chatResponse fields" where
  "chat_fields =
     [(''choices'', on caChoices caChoices_update (dec_list zero_chat_choice (dec_struct chat_choice_fields))),
      (''usage'', on caUsage caUsage_update (dec_struct usage_fields)),
      (''error'', on caError caError_update (dec_ptr ([], []) (dec_struct chat_error_fields)))]"

definition chat_decoder :: "(string \<Rightarrow> string) \<Rightarrow> string \<Rightarrow> string + chatResponse" where
  "chat_decoder wording s =
     (let (r, ok) = unmarshal (dec_struct chat_fields) s \<lparr>caChoices = [], caUsage = zero_usage, caError = None\<rparr>
      in if ok then Inr r else Inl (wording s))"

section \<open>The text of a stream's events\<close>

definition int_member :: "string \<Rightarrow> int \<Rightarrow> member list" where
  "int_member k i = [(k, show_int i, JNum (int_number i))]"

definition obj_member :: "string \<Rightarrow> member list \<Rightarrow> member list" where
  "obj_member k ms = [(k, members_text ms, members_tree ms)]"

definition list_member :: "string \<Rightarrow> member list list \<Rightarrow> member list" where
  "list_member k mss = [(k, ''['' @ Join (map members_text mss) '','' @ '']'', JArr (map members_tree mss))]"

definition call_members :: "toolCallDelta \<Rightarrow> member list" where
  "call_members d = int_member ''index'' (dlIndex d) @ opt_member ''id'' (dlID d) @
     obj_member ''function'' (opt_member ''name'' (dlName d) @ opt_member ''arguments'' (dlArguments d))"

definition choice_members :: "streamChoice \<Rightarrow> member list" where
  "choice_members c =
     obj_member ''delta'' (opt_member ''content'' (soContent c) @
       (if soToolCalls c = [] then [] else list_member ''tool_calls'' (map call_members (soToolCalls c)))) @
     (case soFinishReason c of None \<Rightarrow> [(''finish_reason'', ''null'', JNull)] | Some r \<Rightarrow> str_member ''finish_reason'' r)"

definition usage_members :: "TokenUsage \<Rightarrow> member list" where
  "usage_members u = int_member ''prompt_tokens'' (tuPromptTokens u) @ int_member ''completion_tokens'' (tuCompletionTokens u) @
     int_member ''total_tokens'' (tuTotalTokens u)"

definition chunk_members :: "streamChunk \<Rightarrow> member list" where
  "chunk_members c = list_member ''choices'' (map choice_members (stChoices c)) @
     (case stUsage c of None \<Rightarrow> [] | Some u \<Rightarrow> obj_member ''usage'' (usage_members u))"

definition chunk_json :: "streamChunk \<Rightarrow> string" where
  "chunk_json c = members_text (chunk_members c)"

text \<open>Chunks whose strings are well formed and whose numbers fit, the indices of calls also into memory.\<close>

definition int64 :: "int \<Rightarrow> bool" where
  "int64 i \<longleftrightarrow> - (2 ^ 63) \<le> i \<and> i < 2 ^ 63"

definition delta_ok :: "toolCallDelta \<Rightarrow> bool" where
  "delta_ok d \<longleftrightarrow> int64 (dlIndex d) \<and> fix_utf8 (dlID d) = dlID d \<and> fix_utf8 (dlName d) = dlName d \<and> fix_utf8 (dlArguments d) = dlArguments d"

definition choice_ok :: "streamChoice \<Rightarrow> bool" where
  "choice_ok c \<longleftrightarrow> fix_utf8 (soContent c) = soContent c \<and> (\<forall>d \<in> set (soToolCalls c). delta_ok d) \<and>
     (\<forall>r. soFinishReason c = Some r \<longrightarrow> fix_utf8 r = r)"

definition chunk_ok :: "streamChunk \<Rightarrow> bool" where
  "chunk_ok c \<longleftrightarrow> (\<forall>x \<in> set (stChoices c). choice_ok x) \<and>
     (\<forall>u. stUsage c = Some u \<longrightarrow> int64 (tuPromptTokens u) \<and> int64 (tuCompletionTokens u) \<and> int64 (tuTotalTokens u)) \<and>
     indices_fit (chunk_deltas c)"

section \<open>Reading them\<close>

lemma read_string:
  assumes "find_field fs k = Some (on get upd dec_string)" and "fix_utf8 k = k" and "fix_utf8 v = v"
  shows "read_members fs (str_member k v) (s, ok) = (upd (\<lambda>_. v) s, ok)"
    and "(v = [] \<Longrightarrow> upd (\<lambda>_. []) s = s) \<Longrightarrow> read_members fs (opt_member k v) (s, ok) = (upd (\<lambda>_. v) s, ok)"
  using assms by (auto simp: opt_member_def str_member_def dec_member_known on_def dec_string_def)

lemma read_int:
  assumes "find_field fs k = Some (on get upd dec_int)" and "fix_utf8 k = k" and "int64 i"
  shows "read_members fs (int_member k i) (s, ok) = (upd (\<lambda>_. i) s, ok)"
  using assms by (auto simp: int_member_def dec_member_known on_def dec_int_def ParseInt_show int64_def)

lemma read_object:
  assumes "find_field fs k = Some d" and "fix_utf8 k = k" and "d (members_tree ms) s = (s', True)"
  shows "read_members fs (obj_member k ms) (s, ok) = (s', ok)"
  using assms by (simp add: obj_member_def dec_member_known)

lemma dec_list_trees:
  assumes "\<And>x. x \<in> set xs \<Longrightarrow> d (members_tree (f x)) zero = (x, True)"
  shows "dec_list zero d (JArr (map members_tree (map f xs))) [] = (xs, True)"
proof -
  have "dec_elems zero (pure d) (map members_tree (map f xs)) ((), []) = (((), xs), True)"
    using assms by (induction xs) (simp_all add: pure_def)
  then show ?thesis by (simp add: dec_list_def dec_slice_def)
qed

lemma read_list:
  assumes "find_field fs k = Some (on get upd (dec_list zero d))" and "fix_utf8 k = k" and "get s = []"
    and "\<And>x. x \<in> set xs \<Longrightarrow> d (members_tree (f x)) zero = (x, True)"
  shows "read_members fs (list_member k (map f xs)) (s, ok) = (upd (\<lambda>_. xs) s, ok)"
  using assms(1-3) dec_list_trees[of xs d f zero, OF assms(4)]
  by (simp add: list_member_def dec_member_known on_def)

lemma wire_find:
  "find_field delta_function_fields ''name'' = Some (on dlName dlName_update dec_string)"
  "find_field delta_function_fields ''arguments'' = Some (on dlArguments dlArguments_update dec_string)"
  "find_field delta_call_fields ''index'' = Some (on dlIndex dlIndex_update dec_int)"
  "find_field delta_call_fields ''id'' = Some (on dlID dlID_update dec_string)"
  "find_field delta_call_fields ''function'' = Some (dec_struct delta_function_fields)"
  "find_field delta_fields ''content'' = Some (on soContent soContent_update dec_string)"
  "find_field delta_fields ''tool_calls'' = Some (on soToolCalls soToolCalls_update (dec_list zero_delta (dec_struct delta_call_fields)))"
  "find_field stream_choice_fields ''delta'' = Some (dec_struct delta_fields)"
  "find_field stream_choice_fields ''finish_reason'' = Some (on soFinishReason soFinishReason_update (dec_ptr [] dec_string))"
  "find_field usage_fields ''prompt_tokens'' = Some (on tuPromptTokens tuPromptTokens_update dec_int)"
  "find_field usage_fields ''completion_tokens'' = Some (on tuCompletionTokens tuCompletionTokens_update dec_int)"
  "find_field usage_fields ''total_tokens'' = Some (on tuTotalTokens tuTotalTokens_update dec_int)"
  "find_field chunk_fields ''choices'' = Some (on stChoices stChoices_update (dec_list zero_stream_choice (dec_struct stream_choice_fields)))"
  "find_field chunk_fields ''usage'' = Some (on stUsage stUsage_update (dec_ptr zero_usage (dec_struct usage_fields)))"
  by (simp_all add: find_field_def delta_function_fields_def delta_call_fields_def delta_fields_def stream_choice_fields_def
      usage_fields_def chunk_fields_def)

lemmas struct_read = members_tree_def dec_struct_Obj map_append fold_append comp_def

lemma dec_call:
  assumes ok: "delta_ok d"
  shows "dec_struct delta_call_fields (members_tree (call_members d)) zero_delta = (d, True)"
proof -
  define fm where "fm = opt_member ''name'' (dlName d) @ opt_member ''arguments'' (dlArguments d)"
  let ?z = "zero_delta\<lparr>dlIndex := dlIndex d, dlID := dlID d\<rparr>"
  have "dec_struct delta_function_fields (members_tree fm) ?z = (d, True)"
    using ok unfolding delta_ok_def struct_read fm_def
    by (simp add: read_string(2)[OF wire_find(1)] read_string(2)[OF wire_find(2)] zero_delta_def del: list.map fold.simps)
  then have "read_members delta_call_fields (obj_member ''function'' fm) (?z, True) = (d, True)"
    by (intro read_object[OF wire_find(5)]) simp_all
  moreover have "read_members delta_call_fields (opt_member ''id'' (dlID d)) (zero_delta\<lparr>dlIndex := dlIndex d\<rparr>, True) = (?z, True)"
    using ok by (intro read_string(2)[OF wire_find(4)]) (auto simp: delta_ok_def zero_delta_def)
  moreover have "read_members delta_call_fields (int_member ''index'' (dlIndex d)) (zero_delta, True) = (zero_delta\<lparr>dlIndex := dlIndex d\<rparr>, True)"
    using ok by (intro read_int[OF wire_find(3)]) (auto simp: delta_ok_def)
  ultimately show ?thesis
    unfolding call_members_def fm_def[symmetric] struct_read by (simp only:)
qed

lemma dec_choice:
  assumes ok: "choice_ok c"
  shows "dec_struct stream_choice_fields (members_tree (choice_members c)) zero_stream_choice = (c, True)"
proof -
  let ?z = "zero_stream_choice\<lparr>soContent := soContent c\<rparr>"
  define dm where "dm = opt_member ''content'' (soContent c) @
    (if soToolCalls c = [] then [] else list_member ''tool_calls'' (map call_members (soToolCalls c)))"
  define y where "y = ?z\<lparr>soToolCalls := soToolCalls c\<rparr>"
  have "read_members delta_fields (list_member ''tool_calls'' (map call_members (soToolCalls c))) (?z, True) = (y, True)"
    using ok unfolding y_def by (intro read_list[OF wire_find(7)] dec_call) (auto simp: choice_ok_def zero_stream_choice_def)
  moreover have "read_members delta_fields (opt_member ''content'' (soContent c)) (zero_stream_choice, True) = (?z, True)"
    using ok by (intro read_string(2)[OF wire_find(6)]) (auto simp: choice_ok_def zero_stream_choice_def)
  moreover have "y = ?z" if "soToolCalls c = []" using that by (simp add: y_def zero_stream_choice_def)
  ultimately have "dec_struct delta_fields (members_tree dm) zero_stream_choice = (y, True)"
    unfolding dm_def struct_read by simp
  then have "read_members stream_choice_fields (obj_member ''delta'' dm) (zero_stream_choice, True) = (y, True)"
    by (intro read_object[OF wire_find(8)]) simp_all
  then show ?thesis
    using ok unfolding choice_members_def dm_def[symmetric] struct_read
    by (cases "soFinishReason c")
      (auto simp: choice_ok_def dec_member_known[OF wire_find(9)] str_member_def on_def dec_ptr_def dec_string_def y_def zero_stream_choice_def)
qed

lemma dec_usage:
  "int64 (tuPromptTokens u) \<Longrightarrow> int64 (tuCompletionTokens u) \<Longrightarrow> int64 (tuTotalTokens u) \<Longrightarrow>
   dec_struct usage_fields (members_tree (usage_members u)) zero_usage = (u, True)"
  unfolding usage_members_def struct_read
  by (simp add: read_int[OF wire_find(10)] read_int[OF wire_find(11)] read_int[OF wire_find(12)] zero_usage_def del: list.map fold.simps)

lemma dec_chunk: "chunk_ok c \<Longrightarrow> dec_struct chunk_fields (members_tree (chunk_members c)) zero_chunk = (c, True)"
proof -
  assume ok: "chunk_ok c"
  have choices: "read_members chunk_fields (list_member ''choices'' (map choice_members (stChoices c))) (zero_chunk, True) =
      (zero_chunk\<lparr>stChoices := stChoices c\<rparr>, True)"
    using ok by (intro read_list[OF wire_find(13)] dec_choice) (auto simp: chunk_ok_def zero_chunk_def)
  show ?thesis
  proof (cases "stUsage c")
    case None
    then show ?thesis using choices unfolding chunk_members_def struct_read by (simp add: zero_chunk_def)
  next
    case (Some u)
    have "read_members chunk_fields (obj_member ''usage'' (usage_members u)) (zero_chunk\<lparr>stChoices := stChoices c\<rparr>, True) = (c, True)"
    proof (rule read_object[OF wire_find(14)])
      have "dec_struct usage_fields (members_tree (usage_members u)) zero_usage = (u, True)"
        using ok Some by (intro dec_usage) (auto simp: chunk_ok_def)
      then show "on stUsage stUsage_update (dec_ptr zero_usage (dec_struct usage_fields)) (members_tree (usage_members u))
          (zero_chunk\<lparr>stChoices := stChoices c\<rparr>) = (c, True)"
        using Some by (simp add: on_def dec_ptr_def zero_chunk_def members_tree_def)
    qed simp
    then show ?thesis using choices Some unfolding chunk_members_def struct_read by simp
  qed
qed

section \<open>The bytes of a stream\<close>

definition readable :: "nat \<Rightarrow> member list \<Rightarrow> bool" where
  "readable n ms \<longleftrightarrow> (\<forall>m \<in> set ms. reads_as n (fst (snd m)) (snd (snd m)) \<and> CHR 0x0A \<notin> set (fst (snd m)))"

lemma readableD: "readable n ms \<Longrightarrow> \<forall>(k, t, j) \<in> set ms. reads_as n t j"
  by (auto simp: readable_def)

lemma utf8_high:
  assumes "\<not> (of_char c :: nat) < 128" and "0 < utf8_len (c # t)" and "i < utf8_len (c # t)"
  shows "128 \<le> (of_char ((c # t) ! i) :: nat)"
proof (cases "i = 0")
  case False
  have weak: "cont lo hi (c # t) j \<Longrightarrow> 128 \<le> lo \<Longrightarrow> 128 \<le> (of_char ((c # t) ! j) :: nat)" for lo hi j by (simp add: cont_def)
  have "(utf8_len (c # t) = 2 \<and> cont 128 191 (c # t) 1) \<or>
      (utf8_len (c # t) = 3 \<and> (\<exists>lo hi. 128 \<le> lo \<and> cont lo hi (c # t) 1) \<and> cont 128 191 (c # t) 2) \<or>
      (utf8_len (c # t) = 4 \<and> (\<exists>lo hi. 128 \<le> lo \<and> cont lo hi (c # t) 1) \<and> cont 128 191 (c # t) 2 \<and> cont 128 191 (c # t) 3)"
    using assms(1,2) unfolding utf8_len_def Let_def list.case by (auto split: if_splits intro: exI[of _ "160::nat"] exI[of _ "128::nat"] exI[of _ "144::nat"])
  then show ?thesis
  proof (elim disjE conjE exE)
    assume "utf8_len (c # t) = 2" "cont 128 191 (c # t) 1"
    moreover from this have "i = 1" using assms(3) False by simp
    ultimately show ?thesis using weak by blast
  next
    fix lo hi assume "utf8_len (c # t) = 3" and c: "128 \<le> lo" "cont lo hi (c # t) 1" "cont 128 191 (c # t) 2"
    then have "i = 1 \<or> i = 2" using assms(3) False by auto
    then show ?thesis using c weak by blast
  next
    fix lo hi assume "utf8_len (c # t) = 4" and c: "128 \<le> lo" "cont lo hi (c # t) 1" "cont 128 191 (c # t) 2" "cont 128 191 (c # t) 3"
    then have "i = 1 \<or> i = 2 \<or> i = 3" using assms(3) False by auto
    then show ?thesis using c weak by blast
  qed
qed (use assms(1) in simp)

lemma json_ascii_line: "CHR 0x0A \<notin> set (json_ascii c)"
proof -
  let ?b = "of_char c :: nat"
  have hex: "CHR 0x0A \<noteq> hex d" if "d < 16" for d
  proof -
    have "hex_val (CHR 0x0A) = None" by (simp add: hex_val_def)
    with hex_val_hex[OF that] show ?thesis by (metis option.distinct(1))
  qed
  show ?thesis
  proof (cases "?b < 32 \<or> ?b \<in> {34, 38, 60, 62, 92}")
    case True
    then have "?b div 16 < 16" "?b mod 16 < 16" by auto
    moreover have "CHR 0x0A \<noteq> c" if "?b \<noteq> 10" using that by auto
    ultimately show ?thesis using hex unfolding json_ascii_def Let_def by simp
  next
    case False
    then have "json_ascii c = [c]" "CHR 0x0A \<noteq> c" by (auto simp: json_ascii_def)
    then show ?thesis by simp
  qed
qed

lemma json_chars_line: "CHR 0x0A \<notin> set (json_chars s)"
proof (induction s rule: json_chars.induct)
  case (1 s)
  show ?case
  proof (cases s)
    case (Cons c t)
    have "CHR 0x0A \<notin> set (take (utf8_len s) s)" if high: "\<not> (of_char c :: nat) < 128" "utf8_len s \<noteq> 0"
    proof
      assume "CHR 0x0A \<in> set (take (utf8_len s) s)"
      then obtain i where "i < utf8_len (c # t)" "(c # t) ! i = CHR 0x0A" by (auto simp: in_set_conv_nth Cons)
      with utf8_high[of c t i] high show False by (simp add: Cons)
    qed
    with 1 json_ascii_line[of c] show ?thesis unfolding json_chars.simps[of s] by (simp add: Cons)
  qed simp
qed

lemma json_string_line: "CHR 0x0A \<notin> set (json_string s)"
  by (simp add: json_string_def json_chars_line)

lemma Join_set: "c \<in> set (Join ts sep) \<Longrightarrow> c \<in> set sep \<or> (\<exists>t \<in> set ts. c \<in> set t)"
  by (induction ts sep rule: Join.induct) auto

lemma members_line: "readable n ms \<Longrightarrow> CHR 0x0A \<notin> set (members_text ms)"
  using json_string_line by (fastforce simp: members_text_def object_text_def readable_def dest!: Join_set)

lemma readable_append [simp]: "readable n (xs @ ys) \<longleftrightarrow> readable n xs \<and> readable n ys"
  by (simp add: readable_def ball_Un)

lemma readable_leaf [simp]:
  "readable n []" "readable n (str_member k v)" "readable n (opt_member k v)" "readable n (int_member k i)" "readable n [(k, ''null'', JNull)]"
proof -
  have "is_digit c \<Longrightarrow> c \<noteq> CHR 0x0A" for c by (auto simp: is_digit_def)
  then have "CHR 0x0A \<notin> set (show_int i)" for i by (auto simp: show_int_def dest: show_nat_digits)
  moreover have "reads_as n (show_int i) (JNum (int_number i))" for i unfolding show_int_text by (rule reads_number) (rule int_number_ok)
  ultimately show "readable n (int_member k i)" by (simp add: readable_def int_member_def)
qed (simp_all add: readable_def str_member_def opt_member_def reads_string json_string_line reads_literal)

lemma readable_obj: "readable n ms \<Longrightarrow> readable (Suc n) (obj_member k ms)"
  using members_read[OF readableD] members_line[of n ms] by (simp add: readable_def[of "Suc n"] obj_member_def)

lemma readable_list: "(\<And>ms. ms \<in> set mss \<Longrightarrow> readable n ms) \<Longrightarrow> readable (Suc (Suc n)) (list_member k mss)"
proof -
  assume ms: "\<And>ms. ms \<in> set mss \<Longrightarrow> readable n ms"
  have "list_all2 (reads_as (Suc n)) (map members_text mss) (map members_tree mss)"
    unfolding list_all2_map1 list_all2_map2 list_all2_same using members_read[OF readableD[OF ms]] by blast
  from reads_list[OF this] show ?thesis
    using members_line[OF ms] by (fastforce simp: readable_def[of "Suc (Suc n)"] list_member_def dest!: Join_set)
qed

lemma chunk_readable: "readable (Suc (Suc (Suc (Suc (Suc (Suc n)))))) (chunk_members c)"
proof -
  have call: "readable (Suc n) (call_members d)" for d by (simp add: call_members_def readable_obj)
  have choice: "readable (Suc (Suc (Suc (Suc n)))) (choice_members x)" for x
  proof -
    have "readable (Suc (Suc (Suc n))) (list_member ''tool_calls'' (map call_members (soToolCalls x)))"
      using call by (intro readable_list) auto
    then show ?thesis by (simp add: choice_members_def readable_obj split: option.split)
  qed
  then show ?thesis
    by (auto simp: chunk_members_def usage_members_def intro!: readable_list readable_obj split: option.split)
qed

lemma chunk_decoded: "chunk_ok c \<Longrightarrow> chunk_decoder w (chunk_json c) = Inr c"
proof -
  assume ok: "chunk_ok c"
  have "reads_as 10000 (chunk_json c) (members_tree (chunk_members c))"
    using members_read[OF readableD[OF chunk_readable[of 9993 c]]] by (simp add: chunk_json_def)
  from parse_marshal[OF this] show ?thesis using dec_chunk[OF ok] by (simp add: chunk_decoder_def unmarshal_def)
qed

lemma chunk_line: "CHR 0x0A \<notin> set (chunk_json c)"
  using members_line[OF chunk_readable[of 0 c]] by (simp add: chunk_json_def)

lemma chunk_payload: "length (chunk_json c) < 65000 \<Longrightarrow> payload_ok (chunk_json c)"
  using chunk_line[of c] by (auto simp: payload_ok_def chunk_json_def members_text_def object_text_def)

section \<open>From the wire to the plan\<close>


definition hello_chunk :: streamChunk where
  "hello_chunk = \<lparr>stChoices = [\<lparr>soContent = ''hi'', soToolCalls = [], soFinishReason = Some ''stop''\<rparr>], stUsage = None\<rparr>"

lemma hello_ok: "chunk_ok hello_chunk" "payload_ok (chunk_json hello_chunk)"
proof -
  have "length (chunk_json hello_chunk) < 65000"
    by (simp add: chunk_json_def chunk_members_def hello_chunk_def list_member_def choice_members_def obj_member_def opt_member_def str_member_def
        members_text_def object_text_def json_string_def json_chars_ascii json_ascii_def)
  then show "payload_ok (chunk_json hello_chunk)" by (rule chunk_payload)
  show "chunk_ok hello_chunk" by (simp add: chunk_ok_def hello_chunk_def choice_ok_def indices_fit_def chunk_deltas_def)
qed


text \<open>The event with which a backend reports that it failed.\<close>

definition error_event :: "string \<Rightarrow> string" where
  "error_event m = members_text (obj_member ''error'' (str_member ''message'' m))"

lemma error_parsed: "parse_json (error_event m) = Some (members_tree (obj_member ''error'' (str_member ''message'' m)))"
  unfolding error_event_def
  using members_read[OF readableD[OF readable_obj[OF readable_leaf(2)]], of 9998 "''error''" "''message''" m] by (intro parse_marshal) simp

lemma error_unknown: "find_field chunk_fields ''error'' = None"
  by (simp add: find_field_def chunk_fields_def fold_name_ascii del: fold_name.simps(2))

lemma error_decoded: "chunk_decoder w (error_event m) = Inr zero_chunk"
  unfolding chunk_decoder_def unmarshal_def error_parsed
  by (simp add: members_tree_def obj_member_def dec_struct_Obj dec_member_unknown[OF error_unknown])

text \<open>C38. 
  An error reported within a stream is not seen: after any events, the event \<open>{"error": ...}\<close> of a backend that failed is
  read as an empty chunk and the stream ends without an error, so the text so far passes for the whole answer, while the same
  object as the response of an unstreamed call is reported as an error.
\<close>

theorem stream_error_unseen:
  assumes "event_stream (map chunk_json chunks @ [error_event m]) body" and "\<forall>c \<in> set chunks. chunk_ok c \<and> stChoices c \<noteq> []"
    and "\<forall>n. \<not> cs_cancelled cs n"
  shows "read_openai_stream (chunk_decoder w) cs (body, err) = chunks_seen [] (chunks @ [zero_chunk]) \<and>
    (\<forall>c \<in> set (chunks_seen [] (chunks @ [zero_chunk])). scError c = None) \<and>
    read_chat (chat_decoder w) (error_event m) = Inl (APIError (fix_utf8 m) [])"
proof (intro conjI)
  let ?enc = "\<lambda>c. if c = zero_chunk then error_event m else chunk_json c"
  have other: "c \<noteq> zero_chunk" if "c \<in> set chunks" for c using assms(2) that by (auto simp: zero_chunk_def)
  then have "map ?enc (chunks @ [zero_chunk]) = map chunk_json chunks @ [error_event m]" by simp
  with assms(1) have stream: "event_stream (map ?enc (chunks @ [zero_chunk])) body" by (simp only:)
  have "indices_fit (chunk_deltas zero_chunk)" by (simp add: zero_chunk_def chunk_deltas_def indices_fit_def)
  then show "read_openai_stream (chunk_decoder w) cs (body, err) = chunks_seen [] (chunks @ [zero_chunk])"
    using assms(2,3) by (intro read_event_stream[OF stream]) (auto simp: chunk_decoded error_decoded chunk_ok_def)
  have "\<forall>c \<in> set (chunks_seen ds cs'). scError c = None" for ds cs'
    by (induction cs' arbitrary: ds) (auto simp: chunk_seen_def)
  then show "\<forall>c \<in> set (chunks_seen [] (chunks @ [zero_chunk])). scError c = None" .
  have "find_field chat_fields ''error'' = Some (on caError caError_update (dec_ptr ([], []) (dec_struct chat_error_fields)))"
    "find_field chat_error_fields ''message'' = Some (on fst apfst dec_string)"
    by (simp_all add: find_field_def chat_fields_def chat_error_fields_def)
  then show "read_chat (chat_decoder w) (error_event m) = Inl (APIError (fix_utf8 m) [])"
    unfolding read_chat_def chat_decoder_def unmarshal_def error_parsed
    by (simp add: members_tree_def obj_member_def str_member_def dec_struct_Obj dec_member_known on_def dec_ptr_def dec_string_def)
qed

theorem stream_error_unseen_witness:
  "read_openai_stream (chunk_decoder id) patient_consumer (event_bytes (map chunk_json [hello_chunk] @ [error_event ''overloaded'']), None) =
      chunks_seen [] ([hello_chunk] @ [zero_chunk]) \<and>
    list_all (\<lambda>c. scError c = None) (chunks_seen [] ([hello_chunk] @ [zero_chunk])) \<and>
    read_chat (chat_decoder id) (error_event ''overloaded'') = Inl (APIError (fix_utf8 ''overloaded'') [])"
  unfolding list_all_iff
proof (rule stream_error_unseen)
  have "payload_ok (error_event ''overloaded'')"
    by (simp add: payload_ok_def error_event_def obj_member_def str_member_def members_text_def object_text_def json_string_def
        json_chars_ascii json_ascii_def)
  then show "event_stream (map chunk_json [hello_chunk] @ [error_event ''overloaded'']) (event_bytes (map chunk_json [hello_chunk] @ [error_event ''overloaded'']))"
    using hello_ok(2) by (intro event_bytes_stream) simp
  show "\<forall>c \<in> set [hello_chunk]. chunk_ok c \<and> stChoices c \<noteq> []" using hello_ok(1) by (simp add: hello_chunk_def)
qed (simp add: patient_consumer_def)


text \<open>A text sent in three events.\<close>

definition text_event :: "string \<Rightarrow> streamChunk" where
  "text_event t = \<lparr>stChoices = [\<lparr>soContent = t, soToolCalls = [], soFinishReason = None\<rparr>], stUsage = None\<rparr>"

lemmas json_eval = members_text_def object_text_def json_string_def json_chars_ascii json_ascii_def str_member_def opt_member_def

lemma text_event_ok:
  assumes "length (json_chars t) < 60000" and "list_all (\<lambda>c. (of_char c :: nat) < 128) t"
  shows "chunk_ok (text_event t)" "payload_ok (chunk_json (text_event t))"
proof -
  have "length (chunk_json (text_event t)) < 65000"
    using assms(1) by (simp add: chunk_json_def chunk_members_def text_event_def list_member_def choice_members_def obj_member_def json_eval)
  then show "payload_ok (chunk_json (text_event t))" by (rule chunk_payload)
  show "chunk_ok (text_event t)"
    using assms(2) by (simp add: chunk_ok_def text_event_def choice_ok_def indices_fit_def chunk_deltas_def)
qed

abbreviation demo_text :: string where
  "demo_text \<equiv> plan_text (go_lib plain_lib id) [[(''on'', GBool True)]] demo_plan"

lemma demo_text_ok: "length (json_chars demo_text) < 60000 \<and> list_all (\<lambda>c. (of_char c :: nat) < 128) demo_text"
  by (simp add: plan_text_def demo_plan_def demo_step_def plan_members_def steps_member_def step_members_def args_member_def json_object_def json_eval)

definition plan_wire :: "streamChunk list \<Rightarrow> wire" where
  "plan_wire chunks = hi_wire\<lparr>wReadChunk := chunk_decoder id,
     wTransport := \<lparr>new_request = \<lambda>_. None, send = \<lambda>_ _. Response 200 (event_bytes (map chunk_json chunks)) None, done_within = \<lambda>_ _. False\<rparr>\<rparr>"

end
