(* ===== verification/Spec2Isabelle.thy ===== *)
theory Spec2Isabelle
  imports Schema_Properties Policy_Enforcer Execution_Properties Profile_Properties Registry_Properties Planner_Properties
    Telemetry MCP_Server Providers_Properties Claude_Stream Provider_Chain Safety_Properties Retrieval_Properties Audit_Properties Skill_Files Runtime_Parts
    Registry_Concurrent Audit_Concurrent Stream_Channel Parallel_Dispatch Json_Contract Wire_Json
begin

text \<open>
  A verification development of \<open>openbotstack-core\<close>, the Go library that holds the control plane of
  an assistant platform: what an assistant may do, how a model is asked for a plan, and how the plan
  is checked and prepared for execution. Execution itself belongs to another repository.

  \<^bold>\<open>The program and its parts.\<close> A request reaches the planner (\<open>planner\<close>, \<open>planning\<close>), which renders a prompt
  from the assistant's profile (\<open>control/profile\<close>) and the descriptors of its skills and tools
  (\<open>registry/skills\<close>, \<open>capability\<close>, \<open>mcp\<close>), asks the router (\<open>ai/router\<close>) for a provider (\<open>ai/providers\<close>) and
  decodes the answer into a plan (\<open>execution/plan.go\<close>). The plan is validated and frozen; before a step
  runs, its arguments are coerced and references to the results of earlier steps are resolved
  (\<open>execution/template\<close>), checked against a JSON Schema (\<open>validation\<close>) and against the tenant's rules
  (\<open>control/policy\<close>) and permissions. Metrics are counted along the way (\<open>telemetry\<close>).

  \<^bold>\<open>Theories.\<close>
  \<^item> \<open>Go_Prelude\<close>, \<open>Go_Strings\<close>, \<open>Go_Value\<close>: Go maps, the functions of \<open>strings\<close> and number printing, floats,
    values of type \<open>any\<close> and \<open>json.Marshal\<close>. A map is an association list without duplicate keys whose
    order stands for the order in which Go would range over it; theorems that quantify over two such
    lists with the same entries (\<open>gm_same\<close>) say that the iteration order does not matter. What Go leaves
    to the platform or to large libraries (float arithmetic and printing, regular expressions, decoding of JSON) is a
    field of the record \<open>stdlib\<close>, and most theorems hold for every such record.
  \<^item> \<open>Go_Float\<close>, \<open>Go_Number\<close>, \<open>Go_Json\<close>, \<open>Json_Roundtrip\<close>, \<open>Json_Canonical\<close>, \<open>Go_Library\<close>: these fields in place. Rounding to 53 bits,
    decimal literals and the shortest one that reads back, the reader of \<open>encoding/json\<close> from bytes to values, that reading undoes
    writing, and what the values it produces have in common. \<open>go_lib\<close> is the record built from them; it leaves only Unicode
    lower-casing, regular expressions, conversion of floats out of the range of \<open>int64\<close> and the wording of errors open.
  \<^item> \<open>Json_Structs\<close>, \<open>Plan_Json\<close>, \<open>Plan_Json_Properties\<close>, \<open>Wire_Json\<close>: \<open>json.Unmarshal\<close> into structs, with the tags of \<open>JSONSchema\<close>,
    \<open>ExecutionPlan\<close>, \<open>ToolCallParams\<close> and of the responses and stream events of the OpenAI protocol. \<open>Json_Contract\<close>: components that
    hand values to each other as JSON.
  \<^item> \<open>AI_Types\<close>: \<open>ai/types\<close>, with JSON schemas, messages, content blocks, model requests and responses.
  \<^item> \<open>Schema_Validation\<close>: \<open>validation/schema.go\<close>, the lenient and the strict validator. \<open>Schema_Semantics\<close> says
    keyword by keyword when a value satisfies a schema; \<open>Schema_Properties\<close> proves that the validators
    decide it, that acceptance does not depend on map order, where errors point, and how the two modes
    compare.
  \<^item> \<open>Policy_Enforcer\<close>: \<open>control/policy/policy.go\<close>. Rules are the state; evaluation, insertion, removal and
    the matching of conditions and time windows are the operations. The invariant is proved by rule
    induction over reachable states.
  \<^item> \<open>Template_Engine\<close>, \<open>Template_Properties\<close>: \<open>execution/template/engine.go\<close>. The regular expression is a scanner
    into pieces; resolution, extraction of referenced steps and coercion of strings to numbers at
    64 bits are functions on it.
  \<^item> \<open>Execution_Plan\<close>, \<open>Execution_Properties\<close>: \<open>execution/plan.go\<close>, \<open>support_types.go\<close>, \<open>evidence.go\<close> and
    \<open>execution_context.go\<close>. Argument maps live in an explicit heap, so that sharing between a step and
    its copy is visible and the theorem that preparing a step leaves the plan untouched has content.
  \<^item> \<open>Profile\<close>, \<open>Profile_Properties\<close>: \<open>control/profile\<close>, with the merge of global, tenant and session profiles,
    the report of scope violations, the vocabulary and prompt rendering.
  \<^item> \<open>Map_Store\<close>: \<open>registry/skills/base.go\<close> and the interface of keyed stores as the locales \<open>keyed_store\<close> and
    \<open>guarded_store\<close>, interpreted on \<open>MapStore\<close>, on the router's table and on the host key-value store.
  \<^item> \<open>Skill_Registry\<close>, \<open>Registry_Properties\<close>: the rest of \<open>registry/skills\<close> and \<open>capability\<close>; callbacks are
    identifiers and their invocations a log.
  \<^item> \<open>Model_Router\<close>: \<open>ai/router/router.go\<close>. \<open>Planner\<close>, \<open>Planner_Properties\<close>: \<open>planner\<close> and \<open>planning\<close>.
  \<^item> \<open>Providers\<close>, \<open>Anthropic\<close>, \<open>Providers_Properties\<close>, \<open>Claude_Stream\<close>: \<open>ai/providers\<close>, with request conversion, retries with
    64-bit waiting times, event streams and the accumulation of streamed tool calls, whose number is a 64-bit integer.
    \<open>Event_Stream\<close> says what bodies a backend may send: data lines with the payloads in order, and blank lines, comments and other
    fields anywhere between them, each line ended by LF or CRLF. \<open>Claude_Stream\<close> adds the grammar of Claude's events, the start of the
    message, text and tool blocks, pings and events of other names included. Properties of streams hold for every such body.
  \<^item> \<open>Provider_Chain\<close>: planner, router, provider and wire put together: over either provider type planning does not depend on
    streaming or on the pieces a stream arrives in, when the backend answers both ways with the same text; no call is retried; and what
    a refused stream looks like to the planner.
  \<^item> \<open>Event_Bus\<close>, \<open>Registry_Concurrent\<close>, \<open>Audit_Concurrent\<close>: the registry and the emitter used by several goroutines.
    \<open>Event_Bus\<close> is the step relation both share, a locked change, a locked copy of the receivers, one call at a time
    without lock, and the locale \<open>publisher\<close>, which accounts for every call; the other two interpret it.
  \<^item> \<open>Stream_Contract\<close>: the locale \<open>streaming_provider\<close>, what the planner may rely on in a stream, interpreted on both
    provider types. \<open>Stream_Channel\<close>: the goroutine of a stream, its channel of 64 places, the backend whose
    lines arrive one by one, the consumer, the context and the time limit of the HTTP client as parties that take turns; the sequential
    readers of \<open>Providers\<close> and \<open>Anthropic\<close> are what their runs amount to. A goroutine waits in one of two places, for a line the
    backend has not sent and for room in a full channel.
  \<^item> \<open>Parallel_Dispatch\<close>: batches of \<open>GroupParallelSteps\<close> and \<open>Prepare\<close> together.
  \<^item> \<open>Telemetry\<close>: \<open>telemetry/metrics.go\<close>. \<open>MCP_Server\<close>: \<open>mcp/server.go\<close> and the types it needs.
  \<^item> \<open>Go_Regexp\<close>, \<open>Safety_Filter\<close>, \<open>Safety_Properties\<close>: \<open>ai/safety\<close>. The five regular expressions are written out over
    a model of leftmost-first matching on bytes with word boundaries; the lemmas on replacement by a
    bracketed token show that masking leaves none of its patterns behind.
  \<^item> \<open>Go_Fields\<close>, \<open>Retrieval\<close>, \<open>Retrieval_Properties\<close>: \<open>ai/retrieval\<close>. Scores are quotients rounded to 53 bits, so
    that the order by score is shown to be the order by shared words; the order of equal scores and of
    the map is arbitrary.
  \<^item> \<open>Audit_Events\<close>, \<open>Audit_Properties\<close>: \<open>audit\<close>. Subscribers are arguments that may fail, panic or call the emitter
    again; the set of subscribers interprets \<open>keyed_store\<close>.
  \<^item> \<open>Skill_Files\<close>: the functions of \<open>registry/skills\<close> on paths and files, over the Unix rules of \<open>path/filepath\<close> and
    a file system as argument. \<open>Runtime_Parts\<close>: spans (\<open>telemetry/trace.go\<close>), \<open>assistant\<close>, \<open>access/auth\<close> and the rest
    of \<open>ai/types\<close>.

  \<^bold>\<open>How code becomes definitions.\<close> A struct is a record, an error a value of a datatype, a method that
  takes its object's lock one function from the old state to the new one and the result. Panics the
  code can reach are \<open>None\<close>; a panic in the goroutine of a stream, which ends the process, is a last chunk with the error "panic" in the
  sequential readers and the phase \<open>Crashed\<close> of \<open>Stream_Channel\<close>. Where goroutines interleave (registry, emitter, streams) the parts of a method
  between its locks are the steps of an inductive relation, in any order the scheduler might choose; an object that
  holds its lock throughout a method needs no such relation. Loops are structural recursion or carry a termination proof. Fuel is used in two places:
  the reader of JSON counts down from 10000, which is the bound on nesting that \<open>encoding/json\<close> itself enforces, and the reader of schemas from the
  depth of its tree, which \<open>dec_schema_rec\<close> shows to be enough. Identifiers drawn from the UUID generator, the network, the
  YAML reader and the text templates are parameters, and so are the decoders of JSON into structs in the theories of the code that calls
  them; hypotheses on them appear in the theorems and are met in the witnesses. The theories above put the decoders of plans, schemas,
  tool calls and OpenAI responses in their place; those of Claude's events and the encoders of requests remain parameters.

  \<^bold>\<open>What is shown.\<close> For each component: an exact description of its main operations on every branch,
  an invariant over all sequences of calls where it keeps state, and independence of map order where
  the code ranges over a map. For concurrent use: the contents are those of some sequential run, every
  event is delivered once, every stream ends if the backend goes on or the client
  has a time limit, and is what the sequential reader says. Across JSON: a plan is
  read from the bytes of a model's stream exactly as the model wrote it, arguments are judged alike as values and as bytes, a tool receives
  the arguments of the request, a constant of a schema survives being written and read. Where the code departs from its comments or from itself, a theorem
  states what it does: rules removed across tenants, conditions masked by a time window, a
  refused stream reported only through its channel, waits that wrap around after 34 retries, images
  dropped on the way to Claude, providers that never retry, a policy check that failed reported as allowed,
  a panic on a null property schema, closed objects that are open
  without listed properties, events of the registry told in the wrong order, a read error lost in a full channel, an error event taken for an
  empty chunk, a tool-call index with which a backend crashes the process or makes all calls of an answer disappear, templates that
  lose the type of their value, the constant \<open>null\<close> of a schema dropped by its reader, decimal strings coerced to a neighbour of the number they denote; further ones are lemmas next to them.

  \<^bold>\<open>What is not modelled.\<close> Packages that hold only interfaces, aliases or plain data for other repositories
  (\<open>access/ratelimit\<close>, \<open>control/agent\<close>, \<open>memory/abstraction\<close>, \<open>mcp/client.go\<close>, \<open>execution/executor.go\<close> and
  \<open>approval.go\<close>, the report types of \<open>audit/compliance.go\<close>) have no behaviour to model. Fused multiply-add, which some platforms use, the
  elements behind the end of a slice that decoding has cut, clocks and measured latencies,
  logging and the locks of objects that hold one lock for a whole method are left out. Memory is not bounded: a tool-call index below the
  limit of \<open>make\<close> is served, however much it would allocate. \<open>handleToolsList\<close> writes the default schema into the slice the provider returned;
  the model returns the changed list, and \<open>with_schema_twice\<close> says that a provider that returns the same slice again is answered alike. Metadata maps that the retrieval index, spans
  and envelopes share with their callers are values here, so changes through such an alias are not seen.
\<close>

end
